(* ===== verification/LorePrelude.thy ===== *)
theory LorePrelude
  imports Main "HOL-Library.Word"
begin

text \<open>
  Shared vocabulary of the LoreDB development: the machine types, the error values that
  every fallible operation returns, little-endian byte images of machine words (what
  \<open>memcpy\<close> and \<open>reinterpret_cast\<close> of an integer field produce on the supported
  targets), the bytes of a \<open>std::string\<close>, and lemma collections used by the component
  theories.
\<close>

unbundle bit_operations_syntax

section \<open>Machine types and identifiers\<close>

type_synonym u8 = "8 word"
type_synonym u16 = "16 word"
type_synonym u32 = "32 word"
type_synonym u64 = "64 word"

text \<open>\<open>int64_t\<close> is a 64-bit word read through \<^const>\<open>sint\<close>.\<close>

type_synonym i64 = "64 word"

type_synonym page_id = u64
type_synonym node_id = u64
type_synonym edge_id = u64
type_synonym property_id = u64

section \<open>Errors\<close>

text \<open>
  \<open>ErrorCode\<close> and \<open>Error\<close> of \<open>storage/page_store.h\<close>. Three further constructors are the
  outcomes of a C++ execution that returns no value: \<open>Exception\<close>, an exception of the
  standard library the code does not catch; \<open>Blocked\<close>, a call that waits for a lock that
  another transaction holds; and \<open>UndefinedBehaviour\<close>, an execution the language does not
  define (for instance a write past the end of a buffer). No operation returns them as an
  error object, and the theorems say when they cannot happen.
\<close>

datatype error_code =
    OK | IO_ERROR | CORRUPTION | OUT_OF_MEMORY | INVALID_ARGUMENT | NOT_FOUND | ALREADY_EXISTS

datatype error = Error error_code string | Exception string | Blocked | UndefinedBehaviour

type_synonym 'a result = "error + 'a"

definition has_value :: "'e + 'a \<Rightarrow> bool" where
  "has_value r = (case r of Inl _ \<Rightarrow> False | Inr _ \<Rightarrow> True)"

lemma has_value_simps [simp]: "has_value (Inr x)" "\<not> has_value (Inl e)"
  by (simp_all add: has_value_def)

lemma has_value_iff: "has_value r \<longleftrightarrow> (\<exists>x. r = Inr x)"
  by (cases r) simp_all

section \<open>Lemma collections\<close>

named_theorems wf_intros \<open>introduction rules for well-formedness invariants\<close>
named_theorems codec_simps \<open>round-trip equations of the byte codecs\<close>
named_theorems size_simps \<open>lengths of encoded values\<close>

section \<open>Little-endian images of words\<close>

text \<open>
  \<open>le_bytes n w\<close> is the little-endian image of the low \<open>n\<close> bytes of \<open>w\<close>;
  \<open>le_word bs\<close> is the word whose image \<open>bs\<close> is.
\<close>

fun le_bytes :: "nat \<Rightarrow> 'a::len word \<Rightarrow> u8 list" where
  "le_bytes 0 w = []"
| "le_bytes (Suc n) w = ucast w # le_bytes n (drop_bit 8 w)"

fun le_word :: "u8 list \<Rightarrow> 'a::len word" where
  "le_word [] = 0"
| "le_word (b # bs) = ucast b OR push_bit 8 (le_word bs)"

lemma length_le_bytes [simp, size_simps]: "length (le_bytes n w) = n"
  by (induction n arbitrary: w) simp_all

lemma le_word_le_bytes_take: "le_word (le_bytes n w) = take_bit (8 * n) w"
proof (induction n arbitrary: w)
  case 0
  then show ?case by simp
next
  case (Suc n)
  show ?case
    by (rule bit_word_eqI)
      (auto simp: Suc bit_simps not_less le_Suc_ex algebra_simps)
qed

lemma le_word_le_bytes [codec_simps]:
  fixes w :: "'a::len word"
  assumes "LENGTH('a) \<le> 8 * n"
  shows "le_word (le_bytes n w) = w"
  using assms by (simp add: le_word_le_bytes_take take_bit_word_eq_self)

lemma nth_le_bytes: "i < n \<Longrightarrow> le_bytes n w ! i = ucast (drop_bit (8 * i) w)"
proof (induction n arbitrary: w i)
  case 0
  then show ?case by simp
next
  case (Suc n)
  then show ?case by (cases i) (simp_all add: algebra_simps)
qed

lemma bit_le_word:
  "bit (le_word bs :: 'a::len word) k \<longleftrightarrow>
     k < LENGTH('a) \<and> k < 8 * length bs \<and> bit (bs ! (k div 8)) (k mod 8)"
proof (induction bs arbitrary: k)
  case Nil
  then show ?case by simp
next
  case (Cons b bs)
  show ?case
  proof (cases "k < 8")
    case True
    then show ?thesis by (auto simp: bit_simps dest: bit_imp_le_length)
  next
    case False
    then obtain m where k: "k = 8 + m" by (metis le_add_diff_inverse not_less)
    then show ?thesis
      by (auto simp: bit_simps Cons div_add_self1 dest: bit_imp_le_length)
  qed
qed

lemma le_bytes_le_word [codec_simps]:
  assumes "length bs = n" and "8 * n \<le> LENGTH('a::len)"
  shows "le_bytes n (le_word bs :: 'a word) = bs"
proof (rule nth_equalityI)
  show "length (le_bytes n (le_word bs :: 'a word)) = length bs"
    using assms by simp
  fix i
  assume "i < length (le_bytes n (le_word bs :: 'a word))"
  then have i: "i < n" by simp
  show "le_bytes n (le_word bs :: 'a word) ! i = bs ! i"
  proof (rule bit_word_eqI)
    fix k :: nat
    assume "k < LENGTH(8)"
    then have "k < 8" by simp
    then show "bit (le_bytes n (le_word bs :: 'a word) ! i) k = bit (bs ! i) k"
      using i assms by (simp add: nth_le_bytes bit_le_word bit_simps)
  qed
qed

lemma le_bytes_numeral [simp]:
  "le_bytes (numeral k) w = ucast w # le_bytes (pred_numeral k) (drop_bit 8 w)"
  by (simp add: numeral_eq_Suc)

text \<open>Single bits of the constants and shifts the byte-level code uses.\<close>

lemma bit_0x80_int: "bit (0x80 :: int) n \<longleftrightarrow> n = 7"
  using bit_exp_iff [of 7 n, where 'a = int] by (simp add: eq_commute)

lemma bit_push_1: "bit (push_bit 1 (v :: u64)) n \<longleftrightarrow> 0 < n \<and> n < 64 \<and> bit v (n - 1)"
  by (simp only: bit_push_bit_iff possible_bit_word) auto

lemma bit_drop_1: "bit (drop_bit 1 (v :: u64)) n \<longleftrightarrow> bit v (Suc n)"
  by (simp only: bit_drop_bit_eq) simp

lemma and_one_cases: "(w :: u64) AND 1 = (if bit w 0 then 1 else 0)"
  by (simp add: and_one_eq bit_0 mod_2_eq_odd)

lemma word_less_bits:
  assumes "v < 2 ^ m" and "bit (v :: 'a::len word) n"
  shows "n < m"
proof -
  have "(2 :: 'a word) ^ m = word_of_nat (2 ^ m)" by simp
  then have "unat ((2 :: 'a word) ^ m) \<le> 2 ^ m" by (simp only: unat_of_nat) simp
  with assms(1) have "unat v < 2 ^ m" by (simp add: word_less_nat_alt)
  then have "v = take_bit m v"
    by (simp add: word_unat_eq_iff unsigned_take_bit_eq take_bit_nat_eq_self)
  with assms(2) have "bit (take_bit m v) n" by simp
  then show ?thesis by (simp only: bit_take_bit_iff)
qed

lemma unat_word_of_nat:
  "n < 2 ^ LENGTH('a) \<Longrightarrow> unat (word_of_nat n :: 'a::len word) = n"
  by (simp add: unat_of_nat take_bit_nat_eq_self)

lemma unat_u64_less: "unat (w :: u64) < 2 ^ 64"
  using unsigned_less [of w, where 'a = nat] by simp

lemma unat_plus1: "(n :: u64) \<noteq> - 1 \<Longrightarrow> unat (n + 1) = unat n + 1"
proof -
  assume n: "n \<noteq> - 1"
  have "unat (- 1 :: u64) = 2 ^ 64 - 1" by (simp add: unsigned_minus_1_eq_mask mask_eq_exp_minus_1)
  with n have "unat n \<noteq> 2 ^ 64 - 1" by (metis word_unat_eq_iff)
  with unat_u64_less [of n] have "unat n + 1 < 2 ^ 64" by linarith
  then show ?thesis by (simp add: unat_word_ariths)
qed
lemma u64_less_plus1: "(n :: u64) \<noteq> - 1 \<Longrightarrow> x < n + 1 \<longleftrightarrow> x \<le> n"
  by (simp add: word_less_nat_alt word_le_nat_alt unat_plus1 less_Suc_eq_le)

lemma sint_nonneg: "unat w < 2 ^ 63 \<Longrightarrow> 0 \<le> sint (w :: u64)"
proof -
  assume "unat w < 2 ^ 63"
  then have "w < 2 ^ 63" by (simp add: word_less_nat_alt)
  then have "\<not> bit w 63" using word_less_bits [of w 63 63] by blast
  then show "0 \<le> sint w" using bit_last_iff [of w] by simp
qed

section \<open>Strings as bytes\<close>

text \<open>
  A \<open>std::string\<close> is a sequence of \<open>char\<close>, one byte each; Isabelle's \<open>char\<close> has the
  same 256 values. These are the two directions of the \<open>reinterpret_cast\<close> between them.
\<close>

definition byte_of_char :: "char \<Rightarrow> u8" where
  "byte_of_char c = word_of_nat (of_char c)"

definition char_of_byte :: "u8 \<Rightarrow> char" where
  "char_of_byte b = char_of (unat b)"

definition string_bytes :: "string \<Rightarrow> u8 list" where
  "string_bytes s = map byte_of_char s"

definition bytes_string :: "u8 list \<Rightarrow> string" where
  "bytes_string bs = map char_of_byte bs"

lemma char_of_byte_of_char [simp]: "char_of_byte (byte_of_char c) = c"
  by (simp add: char_of_byte_def byte_of_char_def unat_of_nat)

lemma byte_of_char_of_byte [simp]: "byte_of_char (char_of_byte b) = b"
proof -
  have "unat b < 256" using unsigned_less [of b] by simp
  then have "(of_char (char_of (unat b) :: char) :: nat) = unat b" by simp
  then show ?thesis by (simp add: char_of_byte_def byte_of_char_def)
qed

lemma bytes_string_string_bytes [simp, codec_simps]: "bytes_string (string_bytes s) = s"
  by (simp add: bytes_string_def string_bytes_def comp_def)

lemma string_bytes_bytes_string [simp]: "string_bytes (bytes_string bs) = bs"
  by (simp add: bytes_string_def string_bytes_def comp_def)

lemma length_string_bytes [simp, size_simps]: "length (string_bytes s) = length s"
  by (simp add: string_bytes_def)

lemma length_bytes_string [simp]: "length (bytes_string bs) = length bs"
  by (simp add: bytes_string_def)

section \<open>Sorting without duplicates\<close>

text \<open>\<open>std::sort\<close>, then \<open>erase\<close> of what \<open>std::unique\<close> moved to the end.\<close>

definition sort_unique :: "'a::linorder list \<Rightarrow> 'a list" where
  "sort_unique xs = remdups_adj (sort xs)"

lemma set_sort_unique [simp]: "set (sort_unique xs) = set xs"
  by (simp add: sort_unique_def)

lemma distinct_remdups_adj_sorted: "sorted xs \<Longrightarrow> distinct (remdups_adj xs)"
  by (induction xs rule: remdups_adj.induct) (auto simp: order.antisym)

lemma sort_unique_strict: "sorted_wrt (<) (sort_unique xs)"
  by (simp add: sort_unique_def strict_sorted_iff distinct_remdups_adj_sorted)

section \<open>Decimal numbers\<close>

text \<open>\<open>std::to_string\<close> of unsigned and signed integers, which \<open>operator<<\<close> writes too.\<close>

definition digit :: "nat \<Rightarrow> char" where
  "digit d = char_of (48 + d)"

fun nat_string :: "nat \<Rightarrow> string" where
  "nat_string n =
     (if n < 10 then [digit n] else nat_string (n div 10) @ [digit (n mod 10)])"

declare nat_string.simps [simp del]

definition u64_string :: "u64 \<Rightarrow> string" where
  "u64_string w = nat_string (unat w)"

definition i64_string :: "i64 \<Rightarrow> string" where
  "i64_string w = (if sint w < 0 then CHR ''-'' # nat_string (nat (- sint w)) else nat_string (nat (sint w)))"

text \<open>The value of a list of digits, most significant first.\<close>

definition digits_value :: "string \<Rightarrow> nat" where
  "digits_value s = foldl (\<lambda>v c. 10 * v + (of_char c - 48)) 0 s"

lemma of_char_digit: "d < 10 \<Longrightarrow> (of_char (digit d) :: nat) = 48 + d"
  by (simp add: digit_def)

lemma digits_value_nat_string [simp]: "digits_value (nat_string n) = n"
proof (induction n rule: nat_string.induct)
  case (1 n)
  then show ?case
    by (subst nat_string.simps) (simp add: digits_value_def of_char_digit)
qed

lemma nat_string_inj [simp]: "nat_string m = nat_string n \<longleftrightarrow> m = n"
  by (metis digits_value_nat_string)

lemma u64_string_inj [simp]: "u64_string v = u64_string w \<longleftrightarrow> v = w"
  by (simp add: u64_string_def word_unat_eq_iff)

end
