(* ===== verification/VarInt.thy ===== *)
theory VarInt
  imports LorePrelude
begin

text \<open>
  \<open>util/varint.h\<close> and \<open>util/varint.cpp\<close>: the base-128 variable-length encoding of
  unsigned 64-bit integers (least significant group first, the top bit of a byte says that
  another byte follows) and the ZigZag mapping of signed integers. \<open>VarInt::encode\<close> writes
  into a caller's buffer of fixed size; \<open>VarInt::decode\<close> consumes a prefix of a span.
\<close>

section \<open>The code\<close>

definition MAX_ENCODED_SIZE :: nat where
  "MAX_ENCODED_SIZE = 10"

text \<open>The \<open>while\<close> loop of \<open>VarInt::encode\<close>: the remaining value, the position, the buffer.\<close>

function VarInt_encode_loop :: "u64 \<Rightarrow> nat \<Rightarrow> u8 list \<Rightarrow> u64 \<times> nat \<times> u8 list" where
  "VarInt_encode_loop value pos buffer =
     (if 0x80 \<le> value \<and> pos < length buffer
      then VarInt_encode_loop (drop_bit 7 value) (Suc pos)
             (buffer[pos := ucast (value OR 0x80)])
      else (value, pos, buffer))"
  by pat_completeness auto
termination
  by (relation "measure (\<lambda>(value, pos, buffer). length buffer - pos)") auto

declare VarInt_encode_loop.simps [simp del]

text \<open>The returned \<open>size_t\<close> (0: buffer too small) and the buffer after the call.\<close>

definition VarInt_encode :: "u64 \<Rightarrow> u8 list \<Rightarrow> nat \<times> u8 list" where
  "VarInt_encode value buffer =
     (case VarInt_encode_loop value 0 buffer of (value', pos, buffer') \<Rightarrow>
        if pos < length buffer'
        then (Suc pos, buffer'[pos := ucast value'])
        else (0, buffer'))"

text \<open>
  The \<open>for\<close> loop of \<open>VarInt::decode\<close>; on success the value and the rest of the span.
  The shift is a \<open>uint8_t\<close>.
\<close>

fun VarInt_decode_loop :: "u8 list \<Rightarrow> u8 \<Rightarrow> u64 \<Rightarrow> (u64 \<times> u8 list) result" where
  "VarInt_decode_loop [] shift res = Inl (Error CORRUPTION ''Incomplete VarInt'')"
| "VarInt_decode_loop (byte # data) shift res =
     (if 64 \<le> shift then Inl (Error CORRUPTION ''VarInt too long'')
      else
        let res' = res OR push_bit (unat shift) (ucast (byte AND 0x7F))
        in if byte AND 0x80 = 0 then Inr (res', data)
           else VarInt_decode_loop data (shift + 7) res')"

definition VarInt_decode :: "u8 list \<Rightarrow> (u64 \<times> u8 list) result" where
  "VarInt_decode data = VarInt_decode_loop data 0 0"

lemma unat_drop7: "unat (drop_bit 7 (v :: u64)) = unat v div 128"
  by (simp only: unat_drop_bit_eq) (simp add: drop_bit_eq_div)

function VarInt_encoded_size_loop :: "u64 \<Rightarrow> nat \<Rightarrow> nat" where
  "VarInt_encoded_size_loop value n =
     (if 0x80 \<le> value then VarInt_encoded_size_loop (drop_bit 7 value) (Suc n) else n)"
  by pat_completeness auto
termination
proof (relation "measure (\<lambda>(value, n). unat value)", goal_cases)
  case (2 v n)
  then have "(0x80 :: u64) \<le> v" by simp
  then have "0 < unat v" by (simp add: word_le_nat_alt)
  then show ?case by (simp add: unat_drop7)
qed simp

declare VarInt_encoded_size_loop.simps [simp del]

definition VarInt_encoded_size :: "u64 \<Rightarrow> nat" where
  "VarInt_encoded_size value = VarInt_encoded_size_loop value 1"

definition ZigZag_encode :: "i64 \<Rightarrow> u64" where
  "ZigZag_encode value = push_bit 1 value XOR signed_drop_bit 63 value"

definition ZigZag_decode :: "u64 \<Rightarrow> i64" where
  "ZigZag_decode value = drop_bit 1 value XOR - (value AND 1)"

section \<open>The format\<close>

text \<open>The encoding as a function of the value alone, without a buffer.\<close>

function varint_bytes :: "u64 \<Rightarrow> u8 list" where
  "varint_bytes v =
     (if 0x80 \<le> v then ucast (v OR 0x80) # varint_bytes (drop_bit 7 v) else [ucast v])"
  by pat_completeness auto
termination
proof (relation "measure unat", goal_cases)
  case (2 v)
  then have "0 < unat v" by (simp add: word_le_nat_alt)
  then show ?case by (simp add: unat_drop7)
qed simp

declare varint_bytes.simps [simp del]

lemma varint_bytes_small: "v < 0x80 \<Longrightarrow> varint_bytes v = [ucast v]"
  by (subst varint_bytes.simps) (simp add: not_le [symmetric])

lemma varint_bytes_large:
  "0x80 \<le> v \<Longrightarrow> varint_bytes v = ucast (v OR 0x80) # varint_bytes (drop_bit 7 v)"
  by (subst varint_bytes.simps) simp

lemma varint_bytes_not_Nil [simp]: "varint_bytes v \<noteq> []"
  by (subst varint_bytes.simps) simp

lemma le_0x80_unat: "0x80 \<le> (v :: u64) \<longleftrightarrow> 128 \<le> unat v"
  by (simp add: word_le_nat_alt)

text \<open>The length is the least one that holds the value's bits in groups of seven.\<close>

lemma varint_bytes_length_bounds:
  "unat v < 2 ^ (7 * length (varint_bytes v)) \<and>
   (1 < length (varint_bytes v) \<longrightarrow> 2 ^ (7 * (length (varint_bytes v) - 1)) \<le> unat v)"
proof (induction v rule: varint_bytes.induct)
  case (1 v)
  show ?case
  proof (cases "0x80 \<le> v")
    case False
    then show ?thesis
      by (simp add: varint_bytes_small not_le word_less_nat_alt)
  next
    case True
    let ?n = "length (varint_bytes (drop_bit 7 v))"
    have len: "length (varint_bytes v) = Suc ?n" using True by (simp add: varint_bytes_large)
    have IH: "unat v div 128 < 2 ^ (7 * ?n)" "1 < ?n \<Longrightarrow> 2 ^ (7 * (?n - 1)) \<le> unat v div 128"
      using 1 [OF True] by (simp_all add: unat_drop7)
    have up: "unat v < 2 ^ (7 * Suc ?n)"
      using IH(1) by (simp add: power_add div_less_iff_less_mult algebra_simps)
    have n: "0 < ?n" by simp
    have low: "2 ^ (7 * ?n) \<le> unat v"
    proof (cases "?n = 1")
      case True
      then show ?thesis using \<open>0x80 \<le> v\<close> by (simp add: le_0x80_unat)
    next
      case False
      with n have "1 < ?n" by linarith
      then have "2 ^ (7 * (?n - 1)) * 128 \<le> unat v"
        using IH(2) by (simp add: less_eq_div_iff_mult_less_eq)
      moreover have "(2::nat) ^ (7 * ?n) = 2 ^ (7 * (?n - 1)) * 128"
        using n by (cases ?n) (simp_all add: power_add)
      ultimately show ?thesis by simp
    qed
    from up low len show ?thesis by simp
  qed
qed

lemma varint_bytes_length_le_10: "length (varint_bytes v) \<le> 10"
proof (rule ccontr)
  assume "\<not> ?thesis"
  then have "10 \<le> length (varint_bytes v) - 1" and gt: "1 < length (varint_bytes v)" by auto
  then have "(2::nat) ^ 70 \<le> 2 ^ (7 * (length (varint_bytes v) - 1))"
    by (intro power_increasing) auto
  also have "\<dots> \<le> unat v" using varint_bytes_length_bounds [of v] gt by simp
  also have "\<dots> < 2 ^ 64" using unsigned_less [of v] by simp
  finally show False by simp
qed

section \<open>Encoding into a buffer\<close>

lemma VarInt_encode_loop_fits:
  assumes "pos + length (varint_bytes v) \<le> length buffer"
  shows "case VarInt_encode_loop v pos buffer of (v', pos', b) \<Rightarrow>
           pos' < length b \<and> Suc pos' = pos + length (varint_bytes v) \<and>
           b[pos' := ucast v'] =
             take pos buffer @ varint_bytes v @ drop (pos + length (varint_bytes v)) buffer"
  using assms
proof (induction v pos buffer rule: VarInt_encode_loop.induct)
  case (1 v pos buffer)
  show ?case
  proof (cases "0x80 \<le> v")
    case False
    then show ?thesis
      using 1(2)
      by (simp add: VarInt_encode_loop.simps [of v pos buffer] varint_bytes_small
          upd_conv_take_nth_drop)
  next
    case True
    let ?b = "buffer[pos := ucast (v OR 0x80)]"
    have fit: "Suc pos + length (varint_bytes (drop_bit 7 v)) \<le> length ?b"
      using 1(2) True by (simp add: varint_bytes_large)
    then have pos: "pos < length buffer" by simp
    have "take (Suc pos) ?b = take pos buffer @ [ucast (v OR 0x80)]"
      using pos by (simp add: take_Suc_conv_app_nth)
    with 1(1) [OF _ fit] True pos show ?thesis
      by (simp add: VarInt_encode_loop.simps [of v pos buffer] varint_bytes_large
          split: prod.splits)
  qed
qed

lemma VarInt_encode_loop_full:
  assumes "length buffer < pos + length (varint_bytes v)" and "pos \<le> length buffer"
  shows "fst (snd (VarInt_encode_loop v pos buffer)) = length buffer \<and>
         length (snd (snd (VarInt_encode_loop v pos buffer))) = length buffer"
  using assms
proof (induction v pos buffer rule: VarInt_encode_loop.induct)
  case (1 v pos buffer)
  show ?case
  proof (cases "0x80 \<le> v \<and> pos < length buffer")
    case True
    then show ?thesis
      using 1 by (simp add: VarInt_encode_loop.simps [of v pos buffer] varint_bytes_large)
  next
    case False
    have stop: "VarInt_encode_loop v pos buffer = (v, pos, buffer)"
      by (subst VarInt_encode_loop.simps) (simp only: False if_False)
    show ?thesis
      unfolding stop using 1(2,3) False
      by (cases "0x80 \<le> v") (auto simp: varint_bytes_small not_le)
  qed
qed

lemma VarInt_encode_fits:
  assumes "length (varint_bytes v) \<le> length buffer"
  shows "VarInt_encode v buffer =
           (length (varint_bytes v), varint_bytes v @ drop (length (varint_bytes v)) buffer)"
  using VarInt_encode_loop_fits [of 0 v buffer] assms
  by (auto simp: VarInt_encode_def split: prod.splits)

lemma VarInt_encode_too_small:
  assumes "length buffer < length (varint_bytes v)"
  shows "fst (VarInt_encode v buffer) = 0"
  using VarInt_encode_loop_full [of buffer 0 v] assms
  by (auto simp: VarInt_encode_def split: prod.splits)

section \<open>Decoding\<close>

lemma decode_byte_more:
  "(ucast (v OR 0x80 :: u64) :: u8) AND 0x80 \<noteq> 0"
  "ucast ((ucast (v OR 0x80 :: u64) :: u8) AND 0x7F) = take_bit 7 v"
proof -
  have "bit ((ucast (v OR 0x80) :: u8) AND 0x80) 7"
    by (simp add: bit_simps bit_0x80_int)
  then show "(ucast (v OR 0x80 :: u64) :: u8) AND 0x80 \<noteq> 0" by auto
  have m: "(0x7F :: u8) = mask 7" by (simp_all add: mask_eq_exp_minus_1)
  show "ucast ((ucast (v OR 0x80 :: u64) :: u8) AND 0x7F) = take_bit 7 v"
    unfolding m by (intro bit_word_eqI) (auto simp: bit_simps bit_0x80_int)
qed

lemma decode_byte_last:
  assumes "v < (0x80 :: u64)"
  shows "(ucast v :: u8) AND 0x80 = 0" "ucast ((ucast v :: u8) AND 0x7F) = v"
proof -
  have b: "bit v n \<Longrightarrow> n < 7" for n
    using word_less_bits [of v 7 n] assms by simp
  have m: "(0x7F :: u8) = mask 7" by (simp add: mask_eq_exp_minus_1)
  show "(ucast v :: u8) AND 0x80 = 0"
    by (intro bit_word_eqI) (auto simp: bit_simps bit_0x80_int dest: b)
  show "ucast ((ucast v :: u8) AND 0x7F) = v"
    unfolding m by (intro bit_word_eqI) (auto simp: bit_simps dest: b)
qed

lemma push_bit_split7:
  "push_bit s (take_bit 7 v) OR push_bit (s + 7) (drop_bit 7 v) = push_bit s (v :: u64)"
proof (rule bit_word_eqI)
  fix n :: nat
  show "bit (push_bit s (take_bit 7 v) OR push_bit (s + 7) (drop_bit 7 v)) n = bit (push_bit s v) n"
  proof (cases "s + 7 \<le> n")
    case True
    then have "7 + (n - (s + 7)) = n - s" by simp
    with True show ?thesis by (auto simp: bit_simps)
  qed (auto simp: bit_simps)
qed

lemma shift_less_64: "s < 64 \<Longrightarrow> unat (of_nat s :: u8) = s \<and> \<not> 64 \<le> (of_nat s :: u8)"
  by (simp add: unat_of_nat word_le_nat_alt)

lemma VarInt_decode_loop_encoded:
  assumes "unat v * 2 ^ s < 2 ^ 64" and "s < 64"
  shows "VarInt_decode_loop (varint_bytes v @ rest) (of_nat s) res =
           Inr (res OR push_bit s v, rest)"
  using assms
proof (induction v arbitrary: s res rule: varint_bytes.induct)
  case (1 v)
  note s = shift_less_64 [OF 1(3)]
  show ?case
  proof (cases "0x80 \<le> v")
    case False
    then show ?thesis
      using s decode_byte_last [of v] by (simp add: varint_bytes_small not_le)
  next
    case True
    then have v: "128 \<le> unat v" by (simp add: le_0x80_unat)
    have "(2::nat) ^ (s + 7) = 128 * 2 ^ s" by (simp add: power_add)
    also have "\<dots> \<le> unat v * 2 ^ s" using v by simp
    also have "\<dots> < 2 ^ 64" by (rule 1(2))
    finally have "s + 7 < 64" by (rule power_less_imp_less_exp [rotated]) simp
    moreover have "unat (drop_bit 7 v) * 2 ^ (s + 7) < 2 ^ 64"
    proof -
      have "unat v div 128 * 2 ^ (s + 7) = (unat v div 128 * 128) * 2 ^ s"
        by (simp add: power_add)
      also have "\<dots> \<le> unat v * 2 ^ s" by (intro mult_right_mono) auto
      finally show ?thesis using 1(2) by (simp add: unat_drop7)
    qed
    ultimately have "VarInt_decode_loop (varint_bytes (drop_bit 7 v) @ rest) (of_nat (s + 7))
        (res OR push_bit s (take_bit 7 v)) = Inr (res OR push_bit s v, rest)"
      using 1(1) [OF True, of "s + 7" "res OR push_bit s (take_bit 7 v)"]
      by (simp only: or.assoc push_bit_split7)
    then show ?thesis
      using True s decode_byte_more [of v]
      by (simp add: varint_bytes_large add.commute)
  qed
qed

lemma VarInt_decode_encoded [codec_simps]: "VarInt_decode (varint_bytes v @ rest) = Inr (v, rest)"
  using VarInt_decode_loop_encoded [of v 0 rest 0] unsigned_less [of v]
  by (simp add: VarInt_decode_def)

text \<open>A decoder that succeeds consumes between one and ten bytes and returns the rest.\<close>

lemma VarInt_decode_loop_consumes:
  assumes "VarInt_decode_loop data (of_nat (7 * k)) res = Inr (v, rest)" and "k \<le> 10"
  shows "\<exists>used. data = used @ rest \<and> 0 < length used \<and> k + length used \<le> 10"
  using assms
proof (induction data arbitrary: k res)
  case Nil
  then show ?case by simp
next
  case (Cons b data)
  have "unat (of_nat (7 * k) :: u8) = 7 * k"
    using Cons.prems(2) by (simp add: unat_of_nat del: of_nat_mult)
  then have k: "k < 10" using Cons.prems by (cases "k = 10") (auto simp: word_le_nat_alt)
  have step: "(of_nat (7 * k) + 7 :: u8) = of_nat (7 * Suc k)" by simp
  show ?case
  proof (cases "b AND 0x80 = 0")
    case True
    with Cons.prems k show ?thesis
      by (intro exI [of _ "[b]"]) (auto simp: Let_def split: if_splits)
  next
    case False
    with Cons.prems obtain r where
      "VarInt_decode_loop data (of_nat (7 * Suc k)) r = Inr (v, rest)"
      unfolding step [symmetric] by (auto simp: Let_def split: if_splits)
    from Cons.IH [OF this] k obtain used where
      "data = used @ rest" "0 < length used" "Suc k + length used \<le> 10" by auto
    then show ?thesis by (intro exI [of _ "b # used"]) auto
  qed
qed

lemma VarInt_decode_consumes:
  assumes "VarInt_decode data = Inr (v, rest)"
  shows "\<exists>used. data = used @ rest \<and> 0 < length used \<and> length used \<le> MAX_ENCODED_SIZE"
  using VarInt_decode_loop_consumes [of data 0 0 v rest] assms
  by (simp add: VarInt_decode_def MAX_ENCODED_SIZE_def)

lemma VarInt_encoded_size_loop_eq:
  "VarInt_encoded_size_loop v (Suc n) = n + length (varint_bytes v)"
proof (induction v arbitrary: n rule: varint_bytes.induct)
  case (1 v)
  show ?case
  proof (cases "0x80 \<le> v")
    case True
    then show ?thesis
      using 1 by (simp add: VarInt_encoded_size_loop.simps [of v] varint_bytes_large)
  next
    case False
    have "VarInt_encoded_size_loop v (Suc n) = Suc n"
      by (subst VarInt_encoded_size_loop.simps) (simp only: False if_False)
    with False show ?thesis by (simp add: varint_bytes_small not_le)
  qed
qed

lemma VarInt_encoded_size_eq: "VarInt_encoded_size v = length (varint_bytes v)"
  using VarInt_encoded_size_loop_eq [of v 0] by (simp add: VarInt_encoded_size_def)

section \<open>ZigZag\<close>

lemma signed_drop_bit_63: "signed_drop_bit 63 (v :: i64) = (if bit v 63 then - 1 else 0)"
proof (rule bit_word_eqI)
  fix n :: nat
  assume "n < LENGTH(64)"
  then show "bit (signed_drop_bit 63 v) n = bit (if bit v 63 then - 1 else 0 :: i64) n"
    by (cases n) (auto simp: bit_simps)
qed

lemma bit_ZigZag_encode:
  "bit (ZigZag_encode v) n \<longleftrightarrow> n < 64 \<and> ((0 < n \<and> bit v (n - 1)) \<noteq> bit v 63)"
  unfolding ZigZag_encode_def signed_drop_bit_63 bit_xor_iff bit_push_1 by auto

lemma bit_ZigZag_decode:
  "bit (ZigZag_decode w) n \<longleftrightarrow> n < 64 \<and> (bit w (Suc n) \<noteq> bit w 0)"
proof -
  have "bit (- (w AND 1)) n \<longleftrightarrow> n < 64 \<and> bit w 0"
    by (simp add: and_one_cases)
  then show ?thesis
    using bit_imp_le_length [of w "Suc n"]
    unfolding ZigZag_decode_def bit_xor_iff bit_drop_1 by auto
qed

lemma ZigZag_decode_encode [simp, codec_simps]: "ZigZag_decode (ZigZag_encode v) = v"
proof (rule bit_word_eqI)
  fix n :: nat
  assume "n < LENGTH(64)"
  then have "n = 63 \<or> n < 63" by auto
  then show "bit (ZigZag_decode (ZigZag_encode v)) n = bit v n"
    by (auto simp: bit_ZigZag_decode bit_ZigZag_encode)
qed

lemma ZigZag_encode_decode [simp]: "ZigZag_encode (ZigZag_decode w) = w"
proof (rule bit_word_eqI)
  fix n :: nat
  assume "n < LENGTH(64)"
  moreover have "\<not> bit w 64" by (auto dest: bit_imp_le_length)
  ultimately show "bit (ZigZag_encode (ZigZag_decode w)) n = bit w n"
    by (cases n) (auto simp: bit_ZigZag_decode bit_ZigZag_encode)
qed

text \<open>Numbers of small magnitude, of either sign, get small codes.\<close>

lemma bit_63_sint: "bit (v :: i64) 63 \<longleftrightarrow> sint v < 0"
  using bit_last_iff [of v] by simp

lemma ZigZag_encode_cases:
  "ZigZag_encode v = (if 0 \<le> sint v then word_of_int (2 * sint v) else word_of_int (- 2 * sint v - 1))"
proof -
  have dbl: "push_bit 1 v = word_of_int (2 * sint v)"
    by (simp add: push_bit_eq_mult mult.commute)
  have neg: "push_bit 1 v XOR - 1 = - (push_bit 1 v) - 1"
    by (simp add: not_eq_complement)
  show ?thesis
    using neg unfolding ZigZag_encode_def signed_drop_bit_63 bit_63_sint dbl by simp
qed

lemma unat_ZigZag_encode:
  "int (unat (ZigZag_encode v)) = (if 0 \<le> sint v then 2 * sint v else - 2 * sint v - 1)"
proof -
  let ?k = "if 0 \<le> sint v then 2 * sint v else - 2 * sint v - 1"
  have "- (2 ^ 63) \<le> sint v" "sint v < 2 ^ 63"
    using sint_greater_eq [of v] sint_less [of v] by simp_all
  then have "0 \<le> ?k" "?k < 2 ^ 64" by simp_all
  then have "uint (word_of_int ?k :: u64) = ?k"
    by (simp only: uint_word_of_int_eq) (simp add: take_bit_int_eq_self)
  moreover have "ZigZag_encode v = word_of_int ?k"
    by (simp only: ZigZag_encode_cases if_distrib [of word_of_int])
  ultimately show ?thesis by simp
qed

section \<open>The properties of the encoding\<close>

text \<open>
  C37. A buffer of \<open>MAX_ENCODED_SIZE\<close> bytes always suffices: \<open>VarInt::encode\<close> writes exactly
  \<open>VarInt::encoded_size\<close> bytes, leaves the rest of the buffer alone, and \<open>VarInt::decode\<close>
  of those bytes followed by anything returns the value and advances the span past them.
\<close>

theorem VarInt_roundtrip:
  assumes "MAX_ENCODED_SIZE \<le> length buffer"
  shows "case VarInt_encode v buffer of (n, buffer') \<Rightarrow>
           0 < n \<and> n \<le> MAX_ENCODED_SIZE \<and> n = VarInt_encoded_size v \<and>
           length buffer' = length buffer \<and> drop n buffer' = drop n buffer \<and>
           VarInt_decode (take n buffer' @ rest) = Inr (v, rest)"
  using assms varint_bytes_length_le_10 [of v]
  by (simp add: VarInt_encode_fits VarInt_encoded_size_eq VarInt_decode_encoded MAX_ENCODED_SIZE_def)

lemma VarInt_roundtrip_witness:
  "case VarInt_encode 300 (replicate 12 7) of (n, buffer') \<Rightarrow>
     0 < n \<and> n \<le> MAX_ENCODED_SIZE \<and> n = VarInt_encoded_size 300 \<and>
     length buffer' = length (replicate 12 (7 :: u8)) \<and>
     drop n buffer' = drop n (replicate 12 7) \<and>
     VarInt_decode (take n buffer' @ [9]) = Inr (300, [9])"
  by (rule VarInt_roundtrip) (simp add: MAX_ENCODED_SIZE_def)

text \<open>
  The size is minimal and bounds the value: \<open>n\<close> bytes are used exactly for the values
  below \<open>2 ^ (7 * n)\<close> that do not fit in \<open>n - 1\<close> bytes, and a buffer that is shorter
  than that is refused with 0.
\<close>

theorem VarInt_size_optimal:
  "(VarInt_encoded_size v \<le> n \<longleftrightarrow> 0 < n \<and> unat v < 2 ^ (7 * n)) \<and>
   (fst (VarInt_encode v buffer) = 0 \<longleftrightarrow> length buffer < VarInt_encoded_size v)"
proof
  let ?m = "length (varint_bytes v)"
  have m: "0 < ?m" by simp
  show "VarInt_encoded_size v \<le> n \<longleftrightarrow> 0 < n \<and> unat v < 2 ^ (7 * n)"
  proof
    assume "VarInt_encoded_size v \<le> n"
    then have mn: "?m \<le> n" by (simp add: VarInt_encoded_size_eq)
    then have "(2 :: nat) ^ (7 * ?m) \<le> 2 ^ (7 * n)" by (intro power_increasing) simp_all
    with varint_bytes_length_bounds [of v] mn m show "0 < n \<and> unat v < 2 ^ (7 * n)"
      by linarith
  next
    assume n: "0 < n \<and> unat v < 2 ^ (7 * n)"
    show "VarInt_encoded_size v \<le> n"
    proof (rule ccontr)
      assume "\<not> VarInt_encoded_size v \<le> n"
      then have less: "n \<le> ?m - 1" "1 < ?m" using n by (simp_all add: VarInt_encoded_size_eq)
      then have "(2 :: nat) ^ (7 * n) \<le> 2 ^ (7 * (?m - 1))" by (intro power_increasing) simp_all
      with varint_bytes_length_bounds [of v] less(2) n show False by linarith
    qed
  qed
  show "fst (VarInt_encode v buffer) = 0 \<longleftrightarrow> length buffer < VarInt_encoded_size v"
    using m VarInt_encode_too_small [of buffer v] VarInt_encode_fits [of v buffer]
    by (cases "length buffer < ?m") (simp_all add: VarInt_encoded_size_eq del: length_greater_0_conv)
qed

text \<open>
  ZigZag is a bijection of the signed onto the unsigned 64-bit integers that sends a
  number of magnitude \<open>m\<close> to \<open>2 * m\<close> or \<open>2 * m - 1\<close>, the most negative one included.
\<close>

theorem ZigZag_bijection:
  "ZigZag_decode (ZigZag_encode x) = x \<and> ZigZag_encode (ZigZag_decode w) = w \<and>
   int (unat (ZigZag_encode x)) = (if 0 \<le> sint x then 2 * sint x else - 2 * sint x - 1)"
  by (intro conjI ZigZag_decode_encode ZigZag_encode_decode unat_ZigZag_encode)

end
