(* ===== verification/Crc32.thy ===== *)
theory Crc32
  imports LorePrelude
begin

text \<open>
  \<open>util/crc32.h\<close> and \<open>util/crc32.cpp\<close>: the table-driven CRC-32 that the page store
  writes into every page header. The specification is the bit-serial shift register with the
  reflected polynomial \<open>0xEDB88320\<close>; the table entries, the loop and the streaming
  interface are proved against it, and so is what the checksum detects.
\<close>

section \<open>The code\<close>

definition CRC_TABLE :: "u32 list" where
  "CRC_TABLE =
    [0x00000000, 0x77073096, 0xee0e612c, 0x990951ba, 0x076dc419, 0x706af48f,
     0xe963a535, 0x9e6495a3, 0x0edb8832, 0x79dcb8a4, 0xe0d5e91e, 0x97d2d988,
     0x09b64c2b, 0x7eb17cbd, 0xe7b82d07, 0x90bf1d91, 0x1db71064, 0x6ab020f2,
     0xf3b97148, 0x84be41de, 0x1adad47d, 0x6ddde4eb, 0xf4d4b551, 0x83d385c7,
     0x136c9856, 0x646ba8c0, 0xfd62f97a, 0x8a65c9ec, 0x14015c4f, 0x63066cd9,
     0xfa0f3d63, 0x8d080df5, 0x3b6e20c8, 0x4c69105e, 0xd56041e4, 0xa2677172,
     0x3c03e4d1, 0x4b04d447, 0xd20d85fd, 0xa50ab56b, 0x35b5a8fa, 0x42b2986c,
     0xdbbbc9d6, 0xacbcf940, 0x32d86ce3, 0x45df5c75, 0xdcd60dcf, 0xabd13d59,
     0x26d930ac, 0x51de003a, 0xc8d75180, 0xbfd06116, 0x21b4f4b5, 0x56b3c423,
     0xcfba9599, 0xb8bda50f, 0x2802b89e, 0x5f058808, 0xc60cd9b2, 0xb10be924,
     0x2f6f7c87, 0x58684c11, 0xc1611dab, 0xb6662d3d, 0x76dc4190, 0x01db7106,
     0x98d220bc, 0xefd5102a, 0x71b18589, 0x06b6b51f, 0x9fbfe4a5, 0xe8b8d433,
     0x7807c9a2, 0x0f00f934, 0x9609a88e, 0xe10e9818, 0x7f6a0dbb, 0x086d3d2d,
     0x91646c97, 0xe6635c01, 0x6b6b51f4, 0x1c6c6162, 0x856530d8, 0xf262004e,
     0x6c0695ed, 0x1b01a57b, 0x8208f4c1, 0xf50fc457, 0x65b0d9c6, 0x12b7e950,
     0x8bbeb8ea, 0xfcb9887c, 0x62dd1ddf, 0x15da2d49, 0x8cd37cf3, 0xfbd44c65,
     0x4db26158, 0x3ab551ce, 0xa3bc0074, 0xd4bb30e2, 0x4adfa541, 0x3dd895d7,
     0xa4d1c46d, 0xd3d6f4fb, 0x4369e96a, 0x346ed9fc, 0xad678846, 0xda60b8d0,
     0x44042d73, 0x33031de5, 0xaa0a4c5f, 0xdd0d7cc9, 0x5005713c, 0x270241aa,
     0xbe0b1010, 0xc90c2086, 0x5768b525, 0x206f85b3, 0xb966d409, 0xce61e49f,
     0x5edef90e, 0x29d9c998, 0xb0d09822, 0xc7d7a8b4, 0x59b33d17, 0x2eb40d81,
     0xb7bd5c3b, 0xc0ba6cad, 0xedb88320, 0x9abfb3b6, 0x03b6e20c, 0x74b1d29a,
     0xead54739, 0x9dd277af, 0x04db2615, 0x73dc1683, 0xe3630b12, 0x94643b84,
     0x0d6d6a3e, 0x7a6a5aa8, 0xe40ecf0b, 0x9309ff9d, 0x0a00ae27, 0x7d079eb1,
     0xf00f9344, 0x8708a3d2, 0x1e01f268, 0x6906c2fe, 0xf762575d, 0x806567cb,
     0x196c3671, 0x6e6b06e7, 0xfed41b76, 0x89d32be0, 0x10da7a5a, 0x67dd4acc,
     0xf9b9df6f, 0x8ebeeff9, 0x17b7be43, 0x60b08ed5, 0xd6d6a3e8, 0xa1d1937e,
     0x38d8c2c4, 0x4fdff252, 0xd1bb67f1, 0xa6bc5767, 0x3fb506dd, 0x48b2364b,
     0xd80d2bda, 0xaf0a1b4c, 0x36034af6, 0x41047a60, 0xdf60efc3, 0xa867df55,
     0x316e8eef, 0x4669be79, 0xcb61b38c, 0xbc66831a, 0x256fd2a0, 0x5268e236,
     0xcc0c7795, 0xbb0b4703, 0x220216b9, 0x5505262f, 0xc5ba3bbe, 0xb2bd0b28,
     0x2bb45a92, 0x5cb36a04, 0xc2d7ffa7, 0xb5d0cf31, 0x2cd99e8b, 0x5bdeae1d,
     0x9b64c2b0, 0xec63f226, 0x756aa39c, 0x026d930a, 0x9c0906a9, 0xeb0e363f,
     0x72076785, 0x05005713, 0x95bf4a82, 0xe2b87a14, 0x7bb12bae, 0x0cb61b38,
     0x92d28e9b, 0xe5d5be0d, 0x7cdcefb7, 0x0bdbdf21, 0x86d3d2d4, 0xf1d4e242,
     0x68ddb3f8, 0x1fda836e, 0x81be16cd, 0xf6b9265b, 0x6fb077e1, 0x18b74777,
     0x88085ae6, 0xff0f6a70, 0x66063bca, 0x11010b5c, 0x8f659eff, 0xf862ae69,
     0x616bffd3, 0x166ccf45, 0xa00ae278, 0xd70dd2ee, 0x4e048354, 0x3903b3c2,
     0xa7672661, 0xd06016f7, 0x4969474d, 0x3e6e77db, 0xaed16a4a, 0xd9d65adc,
     0x40df0b66, 0x37d83bf0, 0xa9bcae53, 0xdebb9ec5, 0x47b2cf7f, 0x30b5ffe9,
     0xbdbdf21c, 0xcabac28a, 0x53b39330, 0x24b4a3a6, 0xbad03605, 0xcdd70693,
     0x54de5729, 0x23d967bf, 0xb3667a2e, 0xc4614ab8, 0x5d681b02, 0x2a6f2b94,
     0xb40bbe37, 0xc30c8ea1, 0x5a05df1b, 0x2d02ef8d]"

fun CRC32_update :: "u32 \<Rightarrow> u8 list \<Rightarrow> u32" where
  "CRC32_update crc [] = crc"
| "CRC32_update crc (byte # data) =
     CRC32_update
       (CRC_TABLE ! unat ((crc XOR ucast byte) AND 0xFF) XOR drop_bit 8 crc) data"

definition CRC32_finalize :: "u32 \<Rightarrow> u32" where
  "CRC32_finalize crc = crc XOR 0xFFFFFFFF"

definition CRC32_calculate_from :: "u8 list \<Rightarrow> u32 \<Rightarrow> u32" where
  "CRC32_calculate_from data initial_crc = CRC32_finalize (CRC32_update initial_crc data)"

definition CRC32_calculate :: "u8 list \<Rightarrow> u32" where
  "CRC32_calculate data = CRC32_finalize (CRC32_update 0xFFFFFFFF data)"

section \<open>The shift register\<close>

text \<open>One clock of the register, and the eight clocks that take in one byte.\<close>

definition crc_bit :: "u32 \<Rightarrow> u32" where
  "crc_bit c = (if bit c 0 then drop_bit 1 c XOR 0xEDB88320 else drop_bit 1 c)"

definition crc_byte :: "u32 \<Rightarrow> u8 \<Rightarrow> u32" where
  "crc_byte c b = (crc_bit ^^ 8) (c XOR ucast b)"

lemma length_CRC_TABLE: "length CRC_TABLE = 256"
  by (simp add: CRC_TABLE_def)

section \<open>The table\<close>

lemma crc_bit_xor: "crc_bit (x XOR y) = crc_bit x XOR crc_bit y"
  by (rule bit_word_eqI) (auto simp: crc_bit_def bit_simps)

lemma crc_bits_xor: "(crc_bit ^^ n) (x XOR y) = (crc_bit ^^ n) x XOR (crc_bit ^^ n) y"
  by (induction n) (simp_all add: crc_bit_xor)

lemma funpow_8: "(f ^^ 8) x = f (f (f (f (f (f (f (f x)))))))"
  by (simp add: eval_nat_numeral)

text \<open>
  The 256 precomputed entries are the register's response to each byte. The response is
  linear over \<open>XOR\<close>, so the table doubles: entry \<open>2 ^ k + i\<close> is entry \<open>2 ^ k\<close> combined
  with entry \<open>i\<close>.
\<close>

definition crc_double :: "u32 \<Rightarrow> u32 list \<Rightarrow> u32 list" where
  "crc_double c ts = ts @ map (\<lambda>t. (crc_bit ^^ 8) c XOR t) ts"

definition crc_table_upto :: "nat \<Rightarrow> u32 list \<Rightarrow> bool" where
  "crc_table_upto k ts \<longleftrightarrow>
     length ts = 2 ^ k \<and> (\<forall>j < 2 ^ k. ts ! j = (crc_bit ^^ 8) (word_of_nat j))"

lemma of_nat_add_xor: "i < 2 ^ k \<Longrightarrow> (word_of_nat (2 ^ k + i) :: u32) = word_of_nat (2 ^ k) XOR word_of_nat i"
proof -
  assume i: "i < 2 ^ k"
  have "(2 ^ k :: nat) AND i = 0"
  proof (rule bit_eqI)
    fix n
    from i have "i = take_bit k i" by (simp add: take_bit_nat_eq_self)
    then have "bit i n \<Longrightarrow> n < k" by (metis bit_take_bit_iff)
    then show "bit ((2 ^ k :: nat) AND i) n = bit (0 :: nat) n"
      by (auto simp: bit_and_iff bit_exp_iff)
  qed
  then have "2 ^ k + i = (2 ^ k :: nat) XOR i" by (rule disjunctive_add_eq_xor)
  then show ?thesis by (simp only: of_nat_xor_eq)
qed

lemma crc_table_upto_double:
  assumes ts: "crc_table_upto k ts" and c: "c = word_of_nat (2 ^ k)"
  shows "crc_table_upto (Suc k) (crc_double c ts)"
proof -
  from ts have len: "length ts = 2 ^ k"
    and nth: "\<And>j. j < 2 ^ k \<Longrightarrow> ts ! j = (crc_bit ^^ 8) (word_of_nat j)"
    by (simp_all add: crc_table_upto_def)
  have "crc_double c ts ! j = (crc_bit ^^ 8) (word_of_nat j)" if j: "j < 2 ^ Suc k" for j
  proof (cases "j < 2 ^ k")
    case True
    then show ?thesis by (simp add: crc_double_def nth_append len nth)
  next
    case False
    then obtain i where i: "j = 2 ^ k + i" "i < 2 ^ k"
      using j by (metis add_diff_inverse_nat mult_2 power_Suc nat_add_left_cancel_less)
    have "crc_double c ts ! j = (crc_bit ^^ 8) c XOR ts ! i"
      using i by (simp add: crc_double_def nth_append len)
    also have "\<dots> = (crc_bit ^^ 8) (word_of_nat (2 ^ k) XOR word_of_nat i)"
      using i by (simp only: nth c crc_bits_xor)
    finally show ?thesis using i by (simp only: of_nat_add_xor)
  qed
  then show ?thesis by (simp add: crc_table_upto_def crc_double_def len)
qed

lemma CRC_TABLE_doubling:
  "CRC_TABLE = crc_double 128 (crc_double 64 (crc_double 32 (crc_double 16
     (crc_double 8 (crc_double 4 (crc_double 2 (crc_double 1 [0])))))))"
  by (simp add: CRC_TABLE_def funpow_8 crc_bit_def crc_double_def)

lemma crc_table_upto_CRC_TABLE: "crc_table_upto 8 CRC_TABLE"
proof -
  have 0: "crc_table_upto 0 [0]"
    by (simp add: crc_table_upto_def funpow_8 crc_bit_def)
  have "crc_table_upto (Suc (Suc (Suc (Suc (Suc (Suc (Suc (Suc 0)))))))) CRC_TABLE"
    unfolding CRC_TABLE_doubling by (intro crc_table_upto_double 0) simp_all
  then show ?thesis by (simp add: eval_nat_numeral)
qed

lemma CRC_TABLE_nth: "j < 256 \<Longrightarrow> CRC_TABLE ! j = (crc_bit ^^ 8) (word_of_nat j)"
  using crc_table_upto_CRC_TABLE by (simp add: crc_table_upto_def)

section \<open>One byte, and many\<close>

lemma crc_bits_drop: "take_bit n w = 0 \<Longrightarrow> (crc_bit ^^ n) w = drop_bit n w"
proof (induction n arbitrary: w)
  case 0
  then show ?case by simp
next
  case (Suc n)
  have nb: "\<And>m. m < Suc n \<Longrightarrow> \<not> bit w m"
    using Suc.prems by (metis bit_0_eq bit_take_bit_iff bot_apply bot_bool_def)
  then have one: "crc_bit w = drop_bit 1 w" by (simp add: crc_bit_def)
  have "take_bit n (drop_bit 1 w) = 0"
    by (rule bit_word_eqI) (simp add: bit_simps nb)
  then have "(crc_bit ^^ n) (drop_bit 1 w) = drop_bit n (drop_bit 1 w)" by (rule Suc.IH)
  then show ?case by (simp add: funpow_Suc_right one del: funpow.simps)
qed

lemma crc_table_step:
  "CRC_TABLE ! unat ((c XOR ucast b) AND 0xFF) XOR drop_bit 8 c = crc_byte c b"
proof -
  let ?x = "c XOR ucast b"
  let ?lo = "?x AND 0xFF" and ?hi = "?x AND NOT 0xFF"
  have mask: "(0xFF :: u32) = mask 8" by (simp add: mask_eq_exp_minus_1)
  have lo: "?lo = take_bit 8 ?x"
    by (simp only: mask take_bit_eq_mask)
  have "unat ?lo < 256"
    by (simp only: lo unsigned_take_bit_eq) (use take_bit_nat_less_exp [of 8 "unat ?x"] in simp)
  then have "CRC_TABLE ! unat ?lo = (crc_bit ^^ 8) ?lo"
    using CRC_TABLE_nth [of "unat ?lo"] by (simp only: of_nat_unat ucast_id)
  moreover have "(crc_bit ^^ 8) ?hi = drop_bit 8 ?hi"
    by (rule crc_bits_drop, rule bit_word_eqI) (simp add: bit_simps mask)
  moreover have "drop_bit 8 ?hi = drop_bit 8 c"
    by (rule bit_word_eqI) (auto simp: bit_simps mask dest: bit_imp_le_length)
  moreover have "?x = ?lo XOR ?hi"
    by (rule bit_word_eqI) (auto simp: bit_simps)
  ultimately show ?thesis unfolding crc_byte_def by (metis crc_bits_xor)
qed

text \<open>The loop is the shift register clocked over the whole input.\<close>

lemma CRC32_update_fold: "CRC32_update crc data = foldl crc_byte crc data"
  by (induction crc data rule: CRC32_update.induct) (simp_all only: CRC32_update.simps crc_table_step foldl.simps)

text \<open>Streaming: feeding a buffer in two pieces is feeding it whole.\<close>

lemma CRC32_update_append: "CRC32_update crc (xs @ ys) = CRC32_update (CRC32_update crc xs) ys"
  by (simp add: CRC32_update_fold)

lemma CRC32_calculate_append:
  "CRC32_calculate (xs @ ys) = CRC32_calculate_from ys (CRC32_finalize (CRC32_calculate xs))"
  by (simp add: CRC32_calculate_def CRC32_calculate_from_def CRC32_finalize_def
      CRC32_update_append xor.assoc)

section \<open>What the checksum detects\<close>

lemma bit_poly_31: "bit (0xEDB88320 :: u32) 31"
  by simp

lemma crc_bit_31: "bit (crc_bit c) 31 \<longleftrightarrow> bit c 0"
  by (auto simp: crc_bit_def bit_simps dest: bit_imp_le_length)

lemma crc_bit_eq_0: "crc_bit c = 0 \<Longrightarrow> c = 0"
proof (rule bit_word_eqI)
  fix n
  assume z: "crc_bit c = 0" and n: "n < LENGTH(32)"
  from z have b0: "\<not> bit c 0" using crc_bit_31 [of c] by simp
  with z have "drop_bit 1 c = 0" by (simp add: crc_bit_def)
  then have "\<not> bit (drop_bit 1 c) m" for m by simp
  then have "\<not> bit c (Suc m)" for m by (simp only: bit_drop_bit_eq) simp
  with b0 show "bit c n = bit (0 :: u32) n" by (cases n) simp_all
qed

lemma crc_bits_eq_0: "(crc_bit ^^ n) c = 0 \<Longrightarrow> c = 0"
  by (induction n) (auto dest: crc_bit_eq_0)

lemma xor_eq_0_iff_word: "x XOR y = 0 \<longleftrightarrow> x = (y :: u32)"
  by (metis xor.assoc xor.commute xor_self_eq xor.right_neutral)

lemma crc_bits_inj: "(crc_bit ^^ n) x = (crc_bit ^^ n) y \<longleftrightarrow> x = y"
  by (metis crc_bits_xor crc_bits_eq_0 xor_eq_0_iff_word)

lemma xor_right_cancel: "x XOR z = y XOR z \<longleftrightarrow> x = (y :: u32)"
proof
  assume "x XOR z = y XOR z"
  then have "(x XOR z) XOR z = (y XOR z) XOR z" by (rule arg_cong)
  then show "x = y" by (simp only: xor.assoc xor_self_eq xor.right_neutral)
qed simp

lemma CRC32_update_inj: "CRC32_update c data = CRC32_update c' data \<longleftrightarrow> c = c'"
proof (induction data arbitrary: c c')
  case Nil
  then show ?case by simp
next
  case (Cons b data)
  have "crc_byte c b = crc_byte c' b \<longleftrightarrow> c = c'"
    by (simp only: crc_byte_def crc_bits_inj xor_right_cancel)
  then show ?case by (simp only: CRC32_update.simps crc_table_step Cons)
qed

text \<open>Up to four bytes enter the register as one word.\<close>

lemma CRC32_update_window:
  "length bs \<le> 4 \<Longrightarrow>
     CRC32_update c bs = (crc_bit ^^ (8 * length bs)) (c XOR le_word bs)"
proof (induction bs arbitrary: c)
  case Nil
  then show ?case by simp
next
  case (Cons b bs)
  let ?w = "le_word bs :: u32"
  have small: "bit ?w n \<Longrightarrow> n < 24" for n using Cons.prems by (auto simp: bit_le_word)
  have "take_bit 8 (push_bit 8 ?w) = 0" by (rule bit_word_eqI) (simp add: bit_simps)
  then have "(crc_bit ^^ 8) (push_bit 8 ?w) = drop_bit 8 (push_bit 8 ?w)" by (rule crc_bits_drop)
  also have "\<dots> = ?w"
    by (rule bit_word_eqI) (auto simp: bit_simps dest: small)
  finally have w: "(crc_bit ^^ 8) (push_bit 8 ?w) = ?w" .
  have disj: "le_word (b # bs) = ucast b XOR push_bit 8 ?w"
    by (rule bit_word_eqI) (auto simp: bit_simps dest: bit_imp_le_length)
  have e: "8 * length (b # bs) = 8 * length bs + 8" by simp
  have "CRC32_update c (b # bs) = CRC32_update (crc_byte c b) bs"
    by (simp only: CRC32_update.simps crc_table_step)
  also have "\<dots> = (crc_bit ^^ (8 * length bs)) (crc_byte c b XOR ?w)"
    by (rule Cons.IH) (use Cons.prems in simp)
  also have "crc_byte c b XOR ?w = (crc_bit ^^ 8) (c XOR le_word (b # bs))"
    by (simp only: disj crc_byte_def crc_bits_xor w xor.assoc)
  also have "(crc_bit ^^ (8 * length bs)) ((crc_bit ^^ 8) (c XOR le_word (b # bs))) = (crc_bit ^^ (8 * length bs + 8)) (c XOR le_word (b # bs))"
    by (simp only: funpow_add comp_apply)
  finally show ?case
    using e by (simp only: )
qed

lemma le_word_inj:
  assumes "length bs = length bs'" and "length bs \<le> 4" and "(le_word bs :: u32) = le_word bs'"
  shows "bs = bs'"
proof -
  have "bs = le_bytes (length bs) (le_word bs :: u32)"
    by (rule le_bytes_le_word [symmetric]) (use assms(2) in simp_all)
  also have "\<dots> = le_bytes (length bs) (le_word bs' :: u32)"
    by (simp only: assms(3))
  also have "\<dots> = bs'"
    by (rule le_bytes_le_word) (use assms(1,2) in simp_all)
  finally show ?thesis .
qed

lemma CRC32_update_detects:
  assumes "length bs = length bs'" and "length bs \<le> 4" and "bs \<noteq> bs'"
  shows "CRC32_update c bs \<noteq> CRC32_update c bs'"
proof
  assume "CRC32_update c bs = CRC32_update c bs'"
  with assms(1,2) have "c XOR le_word bs = c XOR le_word bs'"
    by (simp only: CRC32_update_window crc_bits_inj)
  then have "(le_word bs :: u32) = le_word bs'"
    by (simp only: xor.commute [of c] xor_right_cancel)
  with assms(1,2) have "bs = bs'" by (rule le_word_inj)
  with assms(3) show False by contradiction
qed

section \<open>The properties of the checksum\<close>

text \<open>
  C35. \<open>CRC32::calculate\<close> is the CRC-32 of its input: the complemented shift register with
  the polynomial \<open>0xEDB88320\<close>, started from all ones and clocked eight times per byte, and
  the 256 precomputed table entries are right.
\<close>

theorem CRC32_calculate_correct:
  "CRC32_calculate data =
     foldl (\<lambda>c b. (crc_bit ^^ 8) (c XOR ucast b)) 0xFFFFFFFF data XOR 0xFFFFFFFF"
  by (simp add: CRC32_calculate_def CRC32_finalize_def CRC32_update_fold crc_byte_def [abs_def])

text \<open>
  C36. The checksum detects every change of the page data confined to at most four
  consecutive bytes, wherever they are.
\<close>

theorem CRC32_detects_change:
  assumes "length bs = length bs'" and "length bs \<le> 4" and "bs \<noteq> bs'"
  shows "CRC32_calculate (pre @ bs @ post) \<noteq> CRC32_calculate (pre @ bs' @ post)"
proof -
  have "CRC32_update (CRC32_update 0xFFFFFFFF pre) bs \<noteq> CRC32_update (CRC32_update 0xFFFFFFFF pre) bs'"
    using assms by (rule CRC32_update_detects)
  then show ?thesis
    by (simp add: CRC32_calculate_def CRC32_finalize_def CRC32_update_append CRC32_update_inj
        xor_right_cancel)
qed

lemma CRC32_detects_change_witness:
  "CRC32_calculate ([1, 2] @ [3 :: u8] @ [4]) \<noteq> CRC32_calculate ([1, 2] @ [7] @ [4])"
  by (rule CRC32_detects_change) simp_all

end
