(* ===== verification/PageLayout.thy ===== *)
theory PageLayout
  imports LorePrelude
begin

text \<open>
  \<open>storage/page_store.h\<close>: the constants and plain structs of the on-disk format. A struct
  is written to a page with \<open>memcpy\<close>, so its byte image is the concatenation of its fields
  in little-endian order; all fields of the three structs below are naturally aligned, so
  there is no padding and every image is 48 bytes long.
\<close>

section \<open>Constants and enumerations\<close>

definition PAGE_SIZE :: nat where
  "PAGE_SIZE = 4096"

definition INVALID_PAGE_ID :: page_id where
  "INVALID_PAGE_ID = 0"

datatype page_type = FREE | NODE | EDGE | PROPERTY | INDEX | METADATA

primrec page_type_code :: "page_type \<Rightarrow> u32" where
  "page_type_code FREE = 0"
| "page_type_code NODE = 1"
| "page_type_code EDGE = 2"
| "page_type_code PROPERTY = 3"
| "page_type_code INDEX = 4"
| "page_type_code METADATA = 5"

datatype property_type = STRING | INTEGER | FLOAT | BOOLEAN | BYTES | ARRAY | OBJECT

primrec property_type_code :: "property_type \<Rightarrow> u8" where
  "property_type_code STRING = 0"
| "property_type_code INTEGER = 1"
| "property_type_code FLOAT = 2"
| "property_type_code BOOLEAN = 3"
| "property_type_code BYTES = 4"
| "property_type_code ARRAY = 5"
| "property_type_code OBJECT = 6"

lemma property_type_code_inject [simp]:
  "property_type_code s = property_type_code t \<longleftrightarrow> s = t"
  by (cases s; cases t) simp_all

section \<open>Page headers\<close>

record PageHeader =
  magic :: u32
  version :: u32
  page_type_field :: u32
  checksum :: u32
  next_free_offset :: u32
  record_count :: u32
  header_page_id :: u64
  next_page_id :: u64
  reserved :: u64

definition MAGIC :: u32 where
  "MAGIC = 0x47524148"

text \<open>\<open>sizeof(PageHeader)\<close>, and the default constructor.\<close>

definition sizeof_PageHeader :: nat where
  "sizeof_PageHeader = 48"

definition new_PageHeader :: PageHeader where
  "new_PageHeader =
     \<lparr>magic = MAGIC, version = 1, page_type_field = 0, checksum = 0,
      next_free_offset = word_of_nat sizeof_PageHeader, record_count = 0,
      header_page_id = INVALID_PAGE_ID, next_page_id = INVALID_PAGE_ID, reserved = 0\<rparr>"

definition PageHeader_bytes :: "PageHeader \<Rightarrow> u8 list" where
  "PageHeader_bytes h =
     le_bytes 4 (magic h) @ le_bytes 4 (version h) @ le_bytes 4 (page_type_field h) @
     le_bytes 4 (checksum h) @ le_bytes 4 (next_free_offset h) @ le_bytes 4 (record_count h) @
     le_bytes 8 (header_page_id h) @ le_bytes 8 (next_page_id h) @ le_bytes 8 (reserved h)"

text \<open>The field of \<open>n\<close> bytes at an offset of a byte image.\<close>

definition field_at :: "nat \<Rightarrow> nat \<Rightarrow> u8 list \<Rightarrow> 'a::len word" where
  "field_at offset n bytes = le_word (take n (drop offset bytes))"

definition PageHeader_of_bytes :: "u8 list \<Rightarrow> PageHeader" where
  "PageHeader_of_bytes bs =
     \<lparr>magic = field_at 0 4 bs, version = field_at 4 4 bs, page_type_field = field_at 8 4 bs,
      checksum = field_at 12 4 bs, next_free_offset = field_at 16 4 bs,
      record_count = field_at 20 4 bs, header_page_id = field_at 24 8 bs,
      next_page_id = field_at 32 8 bs, reserved = field_at 40 8 bs\<rparr>"

section \<open>Node, edge and property records\<close>

record NodeRecord =
  n_id :: node_id
  label_count :: u32
  n_property_count :: u32
  in_degree :: u32
  out_degree :: u32
  n_property_offset :: u64
  in_edges_offset :: u64
  out_edges_offset :: u64

record EdgeRecord =
  e_id :: edge_id
  from_node :: node_id
  to_node :: node_id
  label_id :: u32
  e_property_count :: u32
  e_property_offset :: u64
  timestamp :: u64

definition new_NodeRecord :: NodeRecord where
  "new_NodeRecord =
     \<lparr>n_id = 0, label_count = 0, n_property_count = 0, in_degree = 0, out_degree = 0,
      n_property_offset = 0, in_edges_offset = 0, out_edges_offset = 0\<rparr>"

definition new_EdgeRecord :: EdgeRecord where
  "new_EdgeRecord =
     \<lparr>e_id = 0, from_node = 0, to_node = 0, label_id = 0, e_property_count = 0,
      e_property_offset = 0, timestamp = 0\<rparr>"

definition sizeof_NodeRecord :: nat where
  "sizeof_NodeRecord = 48"

definition sizeof_EdgeRecord :: nat where
  "sizeof_EdgeRecord = 48"

definition NodeRecord_bytes :: "NodeRecord \<Rightarrow> u8 list" where
  "NodeRecord_bytes r =
     le_bytes 8 (n_id r) @ le_bytes 4 (label_count r) @ le_bytes 4 (n_property_count r) @
     le_bytes 4 (in_degree r) @ le_bytes 4 (out_degree r) @ le_bytes 8 (n_property_offset r) @
     le_bytes 8 (in_edges_offset r) @ le_bytes 8 (out_edges_offset r)"

definition NodeRecord_of_bytes :: "u8 list \<Rightarrow> NodeRecord" where
  "NodeRecord_of_bytes bs =
     \<lparr>n_id = field_at 0 8 bs, label_count = field_at 8 4 bs, n_property_count = field_at 12 4 bs,
      in_degree = field_at 16 4 bs, out_degree = field_at 20 4 bs,
      n_property_offset = field_at 24 8 bs, in_edges_offset = field_at 32 8 bs,
      out_edges_offset = field_at 40 8 bs\<rparr>"

definition EdgeRecord_bytes :: "EdgeRecord \<Rightarrow> u8 list" where
  "EdgeRecord_bytes r =
     le_bytes 8 (e_id r) @ le_bytes 8 (from_node r) @ le_bytes 8 (to_node r) @
     le_bytes 4 (label_id r) @ le_bytes 4 (e_property_count r) @
     le_bytes 8 (e_property_offset r) @ le_bytes 8 (timestamp r)"

definition EdgeRecord_of_bytes :: "u8 list \<Rightarrow> EdgeRecord" where
  "EdgeRecord_of_bytes bs =
     \<lparr>e_id = field_at 0 8 bs, from_node = field_at 8 8 bs, to_node = field_at 16 8 bs,
      label_id = field_at 24 4 bs, e_property_count = field_at 28 4 bs,
      e_property_offset = field_at 32 8 bs, timestamp = field_at 40 8 bs\<rparr>"

section \<open>Byte images and fields\<close>

lemma length_PageHeader_bytes [simp, size_simps]:
  "length (PageHeader_bytes h) = sizeof_PageHeader"
  by (simp add: PageHeader_bytes_def sizeof_PageHeader_def del: le_bytes_numeral)

lemma length_NodeRecord_bytes [simp, size_simps]:
  "length (NodeRecord_bytes r) = sizeof_NodeRecord"
  by (simp add: NodeRecord_bytes_def sizeof_NodeRecord_def del: le_bytes_numeral)

lemma length_EdgeRecord_bytes [simp, size_simps]:
  "length (EdgeRecord_bytes r) = sizeof_EdgeRecord"
  by (simp add: EdgeRecord_bytes_def sizeof_EdgeRecord_def del: le_bytes_numeral)

lemma field_at_skip:
  "n \<le> offset \<Longrightarrow> field_at offset m (le_bytes n v @ bs) = field_at (offset - n) m bs"
  by (simp add: field_at_def del: le_bytes_numeral)

lemma field_at_here:
  fixes w :: "'a::len word"
  shows "LENGTH('a) \<le> 8 * n \<Longrightarrow> field_at 0 n (le_bytes n w @ bs) = w"
  by (simp add: field_at_def le_word_le_bytes del: le_bytes_numeral)

lemma field_at_last:
  fixes w :: "'a::len word"
  shows "LENGTH('a) \<le> 8 * n \<Longrightarrow> field_at 0 n (le_bytes n w) = w"
  by (simp add: field_at_def le_word_le_bytes del: le_bytes_numeral)

lemmas field_at_simps = field_at_skip field_at_here field_at_last

lemma field_at_append [simp]:
  "offset + n \<le> length xs \<Longrightarrow> field_at offset n (xs @ ys) = field_at offset n xs"
  by (simp add: field_at_def)

lemma PageHeader_of_bytes_bytes [simp, codec_simps]:
  "PageHeader_of_bytes (PageHeader_bytes h @ rest) = h"
  by (simp add: PageHeader_of_bytes_def PageHeader_bytes_def field_at_simps
      del: le_bytes_numeral)

lemma NodeRecord_of_bytes_bytes [simp, codec_simps]:
  "NodeRecord_of_bytes (NodeRecord_bytes r @ rest) = r"
  by (simp add: NodeRecord_of_bytes_def NodeRecord_bytes_def field_at_simps
      del: le_bytes_numeral)

lemma EdgeRecord_of_bytes_bytes [simp, codec_simps]:
  "EdgeRecord_of_bytes (EdgeRecord_bytes r @ rest) = r"
  by (simp add: EdgeRecord_of_bytes_def EdgeRecord_bytes_def field_at_simps
      del: le_bytes_numeral)

text \<open>Reading an image and writing it back gives the same bytes.\<close>

lemma le_bytes_field_at:
  "length bs \<ge> offset + n \<Longrightarrow> 8 * n \<le> LENGTH('a::len) \<Longrightarrow>
     le_bytes n (field_at offset n bs :: 'a word) = take n (drop offset bs)"
  unfolding field_at_def by (rule le_bytes_le_word) simp_all

lemma take_drop_chain: "take n (drop k xs) @ take m (drop (k + n) xs) = take (n + m) (drop k xs)"
  by (simp only: take_add drop_drop add.commute [of k n])

lemma NodeRecord_bytes_of_bytes:
  assumes "sizeof_NodeRecord \<le> length bs"
  shows "NodeRecord_bytes (NodeRecord_of_bytes bs) = take sizeof_NodeRecord bs"
proof -
  have "NodeRecord_bytes (NodeRecord_of_bytes bs) =
    take 8 (drop 0 bs) @ take 4 (drop 8 bs) @ take 4 (drop 12 bs) @ take 4 (drop 16 bs) @
    take 4 (drop 20 bs) @ take 8 (drop 24 bs) @ take 8 (drop 32 bs) @ take 8 (drop 40 bs)"
    using assms
    by (simp add: NodeRecord_bytes_def NodeRecord_of_bytes_def sizeof_NodeRecord_def
        le_bytes_field_at del: le_bytes_numeral)
  also have "\<dots> = take 48 (drop 0 bs)"
    using take_drop_chain [of 8 32 bs 8] take_drop_chain [of 8 24 bs 16]
      take_drop_chain [of 4 20 bs 24] take_drop_chain [of 4 16 bs 28]
      take_drop_chain [of 4 12 bs 32] take_drop_chain [of 4 8 bs 36]
      take_drop_chain [of 8 0 bs 40]
    by simp
  finally show ?thesis by (simp add: sizeof_NodeRecord_def)
qed

end
