(* ===== verification/RecordCodec.thy ===== *)
theory RecordCodec
  imports VarInt PageLayout
begin

text \<open>
  \<open>storage/record.h\<close> and \<open>storage/record.cpp\<close>: property values, properties, and the
  \<open>RecordSerializer\<close> that writes node and edge records with their properties. A read
  function takes the remaining span and returns the value with the span after it. The
  contract every reader keeps with its writer is the locale \<open>byte_codec\<close>, interpreted for
  each of them.
\<close>

section \<open>Values\<close>

text \<open>
  The alternatives of \<open>PropertyValue\<close>. A \<open>double\<close> is its 64-bit IEEE image: the serializer
  only copies its bytes.
\<close>

datatype property_value =
    StringV string | IntV i64 | DoubleV u64 | BoolV bool | BytesV "u8 list"

record Property =
  prop_key :: string
  prop_value :: property_value

primrec value_type :: "property_value \<Rightarrow> property_type" where
  "value_type (StringV s) = STRING"
| "value_type (IntV i) = INTEGER"
| "value_type (DoubleV d) = FLOAT"
| "value_type (BoolV b) = BOOLEAN"
| "value_type (BytesV bs) = BYTES"

section \<open>Writing\<close>

text \<open>\<open>write_varint\<close> encodes into a ten-byte array on the stack and appends what was used.\<close>

definition write_varint :: "u8 list \<Rightarrow> u64 \<Rightarrow> u8 list" where
  "write_varint buffer v =
     (case VarInt_encode v (replicate 10 0) of (len, temp) \<Rightarrow> buffer @ take len temp)"

definition write_string :: "u8 list \<Rightarrow> string \<Rightarrow> u8 list" where
  "write_string buffer str =
     write_varint buffer (word_of_nat (length str)) @ string_bytes str"

definition write_property_value :: "u8 list \<Rightarrow> property_value \<Rightarrow> u8 list" where
  "write_property_value buffer v =
     (case v of
        StringV s \<Rightarrow> write_string (buffer @ [property_type_code STRING]) s
      | IntV i \<Rightarrow> write_varint (buffer @ [property_type_code INTEGER]) (ZigZag_encode i)
      | DoubleV d \<Rightarrow> buffer @ [property_type_code FLOAT] @ le_bytes 8 d
      | BoolV b \<Rightarrow> buffer @ [property_type_code BOOLEAN] @ [if b then 1 else 0]
      | BytesV bs \<Rightarrow>
          write_varint (buffer @ [property_type_code BYTES]) (word_of_nat (length bs)) @ bs)"

definition write_property :: "u8 list \<Rightarrow> Property \<Rightarrow> u8 list" where
  "write_property buffer p = write_property_value (write_string buffer (prop_key p)) (prop_value p)"

definition serialize_properties :: "Property list \<Rightarrow> u8 list" where
  "serialize_properties properties =
     foldl write_property (write_varint [] (word_of_nat (length properties))) properties"

definition serialize_node :: "NodeRecord \<Rightarrow> Property list \<Rightarrow> u8 list" where
  "serialize_node node properties = NodeRecord_bytes node @ serialize_properties properties"

definition serialize_edge :: "EdgeRecord \<Rightarrow> Property list \<Rightarrow> u8 list" where
  "serialize_edge edge properties = EdgeRecord_bytes edge @ serialize_properties properties"

section \<open>Reading\<close>

definition read_varint :: "u8 list \<Rightarrow> (u64 \<times> u8 list) result" where
  "read_varint data = VarInt_decode data"

definition read_string :: "u8 list \<Rightarrow> (string \<times> u8 list) result" where
  "read_string data =
     (case read_varint data of
        Inl e \<Rightarrow> Inl e
      | Inr (len, data) \<Rightarrow>
          if length data < unat len
          then Inl (Error CORRUPTION ''Insufficient data for string'')
          else Inr (bytes_string (take (unat len) data), drop (unat len) data))"

text \<open>The type is the byte read before: any value, the unknown ones included.\<close>

definition read_property_value :: "u8 list \<Rightarrow> u8 \<Rightarrow> (property_value \<times> u8 list) result" where
  "read_property_value data type =
     (if type = property_type_code STRING then
        case read_string data of Inl e \<Rightarrow> Inl e | Inr (s, data) \<Rightarrow> Inr (StringV s, data)
      else if type = property_type_code INTEGER then
        case read_varint data of
          Inl e \<Rightarrow> Inl e | Inr (v, data) \<Rightarrow> Inr (IntV (ZigZag_decode v), data)
      else if type = property_type_code FLOAT then
        if length data < 8 then Inl (Error CORRUPTION ''Insufficient data for float'')
        else Inr (DoubleV (le_word (take 8 data)), drop 8 data)
      else if type = property_type_code BOOLEAN then
        case data of
          [] \<Rightarrow> Inl (Error CORRUPTION ''Insufficient data for boolean'')
        | b # data \<Rightarrow> Inr (BoolV (b \<noteq> 0), data)
      else if type = property_type_code BYTES then
        case read_varint data of
          Inl e \<Rightarrow> Inl e
        | Inr (len, data) \<Rightarrow>
            if length data < unat len
            then Inl (Error CORRUPTION ''Insufficient data for bytes'')
            else Inr (BytesV (take (unat len) data), drop (unat len) data)
      else Inl (Error CORRUPTION ''Unknown property type''))"

text \<open>The loop body of \<open>deserialize_properties\<close>, and the loop.\<close>

definition read_property :: "u8 list \<Rightarrow> (Property \<times> u8 list) result" where
  "read_property data =
     (case read_string data of
        Inl e \<Rightarrow> Inl e
      | Inr (k, []) \<Rightarrow> Inl (Error CORRUPTION ''Unexpected end of data'')
      | Inr (k, type # data) \<Rightarrow>
          (case read_property_value data type of
             Inl e \<Rightarrow> Inl e
           | Inr (v, data) \<Rightarrow> Inr (\<lparr>prop_key = k, prop_value = v\<rparr>, data)))"

fun read_many :: "(u8 list \<Rightarrow> ('a \<times> u8 list) result) \<Rightarrow> nat \<Rightarrow> u8 list \<Rightarrow> ('a list \<times> u8 list) result" where
  "read_many rd 0 data = Inr ([], data)"
| "read_many rd (Suc n) data =
     (case rd data of
        Inl e \<Rightarrow> Inl e
      | Inr (x, data) \<Rightarrow>
          (case read_many rd n data of
             Inl e \<Rightarrow> Inl e
           | Inr (xs, data) \<Rightarrow> Inr (x # xs, data)))"

text \<open>
  \<open>properties.reserve(count)\<close> throws \<open>std::length_error\<close> above \<open>max_size()\<close>, which for
  the 72-byte \<open>Property\<close> of libstdc++ is the following; a reservation below it is taken to
  succeed. Bytes after the last property are ignored.
\<close>

definition properties_max_size :: nat where
  "properties_max_size = (2 ^ 63 - 1) div 72"

definition deserialize_properties :: "u8 list \<Rightarrow> Property list result" where
  "deserialize_properties data =
     (case read_varint data of
        Inl e \<Rightarrow> Inl e
      | Inr (count, data) \<Rightarrow>
          if properties_max_size < unat count then Inl (Exception ''std::length_error'')
          else
            (case read_many read_property (unat count) data of
               Inl e \<Rightarrow> Inl e
             | Inr (properties, rest) \<Rightarrow> Inr properties))"

definition deserialize_node :: "u8 list \<Rightarrow> (NodeRecord \<times> Property list) result" where
  "deserialize_node data =
     (if length data < sizeof_NodeRecord
      then Inl (Error CORRUPTION ''Insufficient data for node record'')
      else
        (case deserialize_properties (drop sizeof_NodeRecord data) of
           Inl e \<Rightarrow> Inl e
         | Inr properties \<Rightarrow> Inr (NodeRecord_of_bytes data, properties)))"

definition deserialize_edge :: "u8 list \<Rightarrow> (EdgeRecord \<times> Property list) result" where
  "deserialize_edge data =
     (if length data < sizeof_EdgeRecord
      then Inl (Error CORRUPTION ''Insufficient data for edge record'')
      else
        (case deserialize_properties (drop sizeof_EdgeRecord data) of
           Inl e \<Rightarrow> Inl e
         | Inr properties \<Rightarrow> Inr (EdgeRecord_of_bytes data, properties)))"

section \<open>The contract of a reader and its writer\<close>

text \<open>
  \<open>enc\<close> gives the bytes of a value, \<open>dec\<close> reads one value off the front of a span. Reading
  what was written, whatever follows, gives the value and the rest; a successful read takes
  at least \<open>lo\<close> bytes off the front and leaves the rest as it is; a failure is a reported
  corruption.
\<close>

locale byte_codec =
  fixes enc :: "'a \<Rightarrow> u8 list"
    and dec :: "u8 list \<Rightarrow> ('a \<times> u8 list) result"
    and ok :: "'a \<Rightarrow> bool"
    and lo :: nat
  assumes dec_enc: "ok x \<Longrightarrow> dec (enc x @ rest) = Inr (x, rest)"
    and dec_suffix:
      "dec data = Inr (x, rest) \<Longrightarrow> \<exists>used. data = used @ rest \<and> lo \<le> length used"
    and dec_error: "dec data = Inl e \<Longrightarrow> \<exists>m. e = Error CORRUPTION m"
begin

lemma enc_prefix_free:
  assumes "ok x" and "ok y" and "enc x @ r = enc y @ s"
  shows "x = y \<and> r = s"
proof -
  have "Inr (x, r) = dec (enc y @ s)" using dec_enc [OF assms(1), of r] assms(3) by simp
  also have "\<dots> = Inr (y, s)" using assms(2) by (rule dec_enc)
  finally show ?thesis by simp
qed

lemma length_enc: "ok x \<Longrightarrow> lo \<le> length (enc x)"
  using dec_enc [of x "[]"] dec_suffix by fastforce

lemma read_many_enc:
  "list_all ok xs \<Longrightarrow>
     read_many dec (length xs) (concat (map enc xs) @ rest) = Inr (xs, rest)"
  by (induction xs) (simp_all add: dec_enc)

lemma read_many_suffix:
  "read_many dec n data = Inr (xs, rest) \<Longrightarrow>
     length xs = n \<and> (\<exists>used. data = used @ rest \<and> lo * n \<le> length used)"
proof (induction n arbitrary: data xs)
  case 0
  then show ?case by simp
next
  case (Suc n)
  then obtain x data' ys where step: "dec data = Inr (x, data')"
    "read_many dec n data' = Inr (ys, rest)" "xs = x # ys"
    by (auto split: sum.splits)
  from dec_suffix [OF step(1)] Suc.IH [OF step(2)]
  obtain u v where "data = u @ data'" "lo \<le> length u" "data' = v @ rest"
    "lo * n \<le> length v" "length ys = n"
    by blast
  then show ?case using step(3) by auto
qed

lemma read_many_error:
  "read_many dec n data = Inl e \<Longrightarrow> \<exists>m. e = Error CORRUPTION m"
proof (induction n arbitrary: data)
  case (Suc n)
  then show ?case by (auto split: sum.splits dest: dec_error)
qed simp

end

section \<open>Every reader keeps the contract\<close>

definition string_enc :: "string \<Rightarrow> u8 list" where
  "string_enc s = varint_bytes (word_of_nat (length s)) @ string_bytes s"

definition value_enc :: "property_value \<Rightarrow> u8 list" where
  "value_enc v =
     property_type_code (value_type v) #
       (case v of
          StringV s \<Rightarrow> string_enc s
        | IntV i \<Rightarrow> varint_bytes (ZigZag_encode i)
        | DoubleV d \<Rightarrow> le_bytes 8 d
        | BoolV b \<Rightarrow> [if b then 1 else 0]
        | BytesV bs \<Rightarrow> varint_bytes (word_of_nat (length bs)) @ bs)"

definition property_enc :: "Property \<Rightarrow> u8 list" where
  "property_enc p = string_enc (prop_key p) @ value_enc (prop_value p)"

text \<open>Sizes that fit a \<open>size_t\<close>; every object in memory has them.\<close>

definition wf_string :: "string \<Rightarrow> bool" where
  "wf_string s \<longleftrightarrow> length s < 2 ^ 64"

definition wf_value :: "property_value \<Rightarrow> bool" where
  "wf_value v =
     (case v of StringV s \<Rightarrow> wf_string s | BytesV bs \<Rightarrow> length bs < 2 ^ 64 | _ \<Rightarrow> True)"

definition wf_property :: "Property \<Rightarrow> bool" where
  "wf_property p \<longleftrightarrow> wf_string (prop_key p) \<and> wf_value (prop_value p)"

definition wf_properties :: "Property list \<Rightarrow> bool" where
  "wf_properties ps \<longleftrightarrow> list_all wf_property ps \<and> length ps \<le> properties_max_size"

lemma write_varint_eq [codec_simps]: "write_varint buffer v = buffer @ varint_bytes v"
  using varint_bytes_length_le_10 [of v]
  by (simp add: write_varint_def VarInt_encode_fits)

lemma write_string_eq [codec_simps]: "write_string buffer s = buffer @ string_enc s"
  by (simp add: write_string_def string_enc_def write_varint_eq)

lemma write_property_value_eq [codec_simps]:
  "write_property_value buffer v = buffer @ value_enc v"
  by (cases v) (simp_all add: write_property_value_def value_enc_def write_varint_eq
      write_string_eq del: le_bytes_numeral)

lemma write_property_eq [codec_simps]: "write_property buffer p = buffer @ property_enc p"
  by (simp add: write_property_def property_enc_def write_string_eq write_property_value_eq)

lemma serialize_properties_eq [codec_simps]:
  "serialize_properties ps =
     varint_bytes (word_of_nat (length ps)) @ concat (map property_enc ps)"
proof -
  have "foldl write_property b ps = b @ concat (map property_enc ps)" for b
    by (induction ps arbitrary: b) (simp_all add: write_property_eq)
  then show ?thesis by (simp add: serialize_properties_def write_varint_eq)
qed

lemma VarInt_decode_loop_error:
  "VarInt_decode_loop data shift res = Inl e \<Longrightarrow> \<exists>m. e = Error CORRUPTION m"
  by (induction data shift res rule: VarInt_decode_loop.induct)
    (auto simp: Let_def split: if_splits)

interpretation varint: byte_codec varint_bytes read_varint "\<lambda>_. True" 1
proof
  show "read_varint (varint_bytes x @ rest) = Inr (x, rest)" for x rest
    by (simp add: read_varint_def VarInt_decode_encoded)
  show "\<exists>used. data = used @ rest \<and> 1 \<le> length used"
    if "read_varint data = Inr (x, rest)" for data x rest
    using VarInt_decode_consumes [of data x rest] that
    by (auto simp: read_varint_def Suc_le_eq)
  show "\<exists>m. e = Error CORRUPTION m" if "read_varint data = Inl e" for data e
    using that by (auto simp: read_varint_def VarInt_decode_def dest: VarInt_decode_loop_error)
qed

lemma read_string_cases:
  assumes "read_string data = Inr (s, rest)"
  obtains len data' where "read_varint data = Inr (len, data')" "unat len \<le> length data'"
    "s = bytes_string (take (unat len) data')" "rest = drop (unat len) data'"
  using assms by (auto simp: read_string_def split: sum.splits if_splits)

interpretation string: byte_codec string_enc read_string wf_string 1
proof
  show "read_string (string_enc s @ rest) = Inr (s, rest)" if "wf_string s" for s rest
    using that by (simp add: read_string_def string_enc_def varint.dec_enc unat_word_of_nat
        wf_string_def)
  show "\<exists>used. data = used @ rest \<and> 1 \<le> length used"
    if "read_string data = Inr (s, rest)" for data s rest
  proof -
    from that obtain len data' where s: "read_varint data = Inr (len, data')"
      "rest = drop (unat len) data'" by (rule read_string_cases)
    from varint.dec_suffix [OF s(1)] obtain u where "data = u @ data'" "1 \<le> length u" by blast
    then show ?thesis
      using s(2) by (intro exI [of _ "u @ take (unat len) data'"]) simp
  qed
  show "\<exists>m. e = Error CORRUPTION m" if "read_string data = Inl e" for data e
    using that by (auto simp: read_string_def dest: varint.dec_error split: sum.splits if_splits)
qed

definition read_typed_value :: "u8 list \<Rightarrow> (property_value \<times> u8 list) result" where
  "read_typed_value data =
     (case data of
        [] \<Rightarrow> Inl (Error CORRUPTION ''Unexpected end of data'')
      | type # data \<Rightarrow> read_property_value data type)"

lemma length_ge_Suc: "\<not> length data < Suc n \<Longrightarrow> \<exists>b rest. data = b # rest"
  by (cases data) simp_all

lemma read_property_value_cases:
  assumes "read_property_value data type = Inr (v, rest)"
  obtains (string) s where "read_string data = Inr (s, rest)"
    | (integer) w where "read_varint data = Inr (w, rest)"
    | (float) "\<not> length data < 8" "rest = drop 8 data"
    | (boolean) b where "data = b # rest"
    | (bytes) len data' where "read_varint data = Inr (len, data')" "rest = drop (unat len) data'"
proof (cases "type = property_type_code STRING")
  case True
  then show thesis
    using assms string by (simp add: read_property_value_def split: sum.splits prod.splits)
next
  case nstring: False
  show thesis
  proof (cases "type = property_type_code INTEGER")
    case True
    then show thesis
      using assms integer by (simp add: read_property_value_def split: sum.splits prod.splits)
  next
    case ninteger: False
    show thesis
    proof (cases "type = property_type_code FLOAT")
      case True
      then show thesis
        using assms float by (simp add: read_property_value_def split: if_splits)
    next
      case nfloat: False
      show thesis
      proof (cases "type = property_type_code BOOLEAN")
        case True
        then show thesis
          using assms boolean by (simp add: read_property_value_def split: list.splits)
      next
        case nboolean: False
        show thesis
          using assms bytes nstring ninteger nfloat nboolean
          unfolding read_property_value_def
          by (simp only: if_False) (auto split: if_splits sum.splits prod.splits)
      qed
    qed
  qed
qed

lemma read_property_value_suffix:
  assumes "read_property_value data type = Inr (v, rest)"
  shows "\<exists>used. data = used @ rest \<and> 1 \<le> length used"
proof -
  have bytes: "\<exists>used. data = used @ rest \<and> 1 \<le> length used"
    if "read_varint data = Inr (len, data')" "rest = drop (unat len) data'" for len data'
  proof -
    from varint.dec_suffix [OF that(1)] obtain u where "data = u @ data'" "1 \<le> length u" by blast
    then show ?thesis
      using that(2) by (intro exI [of _ "u @ take (unat len) data'"]) simp
  qed
  have float: "\<exists>used. data = used @ rest \<and> 1 \<le> length used"
    if "\<not> length data < 8" "rest = drop 8 data"
    using that by (intro exI [of _ "take 8 data"]) simp
  consider s where "read_string data = Inr (s, rest)" | w where "read_varint data = Inr (w, rest)"
    | "\<not> length data < 8" "rest = drop 8 data" | b where "data = b # rest"
    | len data' where "read_varint data = Inr (len, data')" "rest = drop (unat len) data'"
    using assms by (rule read_property_value_cases)
  then show ?thesis
  proof cases
    case (1 s)
    then show ?thesis by (rule string.dec_suffix)
  next
    case (2 w)
    then show ?thesis by (rule varint.dec_suffix)
  next
    case 3
    then show ?thesis by (rule float)
  next
    case (4 b)
    then show ?thesis by (intro exI [of _ "[b]"]) simp
  next
    case (5 len data')
    then show ?thesis by (rule bytes)
  qed
qed

interpretation typed_value: byte_codec value_enc read_typed_value wf_value 2
proof
  show "read_typed_value (value_enc v @ rest) = Inr (v, rest)" if "wf_value v" for v rest
    using that
    by (cases v)
      (simp_all add: read_typed_value_def value_enc_def read_property_value_def wf_value_def
        string.dec_enc varint.dec_enc unat_word_of_nat le_word_le_bytes
        del: le_bytes_numeral property_type_code.simps)
  show "\<exists>used. data = used @ rest \<and> 2 \<le> length used"
    if "read_typed_value data = Inr (v, rest)" for data v rest
  proof -
    from that obtain type data' where d: "data = type # data'"
      "read_property_value data' type = Inr (v, rest)"
      by (auto simp: read_typed_value_def split: list.splits)
    from read_property_value_suffix [OF d(2)] obtain u where "data' = u @ rest" "1 \<le> length u"
      by blast
    then show ?thesis using d(1) by (intro exI [of _ "type # u"]) simp
  qed
  show "\<exists>m. e = Error CORRUPTION m" if "read_typed_value data = Inl e" for data e
    using that unfolding read_typed_value_def read_property_value_def
    by (auto dest: string.dec_error varint.dec_error
        split: list.splits if_splits sum.splits)
qed

lemma read_property_eq:
  "read_property data =
     (case read_string data of
        Inl e \<Rightarrow> Inl e
      | Inr (k, data) \<Rightarrow>
          (case read_typed_value data of
             Inl e \<Rightarrow> Inl e
           | Inr (v, data) \<Rightarrow> Inr (\<lparr>prop_key = k, prop_value = v\<rparr>, data)))"
  by (auto simp: read_property_def read_typed_value_def split: sum.splits list.splits)

interpretation property: byte_codec property_enc read_property wf_property 3
proof
  show "read_property (property_enc p @ rest) = Inr (p, rest)" if "wf_property p" for p rest
    using that by (simp add: read_property_eq property_enc_def wf_property_def string.dec_enc
        typed_value.dec_enc)
  show "\<exists>used. data = used @ rest \<and> 3 \<le> length used"
    if "read_property data = Inr (p, rest)" for data p rest
  proof -
    from that obtain k data' v where d: "read_string data = Inr (k, data')"
      "read_typed_value data' = Inr (v, rest)"
      by (auto simp: read_property_eq split: sum.splits)
    from string.dec_suffix [OF d(1)] typed_value.dec_suffix [OF d(2)]
    obtain u w where "data = u @ data'" "1 \<le> length u" "data' = w @ rest" "2 \<le> length w"
      by blast
    then show ?thesis by (intro exI [of _ "u @ w"]) simp
  qed
  show "\<exists>m. e = Error CORRUPTION m" if "read_property data = Inl e" for data e
    using that by (auto simp: read_property_eq dest: string.dec_error typed_value.dec_error
        split: sum.splits)
qed

section \<open>Records\<close>

lemma properties_max_size_less: "properties_max_size < 2 ^ 64"
  by (simp add: properties_max_size_def)

lemma deserialize_properties_serialize [simp, codec_simps]:
  assumes "wf_properties ps"
  shows "deserialize_properties (serialize_properties ps @ rest) = Inr ps"
proof -
  have ok: "list_all wf_property ps" and size: "length ps \<le> properties_max_size"
    using assms by (simp_all add: wf_properties_def)
  then have "length ps < 2 ^ 64" using properties_max_size_less by linarith
  then show ?thesis
    using size property.read_many_enc [OF ok, of rest]
    by (simp add: deserialize_properties_def serialize_properties_eq varint.dec_enc unat_word_of_nat)
qed

lemma deserialize_properties_error:
  "deserialize_properties data = Inl e \<Longrightarrow>
     (\<exists>m. e = Error CORRUPTION m) \<or> e = Exception ''std::length_error''"
  by (auto simp: deserialize_properties_def dest: varint.dec_error property.read_many_error
      split: sum.splits if_splits)

lemma deserialize_properties_bound:
  assumes "deserialize_properties data = Inr ps"
  shows "1 + 3 * length ps \<le> length data \<and> length ps \<le> properties_max_size"
proof -
  from assms obtain count data' rest where r: "read_varint data = Inr (count, data')"
    "unat count \<le> properties_max_size"
    "read_many read_property (unat count) data' = Inr (ps, rest)"
    by (auto simp: deserialize_properties_def split: sum.splits if_splits)
  from varint.dec_suffix [OF r(1)] property.read_many_suffix [OF r(3)] r(2) show ?thesis
    by auto
qed

lemma length_serialize_node [size_simps]:
  "length (serialize_node n ps) = sizeof_NodeRecord + length (serialize_properties ps)"
  by (simp add: serialize_node_def)

lemma length_serialize_edge [size_simps]:
  "length (serialize_edge r ps) = sizeof_EdgeRecord + length (serialize_properties ps)"
  by (simp add: serialize_edge_def)

lemma drop_image: "length xs = n \<Longrightarrow> drop n (xs @ ys) = ys"
  by simp

lemma deserialize_node_serialize [simp, codec_simps]:
  "wf_properties ps \<Longrightarrow> deserialize_node (serialize_node n ps @ rest) = Inr (n, ps)"
  by (simp add: deserialize_node_def serialize_node_def drop_image)

lemma deserialize_edge_serialize [simp, codec_simps]:
  "wf_properties ps \<Longrightarrow> deserialize_edge (serialize_edge r ps @ rest) = Inr (r, ps)"
  by (simp add: deserialize_edge_def serialize_edge_def drop_image)

section \<open>The properties of the serializer\<close>

text \<open>
  C21. \<open>deserialize_node\<close> and \<open>deserialize_edge\<close> give back the record and the properties,
  of every type, that \<open>serialize_node\<close> and \<open>serialize_edge\<close> wrote, whatever bytes of a page
  follow them.
\<close>

theorem record_roundtrip:
  assumes "wf_properties ps"
  shows "deserialize_node (serialize_node n ps @ rest) = Inr (n, ps) \<and>
         deserialize_edge (serialize_edge r ps @ rest) = Inr (r, ps)"
  using assms by simp

lemma record_roundtrip_witness:
  "deserialize_node
     (serialize_node (new_NodeRecord \<lparr>n_id := 7\<rparr>)
       [\<lparr>prop_key = ''age'', prop_value = IntV (- 3)\<rparr>] @ [0, 0]) =
     Inr (new_NodeRecord \<lparr>n_id := 7\<rparr>, [\<lparr>prop_key = ''age'', prop_value = IntV (- 3)\<rparr>]) \<and>
   deserialize_edge
     (serialize_edge (new_EdgeRecord \<lparr>from_node := 1, to_node := 2\<rparr>)
       [\<lparr>prop_key = ''age'', prop_value = IntV (- 3)\<rparr>] @ [0, 0]) =
     Inr (new_EdgeRecord \<lparr>from_node := 1, to_node := 2\<rparr>,
       [\<lparr>prop_key = ''age'', prop_value = IntV (- 3)\<rparr>])"
  by (rule record_roundtrip)
    (simp add: wf_properties_def wf_property_def wf_string_def wf_value_def
      properties_max_size_def)


end
