(* ===== verification/FilePageStore.thy ===== *)
theory FilePageStore
  imports Crc32 PageLayout "HOL-Library.Multiset"
begin

text \<open>
  \<open>storage/file_page_store.h\<close> and \<open>storage/file_page_store.cpp\<close>: pages of 4096 bytes at
  offset \<open>page_id * PAGE_SIZE\<close> of a file, with allocation, a set of freed pages and a
  checksum in every page header. The \<open>PageStore\<close> interface of \<open>storage/page_store.h\<close> is
  the locale \<open>page_store\<close>; it is interpreted here and is what the graph store relies on.

  The file is reached through a \<open>std::fstream\<close>, of which the model keeps the bytes, the
  joint position of the file buffer and the state flags. \<open>fs_device\<close> is the state of the
  device below it: on a failing device seeks, reads, writes and flushes fail and set the
  flags that the standard prescribes. The mutex makes every operation one atomic step.
\<close>

section \<open>File streams\<close>

record fstream =
  fs_data :: "u8 list"
  fs_pos :: nat
  fs_open :: bool
  fs_eofbit :: bool
  fs_failbit :: bool
  fs_badbit :: bool
  fs_device :: bool

definition fs_fail :: "fstream \<Rightarrow> bool" where
  "fs_fail f \<longleftrightarrow> fs_failbit f \<or> fs_badbit f"

definition fs_good :: "fstream \<Rightarrow> bool" where
  "fs_good f \<longleftrightarrow> \<not> fs_eofbit f \<and> \<not> fs_failbit f \<and> \<not> fs_badbit f"

definition fs_clear :: "fstream \<Rightarrow> fstream" where
  "fs_clear f = f\<lparr>fs_eofbit := False, fs_failbit := False, fs_badbit := False\<rparr>"

definition fs_usable :: "fstream \<Rightarrow> bool" where
  "fs_usable f \<longleftrightarrow> fs_open f \<and> fs_device f"

text \<open>
  A \<open>size_t\<close> offset becomes a signed \<open>std::streamoff\<close>; a negative one is refused. A failed
  seek leaves the position.
\<close>

definition fs_seek :: "u64 \<Rightarrow> fstream \<Rightarrow> fstream" where
  "fs_seek offset f =
     (if fs_fail f then f
      else if fs_usable f \<and> 0 \<le> sint offset then f\<lparr>fs_pos := unat offset\<rparr>
      else f\<lparr>fs_failbit := True\<rparr>)"

definition fs_seek_end :: "fstream \<Rightarrow> fstream" where
  "fs_seek_end f =
     (if fs_fail f then f
      else if fs_usable f then f\<lparr>fs_pos := length (fs_data f)\<rparr>
      else f\<lparr>fs_failbit := True\<rparr>)"

text \<open>\<open>tellp\<close>: the position, or \<open>-1\<close>.\<close>

definition fs_tell :: "fstream \<Rightarrow> u64" where
  "fs_tell f = (if fs_fail f \<or> \<not> fs_usable f then - 1 else word_of_nat (fs_pos f))"

text \<open>The bytes delivered, fewer than asked for at the end of the file.\<close>

definition fs_read :: "nat \<Rightarrow> fstream \<Rightarrow> u8 list \<times> fstream" where
  "fs_read n f =
     (if \<not> fs_good f then ([], f\<lparr>fs_failbit := True\<rparr>)
      else if \<not> fs_usable f then ([], f\<lparr>fs_badbit := True\<rparr>)
      else
        let bytes = take n (drop (fs_pos f) (fs_data f));
            f = f\<lparr>fs_pos := fs_pos f + length bytes\<rparr>
        in (bytes,
            if length bytes < n then f\<lparr>fs_eofbit := True, fs_failbit := True\<rparr> else f))"

text \<open>Overwriting at a position; a gap after the end of the file is filled with zeros.\<close>

definition overwrite :: "nat \<Rightarrow> u8 list \<Rightarrow> u8 list \<Rightarrow> u8 list" where
  "overwrite pos bytes data =
     take pos data @ replicate (pos - length data) 0 @ bytes @ drop (pos + length bytes) data"

definition fs_write :: "u8 list \<Rightarrow> fstream \<Rightarrow> fstream" where
  "fs_write bytes f =
     (if \<not> fs_good f then f
      else if \<not> fs_usable f then f\<lparr>fs_badbit := True\<rparr>
      else f\<lparr>fs_data := overwrite (fs_pos f) bytes (fs_data f),
             fs_pos := fs_pos f + length bytes\<rparr>)"

definition fs_flush :: "fstream \<Rightarrow> fstream" where
  "fs_flush f = (if fs_good f \<and> \<not> fs_usable f then f\<lparr>fs_badbit := True\<rparr> else f)"

text \<open>\<open>open(path, in | out | binary)\<close> of a file with these contents, and \<open>close\<close>.\<close>

definition fs_opened :: "u8 list \<Rightarrow> fstream" where
  "fs_opened contents =
     \<lparr>fs_data = contents, fs_pos = 0, fs_open = True, fs_eofbit = False, fs_failbit = False,
      fs_badbit = False, fs_device = True\<rparr>"

definition fs_close :: "fstream \<Rightarrow> fstream" where
  "fs_close f = (if fs_open f then f\<lparr>fs_open := False\<rparr> else f\<lparr>fs_failbit := True\<rparr>)"

section \<open>The store\<close>

text \<open>
  \<open>free_pages_\<close>, a \<open>std::unordered_set\<close>, is the list of its elements in iteration order.
  \<open>growth_factor_\<close> is the image of a \<open>double\<close>.
\<close>

record FilePageStore =
  file_stream :: fstream
  sync_on_write :: bool
  is_closed :: bool
  next_page :: page_id
  allocated_pages :: u64
  page_buffer :: "u8 list"
  free_pages :: "page_id list"
  initial_size :: u64
  growth_factor :: u64

text \<open>
  The constructor. \<open>existing\<close> is the contents of the file, if there is one that opens for
  reading and writing; otherwise an empty file is created if the directory allows it.
\<close>

definition new_FilePageStore ::
  "u8 list option \<Rightarrow> bool \<Rightarrow> bool \<Rightarrow> FilePageStore result" where
  "new_FilePageStore existing can_create sync =
     (let store = (\<lambda>contents.
        \<lparr>file_stream = fs_clear (fs_opened contents), sync_on_write = sync,
         is_closed = False, next_page = 1, allocated_pages = 0,
         page_buffer = replicate PAGE_SIZE 0, free_pages = [],
         initial_size = 1024 * 1024, growth_factor = 0x4000000000000000\<rparr>)
      in case existing of
           Some contents \<Rightarrow> Inr (store contents)
         | None \<Rightarrow>
             if can_create then Inr (store [])
             else Inl (Exception ''Failed to create or open file: ''))"

definition page_offset :: "page_id \<Rightarrow> u64" where
  "page_offset page_id = page_id * word_of_nat PAGE_SIZE"

definition ensure_file_size :: "u64 \<Rightarrow> FilePageStore \<Rightarrow> unit result \<times> FilePageStore" where
  "ensure_file_size required_size s =
     (if is_closed s then (Inl (Exception ''FilePageStore is closed''), s)
      else
        let f = file_stream s;
            original_pos = fs_tell f;
            f = fs_clear (fs_seek_end f);
            current_size = fs_tell f;
            bytes_to_write = required_size - current_size
        in if current_size < required_size \<and> sint bytes_to_write < 0
           then (Inl (Exception ''std::length_error''), s\<lparr>file_stream := f\<rparr>)
           else
             let f = (if current_size < required_size
                      then fs_clear (fs_flush (fs_write (replicate (unat bytes_to_write) 0) f))
                      else f);
                 f = (if original_pos \<noteq> - 1 then fs_clear (fs_seek original_pos f) else f)
             in (Inr (), s\<lparr>file_stream := f\<rparr>))"

definition allocate_page :: "FilePageStore \<Rightarrow> page_id result \<times> FilePageStore" where
  "allocate_page s =
     (if is_closed s then (Inl (Error IO_ERROR ''PageStore is closed''), s)
      else
        (case free_pages s of
          page_id # rest \<Rightarrow>
            (Inr page_id,
             s\<lparr>free_pages := rest, allocated_pages := allocated_pages s + 1\<rparr>)
        | [] \<Rightarrow>
            let page_id = next_page s;
                s = s\<lparr>next_page := next_page s + 1\<rparr>
            in (case ensure_file_size (page_offset (page_id + 1)) s of
                  (Inl e, s) \<Rightarrow> (Inl e, s)
                | (Inr _, s) \<Rightarrow>
                    (Inr page_id, s\<lparr>allocated_pages := allocated_pages s + 1\<rparr>))))"

text \<open>
  \<open>place\<close> is the order in which the hash set iterates after an insertion; the standard
  leaves it open, and a rehash may change it.
\<close>

definition deallocate_page ::
  "(page_id \<Rightarrow> page_id list \<Rightarrow> page_id list) \<Rightarrow> page_id \<Rightarrow> FilePageStore \<Rightarrow>
     unit result \<times> FilePageStore" where
  "deallocate_page place page_id s =
     (if is_closed s then (Inl (Error IO_ERROR ''PageStore is closed''), s)
      else if page_id = INVALID_PAGE_ID \<or> next_page s \<le> page_id
      then (Inl (Error INVALID_ARGUMENT ''Invalid page ID''), s)
      else if page_id \<in> set (free_pages s)
      then (Inl (Error INVALID_ARGUMENT ''Page already deallocated''), s)
      else
        (Inr (),
         s\<lparr>free_pages := place page_id (free_pages s),
           allocated_pages := allocated_pages s - 1\<rparr>))"

text \<open>
  \<open>read_page\<close> returns a view of the store's own page buffer. The flags are cleared after
  the seek and after the read, before they are tested.
\<close>

definition read_page :: "page_id \<Rightarrow> FilePageStore \<Rightarrow> u8 list result \<times> FilePageStore" where
  "read_page page_id s =
     (if is_closed s then (Inl (Error IO_ERROR ''PageStore is closed''), s)
      else if page_id = INVALID_PAGE_ID \<or> next_page s \<le> page_id
      then (Inl (Error INVALID_ARGUMENT ''Invalid page ID''), s)
      else
        let f = fs_clear (file_stream s);
            f = fs_clear (fs_seek (page_offset page_id) f)
        in if fs_fail f
           then (Inl (Error IO_ERROR ''Failed to seek to page location''), s\<lparr>file_stream := f\<rparr>)
           else
             case fs_read PAGE_SIZE f of
               (bytes, f) \<Rightarrow>
                 let f = fs_clear f;
                     buffer = bytes @ replicate (PAGE_SIZE - length bytes) 0;
                     s = s\<lparr>file_stream := f, page_buffer := buffer\<rparr>
                 in if fs_badbit f then (Inl (Error IO_ERROR ''Failed to read page''), s)
                    else (Inr buffer, s))"

text \<open>The header fields that \<open>write_page\<close> sets in its copy of the data.\<close>

definition stamp_page :: "page_id \<Rightarrow> u8 list \<Rightarrow> u8 list" where
  "stamp_page page_id data =
     (let header = PageHeader_of_bytes data;
          body = drop sizeof_PageHeader data;
          header = header\<lparr>magic := MAGIC, header_page_id := page_id, checksum := 0\<rparr>;
          header = header\<lparr>checksum := CRC32_calculate (PageHeader_bytes header @ body)\<rparr>
      in PageHeader_bytes header @ body)"

definition write_page ::
  "page_id \<Rightarrow> u8 list \<Rightarrow> FilePageStore \<Rightarrow> unit result \<times> FilePageStore" where
  "write_page page_id data s =
     (if length data \<noteq> PAGE_SIZE
      then (Inl (Error INVALID_ARGUMENT ''Page data size must be PAGE_SIZE''), s)
      else if is_closed s then (Inl (Error IO_ERROR ''PageStore is closed''), s)
      else if page_id = INVALID_PAGE_ID \<or> next_page s \<le> page_id
      then (Inl (Error INVALID_ARGUMENT ''Invalid page ID''), s)
      else
        let f = fs_clear (file_stream s);
            f = fs_clear (fs_seek (page_offset page_id) f)
        in if fs_fail f
           then (Inl (Error IO_ERROR ''Failed to seek to page location for write''),
                 s\<lparr>file_stream := f\<rparr>)
           else
             let f = fs_clear (fs_write (stamp_page page_id data) f)
             in if fs_fail f
                then (Inl (Error IO_ERROR ''Failed to write page''), s\<lparr>file_stream := f\<rparr>)
                else
                  let f = fs_flush f;
                      f = (if sync_on_write s then fs_flush f else f)
                  in (Inr (), s\<lparr>file_stream := f\<rparr>))"

definition sync_store :: "FilePageStore \<Rightarrow> unit result \<times> FilePageStore" where
  "sync_store s =
     (if is_closed s then (Inl (Error IO_ERROR ''PageStore is closed''), s)
      else (Inr (), s\<lparr>file_stream := fs_flush (file_stream s)\<rparr>))"

definition close_store :: "FilePageStore \<Rightarrow> unit result \<times> FilePageStore" where
  "close_store s =
     (Inr (),
      if is_closed s then s
      else s\<lparr>file_stream := fs_close (file_stream s), is_closed := True\<rparr>)"

definition get_page_count :: "FilePageStore \<Rightarrow> u64" where
  "get_page_count s = next_page s - 1"

definition get_allocated_pages :: "FilePageStore \<Rightarrow> u64" where
  "get_allocated_pages s = allocated_pages s"

definition set_initial_size :: "u64 \<Rightarrow> FilePageStore \<Rightarrow> FilePageStore" where
  "set_initial_size n s = s\<lparr>initial_size := n\<rparr>"

definition set_growth_factor :: "u64 \<Rightarrow> FilePageStore \<Rightarrow> FilePageStore" where
  "set_growth_factor factor s = s\<lparr>growth_factor := factor\<rparr>"

definition set_sync_on_write :: "bool \<Rightarrow> FilePageStore \<Rightarrow> FilePageStore" where
  "set_sync_on_write sync s = s\<lparr>sync_on_write := sync\<rparr>"

section \<open>The interface\<close>

text \<open>
  What a client of \<open>PageStore\<close> relies on. \<open>pages\<close> is the store's abstract value: for every
  page that is allocated, the page type of its header and the body after the header, which
  is what \<open>page_view\<close> sees; \<open>room\<close> is how many pages can still be allocated. The other
  header fields are not promised.
\<close>

definition page_view :: "u8 list \<Rightarrow> u32 \<times> u8 list" where
  "page_view data = (page_type_field (PageHeader_of_bytes data), drop sizeof_PageHeader data)"

locale page_store =
  fixes alloc :: "'s \<Rightarrow> page_id result \<times> 's"
    and rd :: "page_id \<Rightarrow> 's \<Rightarrow> u8 list result \<times> 's"
    and wr :: "page_id \<Rightarrow> u8 list \<Rightarrow> 's \<Rightarrow> unit result \<times> 's"
    and inv :: "'s \<Rightarrow> bool"
    and pages :: "'s \<Rightarrow> page_id \<Rightarrow> (u32 \<times> u8 list) option"
    and room :: "'s \<Rightarrow> nat"
  assumes allocate_ok:
      "inv s \<Longrightarrow> 0 < room s \<Longrightarrow>
         \<exists>p s' body. alloc s = (Inr p, s') \<and> inv s' \<and> p \<noteq> INVALID_PAGE_ID \<and>
           pages s p = None \<and> pages s' = (pages s)(p \<mapsto> body) \<and> Suc (room s') = room s"
    and write_ok:
      "inv s \<Longrightarrow> p \<in> dom (pages s) \<Longrightarrow> length data = PAGE_SIZE \<Longrightarrow>
         \<exists>s'. wr p data s = (Inr (), s') \<and> inv s' \<and> room s' = room s \<and>
           pages s' = (pages s)(p \<mapsto> page_view data)"
    and read_ok:
      "inv s \<Longrightarrow> pages s p = Some body \<Longrightarrow>
         \<exists>s' data. rd p s = (Inr data, s') \<and> inv s' \<and> room s' = room s \<and>
           pages s' = pages s \<and> length data = PAGE_SIZE \<and> page_view data = body"
begin

text \<open>Allocating a page and writing it, as the graph store does for every record.\<close>

lemma allocate_write:
  assumes "inv s" and "0 < room s" and "\<And>p. length (data p) = PAGE_SIZE"
  shows "\<exists>p s1 s2. alloc s = (Inr p, s1) \<and> wr p (data p) s1 = (Inr (), s2) \<and> inv s2 \<and>
           p \<noteq> INVALID_PAGE_ID \<and> pages s p = None \<and> Suc (room s2) = room s \<and>
           pages s2 = (pages s)(p \<mapsto> page_view (data p))"
proof -
  obtain p s1 body where a: "alloc s = (Inr p, s1)" "inv s1" "p \<noteq> INVALID_PAGE_ID"
    "pages s p = None" "pages s1 = (pages s)(p \<mapsto> body)" "Suc (room s1) = room s"
    using allocate_ok [OF assms(1,2)] by blast
  then have "p \<in> dom (pages s1)" by simp
  from write_ok [OF a(2) this assms(3)] obtain s2 where
    "wr p (data p) s1 = (Inr (), s2)" "inv s2" "room s2 = room s1"
    "pages s2 = (pages s1)(p \<mapsto> page_view (data p))"
    by blast
  with a show ?thesis by simp
qed

lemma read_after_write:
  assumes "inv s" and "p \<in> dom (pages s)" and "length data = PAGE_SIZE"
    and "wr p data s = (r, s')"
  shows "\<exists>s'' data'. rd p s' = (Inr data', s'') \<and> pages s'' = pages s' \<and> inv s'' \<and>
           page_view data' = page_view data"
proof -
  from write_ok [OF assms(1-3)] assms(4) have "inv s'"
    "pages s' p = Some (page_view data)" by auto
  from read_ok [OF this] show ?thesis by metis
qed

end

section \<open>Streams on a working device\<close>

lemma fs_good_not_fail: "fs_good f \<Longrightarrow> \<not> fs_fail f"
  by (simp add: fs_good_def fs_fail_def)

lemma fs_clear_simps [simp]:
  "fs_data (fs_clear f) = fs_data f" "fs_pos (fs_clear f) = fs_pos f"
  "fs_usable (fs_clear f) = fs_usable f" "fs_good (fs_clear f)" "\<not> fs_fail (fs_clear f)"
  "\<not> fs_badbit (fs_clear f)"
  by (simp_all add: fs_clear_def fs_usable_def fs_good_def fs_fail_def)

lemma fs_seek_simps [simp]:
  "fs_data (fs_seek offset f) = fs_data f" "fs_usable (fs_seek offset f) = fs_usable f"
  by (simp_all add: fs_seek_def fs_usable_def)

lemma fs_seek_pos:
  "fs_usable f \<Longrightarrow> fs_good f \<Longrightarrow> 0 \<le> sint offset \<Longrightarrow> fs_pos (fs_seek offset f) = unat offset"
  by (simp add: fs_seek_def fs_good_not_fail)

lemma fs_seek_end_simps [simp]:
  "fs_data (fs_seek_end f) = fs_data f" "fs_usable (fs_seek_end f) = fs_usable f"
  by (simp_all add: fs_seek_end_def fs_usable_def)

lemma fs_seek_end_pos:
  "fs_usable f \<Longrightarrow> fs_good f \<Longrightarrow> fs_pos (fs_seek_end f) = length (fs_data f)"
  by (simp add: fs_seek_end_def fs_good_not_fail)

lemma fs_flush_usable [simp]: "fs_usable f \<Longrightarrow> fs_flush f = f"
  by (simp add: fs_flush_def)

lemma fs_write_usable:
  "fs_usable f \<Longrightarrow> fs_good f \<Longrightarrow>
     fs_write bytes f =
       f\<lparr>fs_data := overwrite (fs_pos f) bytes (fs_data f), fs_pos := fs_pos f + length bytes\<rparr>"
  by (simp add: fs_write_def)

lemma fs_data_update_simps [simp]:
  "fs_usable (f\<lparr>fs_data := d, fs_pos := p\<rparr>) = fs_usable f"
  "fs_good (f\<lparr>fs_data := d, fs_pos := p\<rparr>) = fs_good f"
  by (simp_all add: fs_usable_def fs_good_def)

lemma length_overwrite [simp]:
  "length (overwrite pos bytes data) = max (length data) (pos + length bytes)"
  by (simp add: overwrite_def)

lemma overwrite_end [simp]: "overwrite (length data) bytes data = data @ bytes"
  by (simp add: overwrite_def)

lemma overwrite_inside:
  "pos + length bytes \<le> length data \<Longrightarrow>
     overwrite pos bytes data = take pos data @ bytes @ drop (pos + length bytes) data"
  by (simp add: overwrite_def)

text \<open>A slice that the write does not touch, and the slice it writes.\<close>

lemma overwrite_slice_same:
  assumes "pos + length bytes \<le> length data"
  shows "take (length bytes) (drop pos (overwrite pos bytes data)) = bytes"
  using assms by (simp add: overwrite_inside)

lemma overwrite_slice_other:
  assumes "pos + length bytes \<le> length data"
    and "k + n \<le> pos \<or> pos + length bytes \<le> k"
  shows "take n (drop k (overwrite pos bytes data)) = take n (drop k data)"
proof (rule nth_equalityI)
  show "length (take n (drop k (overwrite pos bytes data))) = length (take n (drop k data))"
    using assms by (simp add: max_def)
  fix i
  assume "i < length (take n (drop k (overwrite pos bytes data)))"
  then have i: "i < n" "k + i < length data" using assms by (auto simp: max_def split: if_splits)
  then show "take n (drop k (overwrite pos bytes data)) ! i = take n (drop k data) ! i"
    using assms by (auto simp: overwrite_inside nth_append)
qed

section \<open>Stamped pages\<close>

lemma length_stamp_page [simp]:
  "sizeof_PageHeader \<le> length data \<Longrightarrow> length (stamp_page p data) = length data"
  by (simp add: stamp_page_def Let_def)

lemma drop_stamp_page [simp]:
  "drop sizeof_PageHeader (stamp_page p data) = drop sizeof_PageHeader data"
  by (simp add: stamp_page_def Let_def)

lemma PageHeader_of_stamp_page:
  "\<exists>c. PageHeader_of_bytes (stamp_page p data) =
         (PageHeader_of_bytes data)\<lparr>magic := MAGIC, header_page_id := p, checksum := c\<rparr>"
  unfolding stamp_page_def Let_def PageHeader_of_bytes_bytes by auto

lemma page_view_stamp_page [simp]: "page_view (stamp_page p data) = page_view data"
proof -
  obtain c where "PageHeader_of_bytes (stamp_page p data) =
      (PageHeader_of_bytes data)\<lparr>magic := MAGIC, header_page_id := p, checksum := c\<rparr>"
    using PageHeader_of_stamp_page by blast
  then show ?thesis by (simp add: page_view_def)
qed

definition page_checksum_ok :: "u8 list \<Rightarrow> bool" where
  "page_checksum_ok page =
     (let header = PageHeader_of_bytes page
      in checksum header =
           CRC32_calculate (PageHeader_bytes (header\<lparr>checksum := 0\<rparr>) @ drop sizeof_PageHeader page))"

lemma drop_PageHeader_bytes [simp]: "drop sizeof_PageHeader (PageHeader_bytes h @ bs) = bs"
  by simp

lemma page_checksum_ok_stamp_page [simp]: "page_checksum_ok (stamp_page p data)"
  unfolding page_checksum_ok_def stamp_page_def Let_def PageHeader_of_bytes_bytes
    drop_PageHeader_bytes
  by simp

section \<open>The invariant\<close>

text \<open>
  \<open>PAGE_LIMIT\<close> bounds the page ids by the largest file a signed 64-bit offset reaches, so
  that no offset computation wraps. An open store on a working device has the file as long
  as the pages handed out so far, and the free list holds distinct ids below the next one.
\<close>

definition PAGE_LIMIT :: nat where
  "PAGE_LIMIT = 2 ^ 51 - 1"

definition wf_store :: "FilePageStore \<Rightarrow> bool" where
  "wf_store s \<longleftrightarrow>
     \<not> is_closed s \<and> fs_usable (file_stream s) \<and> fs_good (file_stream s) \<and>
     0 < unat (next_page s) \<and> unat (next_page s) \<le> PAGE_LIMIT \<and>
     distinct (free_pages s) \<and> (\<forall>p \<in> set (free_pages s). 0 < p \<and> p < next_page s) \<and>
     (next_page s = 1 \<or> unat (next_page s) * PAGE_SIZE \<le> length (fs_data (file_stream s))) \<and>
     length (fs_data (file_stream s)) \<le> PAGE_LIMIT * PAGE_SIZE \<and>
     allocated_pages s = next_page s - 1 - word_of_nat (length (free_pages s))"

definition live :: "FilePageStore \<Rightarrow> page_id \<Rightarrow> bool" where
  "live s p \<longleftrightarrow> p \<noteq> INVALID_PAGE_ID \<and> p < next_page s \<and> p \<notin> set (free_pages s)"

definition stored_page :: "FilePageStore \<Rightarrow> page_id \<Rightarrow> u8 list" where
  "stored_page s p = take PAGE_SIZE (drop (unat p * PAGE_SIZE) (fs_data (file_stream s)))"

definition store_pages :: "FilePageStore \<Rightarrow> page_id \<Rightarrow> (u32 \<times> u8 list) option" where
  "store_pages s p =
     (if live s p then Some (page_view (stored_page s p)) else None)"

definition store_room :: "FilePageStore \<Rightarrow> nat" where
  "store_room s = length (free_pages s) + (PAGE_LIMIT - unat (next_page s))"

lemma unat_page_offset:
  assumes "unat p \<le> PAGE_LIMIT"
  shows "unat (page_offset p) = unat p * PAGE_SIZE" "0 \<le> sint (page_offset p)"
proof -
  have eq: "page_offset p = word_of_nat (unat p * PAGE_SIZE)"
    by (simp add: page_offset_def)
  have less: "unat p * PAGE_SIZE < 2 ^ 63"
    using assms by (simp add: PAGE_LIMIT_def PAGE_SIZE_def)
  then show off: "unat (page_offset p) = unat p * PAGE_SIZE"
    unfolding eq by (intro unat_word_of_nat) simp
  show "0 \<le> sint (page_offset p)"
    by (rule sint_nonneg) (simp only: off less)
qed

lemma wf_live_bounds:
  assumes "wf_store s" and "p \<noteq> INVALID_PAGE_ID" and "p < next_page s"
  shows "unat p \<le> PAGE_LIMIT"
    "unat p * PAGE_SIZE + PAGE_SIZE \<le> length (fs_data (file_stream s))"
proof -
  have p: "0 < unat p" "unat p < unat (next_page s)"
    using assms(2,3) by (simp_all add: INVALID_PAGE_ID_def word_less_nat_alt unat_gt_0)
  then show "unat p \<le> PAGE_LIMIT" using assms(1) by (simp add: wf_store_def)
  from p have "next_page s \<noteq> 1" by auto
  then have "unat (next_page s) * PAGE_SIZE \<le> length (fs_data (file_stream s))"
    using assms(1) by (simp add: wf_store_def)
  moreover have "(unat p + 1) * PAGE_SIZE \<le> unat (next_page s) * PAGE_SIZE"
    using p by (intro mult_right_mono) simp_all
  ultimately show "unat p * PAGE_SIZE + PAGE_SIZE \<le> length (fs_data (file_stream s))"
    by simp
qed

lemma length_stored_page:
  "wf_store s \<Longrightarrow> p \<noteq> INVALID_PAGE_ID \<Longrightarrow> p < next_page s \<Longrightarrow> length (stored_page s p) = PAGE_SIZE"
  using wf_live_bounds [of s p] by (simp add: stored_page_def)

section \<open>Reading and writing\<close>

lemma read_page_ok:
  assumes wf: "wf_store s" and p: "p \<noteq> INVALID_PAGE_ID" "p < next_page s"
  shows "\<exists>f. read_page p s =
               (Inr (stored_page s p), s\<lparr>file_stream := f, page_buffer := stored_page s p\<rparr>) \<and>
             fs_data f = fs_data (file_stream s) \<and> fs_usable f \<and> fs_good f"
proof -
  let ?f = "fs_clear (fs_seek (page_offset p) (fs_clear (file_stream s)))"
  note bounds = wf_live_bounds [OF wf p]
  have us: "\<not> is_closed s" "fs_usable (file_stream s)" using wf by (simp_all add: wf_store_def)
  then have pos: "fs_pos ?f = unat p * PAGE_SIZE"
    by (simp add: fs_seek_pos unat_page_offset [OF bounds(1)])
  have page: "take PAGE_SIZE (drop (fs_pos ?f) (fs_data ?f)) = stored_page s p"
    unfolding pos by (simp add: stored_page_def)
  have len: "length (stored_page s p) = PAGE_SIZE" using wf p by (rule length_stored_page)
  have "fs_read PAGE_SIZE ?f = (stored_page s p, ?f\<lparr>fs_pos := fs_pos ?f + PAGE_SIZE\<rparr>)"
    using us by (simp add: fs_read_def Let_def page [simplified] len)
  then have "read_page p s =
      (Inr (stored_page s p),
       s\<lparr>file_stream := fs_clear (?f\<lparr>fs_pos := fs_pos ?f + PAGE_SIZE\<rparr>),
         page_buffer := stored_page s p\<rparr>)"
    using us p by (simp add: read_page_def Let_def len not_le [symmetric])
  moreover have "fs_usable (?f\<lparr>fs_pos := k\<rparr>) = fs_usable (file_stream s)" for k
    by (simp add: fs_usable_def fs_seek_def fs_clear_def)
  ultimately show ?thesis using us by (auto simp: page)
qed

lemma write_page_ok:
  assumes wf: "wf_store s" and p: "p \<noteq> INVALID_PAGE_ID" "p < next_page s"
    and len: "length data = PAGE_SIZE"
  shows "\<exists>f. write_page p data s = (Inr (), s\<lparr>file_stream := f\<rparr>) \<and>
             fs_data f = overwrite (unat p * PAGE_SIZE) (stamp_page p data)
               (fs_data (file_stream s)) \<and>
             fs_usable f \<and> fs_good f"
proof -
  let ?f = "fs_clear (fs_seek (page_offset p) (fs_clear (file_stream s)))"
  let ?g = "fs_clear (fs_write (stamp_page p data) ?f)"
  note bounds = wf_live_bounds [OF wf p]
  have us: "\<not> is_closed s" "fs_usable (file_stream s)" using wf by (simp_all add: wf_store_def)
  have pos: "fs_pos ?f = unat p * PAGE_SIZE"
    using us by (simp add: fs_seek_pos unat_page_offset [OF bounds(1)])
  have g: "fs_usable ?g"
    "fs_data ?g = overwrite (unat p * PAGE_SIZE) (stamp_page p data) (fs_data (file_stream s))"
    using us by (simp_all add: fs_write_usable pos [simplified])
  have "write_page p data s = (Inr (), s\<lparr>file_stream := ?g\<rparr>)"
    using us p len g(1) by (simp add: write_page_def Let_def not_le [symmetric])
  then show ?thesis using g by auto
qed

section \<open>Allocation\<close>

lemma ensure_file_size_ok:
  assumes us: "\<not> is_closed s" "fs_usable (file_stream s)" "fs_good (file_stream s)"
    and len: "length (fs_data (file_stream s)) < 2 ^ 63" and req: "unat req < 2 ^ 63"
  shows "\<exists>f. ensure_file_size req s = (Inr (), s\<lparr>file_stream := f\<rparr>) \<and>
             fs_data f = fs_data (file_stream s) @
               replicate (unat req - length (fs_data (file_stream s))) 0 \<and>
             fs_usable f \<and> fs_good f"
proof -
  let ?d = "fs_data (file_stream s)"
  let ?f = "fs_clear (fs_seek_end (file_stream s))"
  have tell: "fs_tell ?f = word_of_nat (length ?d)"
    using us by (simp add: fs_tell_def fs_seek_end_pos)
  then have cur: "unat (fs_tell ?f) = length ?d" using len by (simp add: unat_word_of_nat)
  then have less: "fs_tell ?f < req \<longleftrightarrow> length ?d < unat req" by (simp add: word_less_nat_alt)
  have diff: "unat (req - fs_tell ?f) = unat req - length ?d" if "length ?d < unat req"
    using that cur by (simp add: unat_sub_if')
  have nn: "\<not> (fs_tell ?f < req \<and> sint (req - fs_tell ?f) < 0)"
  proof (cases "fs_tell ?f < req")
    case True
    then have "unat (req - fs_tell ?f) < 2 ^ 63" using diff less req by simp
    then have "0 \<le> sint (req - fs_tell ?f)" by (rule sint_nonneg)
    then show ?thesis by simp
  qed simp
  define g where "g = (if fs_tell ?f < req
      then fs_clear (fs_flush (fs_write (replicate (unat (req - fs_tell ?f)) 0) ?f)) else ?f)"
  have g: "fs_usable g" "fs_good g"
    "fs_data g = ?d @ replicate (unat req - length ?d) 0"
    using us less diff
    by (auto simp: g_def fs_write_usable fs_seek_end_pos)
  define h where "h = (if fs_tell (file_stream s) \<noteq> - 1
      then fs_clear (fs_seek (fs_tell (file_stream s)) g) else g)"
  have "fs_usable h" "fs_good h" "fs_data h = ?d @ replicate (unat req - length ?d) 0"
    using g by (simp_all add: h_def)
  moreover have "ensure_file_size req s = (Inr (), s\<lparr>file_stream := h\<rparr>)"
    unfolding ensure_file_size_def Let_def g_def [symmetric] h_def [symmetric]
    using us(1) nn by simp
  ultimately show ?thesis by blast
qed

text \<open>Allocation of a fresh page, of a freed page, and release of a page.\<close>

lemma allocate_page_fresh:
  assumes wf: "wf_store s" and free: "free_pages s = []" and room: "0 < store_room s"
  shows "\<exists>f. allocate_page s =
      (Inr (next_page s),
       s\<lparr>file_stream := f, next_page := next_page s + 1,
         allocated_pages := allocated_pages s + 1\<rparr>) \<and>
    fs_data f = fs_data (file_stream s) @
      replicate (unat (next_page s + 1) * PAGE_SIZE - length (fs_data (file_stream s))) 0 \<and>
    fs_usable f \<and> fs_good f \<and> unat (next_page s + 1) = unat (next_page s) + 1"
proof -
  let ?s = "s\<lparr>next_page := next_page s + 1\<rparr>"
  have n: "unat (next_page s) < PAGE_LIMIT" using free room by (simp add: store_room_def)
  then have "unat (next_page s) + 1 < 2 ^ 64" by (simp add: PAGE_LIMIT_def)
  then have suc: "unat (next_page s + 1) = unat (next_page s) + 1"
    by (simp add: unat_word_ariths)
  with n have lim: "unat (next_page s + 1) \<le> PAGE_LIMIT" by simp
  note off = unat_page_offset [OF lim]
  have req: "unat (page_offset (next_page s + 1)) < 2 ^ 63"
    using lim by (simp add: off PAGE_LIMIT_def PAGE_SIZE_def)
  have us: "\<not> is_closed ?s" "fs_usable (file_stream ?s)" "fs_good (file_stream ?s)"
    "length (fs_data (file_stream ?s)) < 2 ^ 63"
    using wf by (simp_all add: wf_store_def PAGE_LIMIT_def PAGE_SIZE_def)
  from ensure_file_size_ok [OF us req] obtain f where f:
    "ensure_file_size (page_offset (next_page s + 1)) ?s = (Inr (), ?s\<lparr>file_stream := f\<rparr>)"
    "fs_data f = fs_data (file_stream s) @
      replicate (unat (next_page s + 1) * PAGE_SIZE - length (fs_data (file_stream s))) 0"
    "fs_usable f" "fs_good f"
    by (auto simp: off)
  have "allocate_page s =
      (Inr (next_page s),
       s\<lparr>file_stream := f, next_page := next_page s + 1,
         allocated_pages := allocated_pages s + 1\<rparr>)"
    using us(1) free f(1) by (simp add: allocate_page_def Let_def)
  with f(2-4) suc show ?thesis by blast
qed

lemma allocate_page_reused:
  "wf_store s \<Longrightarrow> free_pages s = p # rest \<Longrightarrow>
     allocate_page s =
       (Inr p, s\<lparr>free_pages := rest, allocated_pages := allocated_pages s + 1\<rparr>)"
  by (simp add: allocate_page_def wf_store_def)

lemma wf_store_stream_update:
  assumes "wf_store s" and "fs_usable f" and "fs_good f"
    and "length (fs_data f) = length (fs_data (file_stream s))"
  shows "wf_store (s\<lparr>file_stream := f, page_buffer := b\<rparr>)" "wf_store (s\<lparr>file_stream := f\<rparr>)"
  using assms by (simp_all add: wf_store_def)

lemma store_pages_cong:
  assumes "next_page s' = next_page s" and "free_pages s' = free_pages s"
    and "fs_data (file_stream s') = fs_data (file_stream s)"
  shows "store_pages s' = store_pages s"
  using assms by (simp add: fun_eq_iff store_pages_def live_def stored_page_def)

lemma word_less_plus1:
  "unat (n + 1 :: u64) = unat n + 1 \<Longrightarrow> p < n + 1 \<longleftrightarrow> p < n \<or> p = n"
  by (auto simp: word_less_nat_alt less_Suc_eq word_unat_eq_iff)

lemma allocate_page_step:
  assumes wf: "wf_store s" and room: "0 < store_room s"
  shows "\<exists>p s' body. allocate_page s = (Inr p, s') \<and> wf_store s' \<and> p \<noteq> INVALID_PAGE_ID \<and>
           store_pages s p = None \<and> store_pages s' = (store_pages s)(p \<mapsto> body) \<and>
           Suc (store_room s') = store_room s"
proof (cases "free_pages s")
  case Nil
  let ?n = "next_page s" and ?d = "fs_data (file_stream s)"
  obtain f where f: "allocate_page s =
      (Inr ?n, s\<lparr>file_stream := f, next_page := ?n + 1,
         allocated_pages := allocated_pages s + 1\<rparr>)"
    "fs_data f = ?d @ replicate (unat (?n + 1) * PAGE_SIZE - length ?d) 0"
    "fs_usable f" "fs_good f" "unat (?n + 1) = unat ?n + 1"
    using allocate_page_fresh [OF wf Nil room] by auto
  let ?s = "s\<lparr>file_stream := f, next_page := ?n + 1,
         allocated_pages := allocated_pages s + 1\<rparr>"
  have n: "unat ?n < PAGE_LIMIT" "0 < unat ?n"
    using Nil room wf by (simp_all add: store_room_def wf_store_def)
  have lim: "unat (?n + 1) * PAGE_SIZE \<le> PAGE_LIMIT * PAGE_SIZE"
    using n f(5) by (intro mult_right_mono) simp_all
  have wf': "wf_store ?s"
    using wf f n Nil lim by (auto simp: wf_store_def)
  have n0: "?n \<noteq> INVALID_PAGE_ID" using n(2) by (auto simp: INVALID_PAGE_ID_def)
  have slot: "stored_page ?s q = stored_page s q" if "live s q" for q
  proof -
    have "unat q * PAGE_SIZE + PAGE_SIZE \<le> length ?d"
      using wf_live_bounds(2) [OF wf] that by (simp add: live_def)
    then show ?thesis by (simp add: stored_page_def f(2))
  qed
  have live: "live ?s q \<longleftrightarrow> live s q \<or> q = ?n" for q
    using n0 Nil f(5) by (auto simp: live_def word_less_plus1)
  have "\<not> live s ?n" by (simp add: live_def)
  then have "store_pages s ?n = None"
    "store_pages ?s = (store_pages s)(?n \<mapsto> page_view (stored_page ?s ?n))"
    using slot by (auto simp: fun_eq_iff store_pages_def live)
  moreover have "Suc (store_room ?s) = store_room s"
    using n f(5) by (simp add: store_room_def)
  ultimately show ?thesis using f(1) wf' n0 by blast
next
  case (Cons p rest)
  let ?s = "s\<lparr>free_pages := rest, allocated_pages := allocated_pages s + 1\<rparr>"
  have wf': "wf_store ?s" using wf Cons by (simp add: wf_store_def)
  have p: "0 < p" "p < next_page s" "p \<notin> set rest"
    using wf Cons by (simp_all add: wf_store_def)
  then have p0: "p \<noteq> INVALID_PAGE_ID" by (auto simp: INVALID_PAGE_ID_def)
  have live: "live ?s q \<longleftrightarrow> live s q \<or> q = p" for q
    using p p0 Cons by (auto simp: live_def)
  have slot: "stored_page ?s q = stored_page s q" for q by (simp add: stored_page_def)
  have "store_pages s p = None"
    "store_pages ?s = (store_pages s)(p \<mapsto> page_view (stored_page s p))"
    using Cons p p0 by (auto simp: fun_eq_iff store_pages_def live slot live_def)
  moreover have "Suc (store_room ?s) = store_room s"
    using Cons by (simp add: store_room_def)
  ultimately show ?thesis using allocate_page_reused [OF wf Cons] wf' p0 by blast
qed

lemma page_slots_disjoint:
  "p \<noteq> q \<Longrightarrow> unat q * PAGE_SIZE + PAGE_SIZE \<le> unat p * PAGE_SIZE \<or>
     unat p * PAGE_SIZE + PAGE_SIZE \<le> unat q * PAGE_SIZE"
proof -
  assume "p \<noteq> q"
  then have "unat q + 1 \<le> unat p \<or> unat p + 1 \<le> unat q"
    by (auto simp: word_unat_eq_iff)
  then have "(unat q + 1) * PAGE_SIZE \<le> unat p * PAGE_SIZE \<or>
      (unat p + 1) * PAGE_SIZE \<le> unat q * PAGE_SIZE"
    using mult_le_mono1 by blast
  then show ?thesis by (simp only: add_mult_distrib mult_1)
qed

lemma write_page_step:
  assumes wf: "wf_store s" and p: "p \<in> dom (store_pages s)" and len: "length data = PAGE_SIZE"
  shows "\<exists>s'. write_page p data s = (Inr (), s') \<and> wf_store s' \<and> store_room s' = store_room s \<and>
           stored_page s' p = stamp_page p data \<and>
           store_pages s' = (store_pages s)(p \<mapsto> page_view data)"
proof -
  have live: "live s p" using p by (auto simp: store_pages_def split: if_splits)
  then have p': "p \<noteq> INVALID_PAGE_ID" "p < next_page s" by (simp_all add: live_def)
  let ?d = "fs_data (file_stream s)" and ?page = "stamp_page p data"
  obtain f where f: "write_page p data s = (Inr (), s\<lparr>file_stream := f\<rparr>)"
    "fs_data f = overwrite (unat p * PAGE_SIZE) ?page ?d" "fs_usable f" "fs_good f"
    using write_page_ok [OF wf p' len] by blast
  let ?s = "s\<lparr>file_stream := f\<rparr>"
  have plen: "length ?page = PAGE_SIZE"
    using len by (simp add: sizeof_PageHeader_def PAGE_SIZE_def)
  note fits = wf_live_bounds(2) [OF wf p']
  then have fits': "unat p * PAGE_SIZE + length ?page \<le> length ?d" by (simp add: plen)
  have wf': "wf_store ?s"
    by (rule wf_store_stream_update(2) [OF wf f(3,4)]) (use fits' f(2) in simp)
  have here: "stored_page ?s p = ?page"
    using overwrite_slice_same [OF fits'] by (simp add: stored_page_def f(2) plen)
  have other: "stored_page ?s q = stored_page s q" if "q \<noteq> p" for q
    using overwrite_slice_other [OF fits', of "unat q * PAGE_SIZE" PAGE_SIZE]
      page_slots_disjoint [of p q] that by (auto simp: stored_page_def f(2) plen)
  have "store_pages ?s = (store_pages s)(p \<mapsto> page_view data)"
  proof
    fix q
    show "store_pages ?s q = ((store_pages s)(p \<mapsto> page_view data)) q"
      using live here other [of q] len
      by (cases "q = p") (simp_all add: store_pages_def live_def)
  qed
  moreover have "store_room ?s = store_room s" by (simp add: store_room_def)
  ultimately show ?thesis using f(1) wf' here by blast
qed

lemma read_page_step:
  assumes wf: "wf_store s" and body: "store_pages s p = Some body"
  shows "\<exists>s' data. read_page p s = (Inr data, s') \<and> wf_store s' \<and> store_room s' = store_room s \<and>
           store_pages s' = store_pages s \<and> length data = PAGE_SIZE \<and>
           page_view data = body"
proof -
  have live: "live s p" and b: "body = page_view (stored_page s p)"
    using body by (auto simp: store_pages_def split: if_splits)
  then have p: "p \<noteq> INVALID_PAGE_ID" "p < next_page s" by (simp_all add: live_def)
  obtain f where f: "read_page p s =
      (Inr (stored_page s p), s\<lparr>file_stream := f, page_buffer := stored_page s p\<rparr>)"
    "fs_data f = fs_data (file_stream s)" "fs_usable f" "fs_good f"
    using read_page_ok [OF wf p] by blast
  let ?s = "s\<lparr>file_stream := f, page_buffer := stored_page s p\<rparr>"
  have "wf_store ?s"
    by (rule wf_store_stream_update(1) [OF wf f(3,4)]) (simp add: f(2))
  moreover have "store_pages ?s = store_pages s"
    by (rule store_pages_cong) (simp_all add: f(2))
  ultimately show ?thesis
    using f(1) length_stored_page [OF wf p] b by (auto simp: store_room_def)
qed

interpretation fps: page_store allocate_page read_page write_page wf_store store_pages store_room
proof
  show "\<exists>p s' body. allocate_page s = (Inr p, s') \<and> wf_store s' \<and> p \<noteq> INVALID_PAGE_ID \<and>
      store_pages s p = None \<and> store_pages s' = (store_pages s)(p \<mapsto> body) \<and>
      Suc (store_room s') = store_room s"
    if "wf_store s" "0 < store_room s" for s
    using that by (rule allocate_page_step)
  show "\<exists>s'. write_page p data s = (Inr (), s') \<and> wf_store s' \<and> store_room s' = store_room s \<and>
      store_pages s' = (store_pages s)(p \<mapsto> page_view data)"
    if "wf_store s" "p \<in> dom (store_pages s)" "length data = PAGE_SIZE" for s p data
    using write_page_step [OF that] by blast
  show "\<exists>s' data. read_page p s = (Inr data, s') \<and> wf_store s' \<and> store_room s' = store_room s \<and>
      store_pages s' = store_pages s \<and> length data = PAGE_SIZE \<and>
      page_view data = body"
    if "wf_store s" "store_pages s p = Some body" for s p body
    using that by (rule read_page_step)
qed

section \<open>Every operation keeps the invariant\<close>

lemma deallocate_page_ok:
  assumes "wf_store s" and "live s p"
  shows "deallocate_page place p s =
    (Inr (), s\<lparr>free_pages := place p (free_pages s), allocated_pages := allocated_pages s - 1\<rparr>)"
  using assms by (simp add: deallocate_page_def wf_store_def live_def not_le)

lemma deallocate_page_refused:
  assumes "\<not> live s p"
  shows "\<exists>e. deallocate_page place p s = (Inl e, s)"
  using assms by (auto simp: deallocate_page_def live_def not_le)

lemma wf_store_deallocate:
  assumes wf: "wf_store s" and place: "mset (place p (free_pages s)) = add_mset p (mset (free_pages s))"
  shows "wf_store (snd (deallocate_page place p s))"
proof (cases "live s p")
  case True
  have "distinct (place p (free_pages s)) \<longleftrightarrow> distinct (p # free_pages s)"
    by (rule mset_eq_imp_distinct_iff) (simp add: place)
  moreover have "set (place p (free_pages s)) = insert p (set (free_pages s))"
    by (metis place set_mset_add_mset_insert set_mset_mset)
  moreover have "length (place p (free_pages s)) = Suc (length (free_pages s))"
    by (metis place size_add_mset size_mset)
  ultimately show ?thesis
    using wf True
    by (simp add: deallocate_page_ok wf_store_def live_def INVALID_PAGE_ID_def word_gt_0)
next
  case False
  then show ?thesis using deallocate_page_refused [OF False, of place] wf by auto
qed

lemma read_page_refused:
  "wf_store s \<Longrightarrow> p = INVALID_PAGE_ID \<or> \<not> p < next_page s \<Longrightarrow>
     read_page p s = (Inl (Error INVALID_ARGUMENT ''Invalid page ID''), s)"
  by (simp add: read_page_def wf_store_def not_less)

lemma wf_store_read_page: "wf_store s \<Longrightarrow> wf_store (snd (read_page p s))"
proof (cases "p = INVALID_PAGE_ID \<or> \<not> p < next_page s")
  case False
  assume wf: "wf_store s"
  from False obtain f where f: "read_page p s =
      (Inr (stored_page s p), s\<lparr>file_stream := f, page_buffer := stored_page s p\<rparr>)"
    "fs_data f = fs_data (file_stream s)" "fs_usable f" "fs_good f"
    using read_page_ok [OF wf] by blast
  then show ?thesis using wf_store_stream_update(1) [OF wf f(3,4)] by simp
qed (simp add: read_page_refused)

lemma wf_store_write_page: "wf_store s \<Longrightarrow> wf_store (snd (write_page p data s))"
proof (cases "p = INVALID_PAGE_ID \<or> \<not> p < next_page s \<or> length data \<noteq> PAGE_SIZE")
  case True
  assume "wf_store s"
  with True have "snd (write_page p data s) = s"
    by (auto simp: write_page_def not_less)
  with \<open>wf_store s\<close> show ?thesis by simp
next
  case False
  assume wf: "wf_store s"
  from False have p: "p \<noteq> INVALID_PAGE_ID" "p < next_page s" "length data = PAGE_SIZE" by simp_all
  have "sizeof_PageHeader \<le> length data" using p(3) by (simp add: sizeof_PageHeader_def PAGE_SIZE_def)
  then have "unat p * PAGE_SIZE + length (stamp_page p data) \<le> length (fs_data (file_stream s))"
    using wf_live_bounds(2) [OF wf p(1,2)] p(3) by simp
  then show ?thesis
    using write_page_ok [OF wf p] wf_store_stream_update(2) [OF wf] by fastforce
qed

text \<open>
  One call on the store. Allocation is bounded by the page limit; the order of the hash set
  after an insertion is any order of the same elements.
\<close>

inductive store_step :: "FilePageStore \<Rightarrow> FilePageStore \<Rightarrow> bool" where
  allocate: "0 < store_room s \<Longrightarrow> store_step s (snd (allocate_page s))"
| deallocate:
    "mset (place p (free_pages s)) = add_mset p (mset (free_pages s)) \<Longrightarrow>
       store_step s (snd (deallocate_page place p s))"
| read: "store_step s (snd (read_page p s))"
| write_page: "store_step s (snd (write_page p data s))"
| sync: "store_step s (snd (sync_store s))"
| initial_size: "store_step s (set_initial_size n s)"
| growth_factor: "store_step s (set_growth_factor g s)"
| sync_on_write: "store_step s (set_sync_on_write b s)"

lemma wf_store_settings:
  "wf_store s \<Longrightarrow> wf_store (snd (sync_store s))"
  "wf_store s \<Longrightarrow> wf_store (set_initial_size n s)"
  "wf_store s \<Longrightarrow> wf_store (set_growth_factor g s)"
  "wf_store s \<Longrightarrow> wf_store (set_sync_on_write b s)"
  by (simp_all add: wf_store_def sync_store_def set_initial_size_def set_growth_factor_def
      set_sync_on_write_def)

lemma wf_store_step: "store_step s s' \<Longrightarrow> wf_store s \<Longrightarrow> wf_store s'"
proof (induction rule: store_step.induct)
  case (allocate s)
  then show ?case using allocate_page_step [of s] by auto
qed (simp_all only: wf_store_deallocate wf_store_read_page wf_store_write_page wf_store_settings)

lemma wf_store_new:
  assumes "new_FilePageStore existing can_create sync = Inr s"
    and "\<And>contents. existing = Some contents \<Longrightarrow> length contents \<le> PAGE_LIMIT * PAGE_SIZE"
  shows "wf_store s"
  using assms
  by (auto simp: new_FilePageStore_def wf_store_def fs_opened_def fs_usable_def
      PAGE_LIMIT_def fs_clear_def fs_good_def split: option.splits if_splits)

lemma live_card:
  assumes wf: "wf_store s"
  shows "unat (get_allocated_pages s) = card {p. live s p}"
proof -
  let ?n = "unat (next_page s)"
  have fin: "finite {p :: u64. P p}" for P by (rule finite_subset [OF subset_UNIV finite])
  have range: "{p. 0 < p \<and> p < next_page s} = word_of_nat ` {1..<?n}"
  proof (intro set_eqI iffI)
    fix p :: u64
    assume "p \<in> {p. 0 < p \<and> p < next_page s}"
    then have "unat p \<in> {1..<?n}" by (simp add: word_less_nat_alt Suc_le_eq)
    moreover have "p = word_of_nat (unat p)" by simp
    ultimately show "p \<in> word_of_nat ` {1..<?n}" by blast
  next
    fix p :: u64
    assume "p \<in> word_of_nat ` {1..<?n}"
    then obtain k where k: "p = word_of_nat k" "0 < k" "k < ?n" by auto
    then have "unat p = k"
      using unat_u64_less [of "next_page s"] by (simp add: unat_word_of_nat)
    then show "p \<in> {p. 0 < p \<and> p < next_page s}" using k by (simp add: word_less_nat_alt)
  qed
  have inj: "inj_on (word_of_nat :: nat \<Rightarrow> u64) {1..<?n}"
  proof (rule inj_onI)
    fix j k
    assume "j \<in> {1..<?n}" "k \<in> {1..<?n}" "(word_of_nat j :: u64) = word_of_nat k"
    moreover have "unat (word_of_nat i :: u64) = i" if "i \<in> {1..<?n}" for i
      using that unat_u64_less [of "next_page s"] by (intro unat_word_of_nat) simp
    ultimately show "j = k" by metis
  qed
  have total: "card {p. 0 < p \<and> p < next_page s} = ?n - 1"
    unfolding range by (simp only: card_image [OF inj] card_atLeastLessThan)
  have free: "set (free_pages s) \<subseteq> {p. 0 < p \<and> p < next_page s}"
    "card (set (free_pages s)) = length (free_pages s)"
    using wf by (auto simp: wf_store_def distinct_card)
  have "{p. live s p} = {p. 0 < p \<and> p < next_page s} - set (free_pages s)"
    by (auto simp: live_def INVALID_PAGE_ID_def word_gt_0)
  then have card: "card {p. live s p} = ?n - 1 - length (free_pages s)"
    using free total by (simp add: card_Diff_subset fin)
  have le: "length (free_pages s) \<le> ?n - 1"
    using card_mono [OF fin free(1)] total free(2) by simp
  have "unat (next_page s - 1) = ?n - 1"
    using wf by (intro unat_minus_one) (auto simp: wf_store_def)
  moreover have "unat (word_of_nat (length (free_pages s)) :: u64) = length (free_pages s)"
    using le unat_u64_less [of "next_page s"] by (intro unat_word_of_nat) simp
  ultimately show ?thesis
    using wf le card by (simp add: get_allocated_pages_def wf_store_def unat_sub_if')
qed

section \<open>The properties of the page store\<close>


definition example_store :: FilePageStore where
  "example_store =
     (case new_FilePageStore (Some []) False False of Inr s \<Rightarrow> s)"

lemma example_store: "new_FilePageStore (Some []) False False = Inr example_store"
  by (simp add: example_store_def new_FilePageStore_def Let_def)

lemma example_store_room: "wf_store example_store" "0 < store_room example_store"
  using wf_store_new [OF example_store]
  by (simp_all add: example_store_def new_FilePageStore_def Let_def store_room_def PAGE_LIMIT_def)


text \<open>
  \<open>allocate_page\<close> hands out a page that is not in use, valid, and leaves the contents of
  every allocated page alone; that holds for fresh pages, where the file grows, and for
  pages taken from the free set.
\<close>

theorem allocate_page_correct:
  assumes "wf_store s" and "0 < store_room s"
  shows "\<exists>p s' body. allocate_page s = (Inr p, s') \<and> wf_store s' \<and> p \<noteq> INVALID_PAGE_ID \<and>
           \<not> live s p \<and> (\<forall>q. live s' q \<longleftrightarrow> live s q \<or> q = p) \<and>
           store_pages s' = (store_pages s)(p \<mapsto> body)"
proof -
  from fps.allocate_ok [OF assms] obtain p s' body where a:
    "allocate_page s = (Inr p, s')" "wf_store s'" "p \<noteq> INVALID_PAGE_ID"
    "store_pages s p = None" "store_pages s' = (store_pages s)(p \<mapsto> body)" by blast
  have live: "live t q \<longleftrightarrow> store_pages t q \<noteq> None" for t q by (simp add: store_pages_def)
  from a have "\<forall>q. live s' q \<longleftrightarrow> live s q \<or> q = p" "\<not> live s p" by (simp_all add: live)
  with a show ?thesis by blast
qed

lemma allocate_page_correct_witness:
  "\<exists>p s' body. allocate_page example_store = (Inr p, s') \<and> wf_store s' \<and> p \<noteq> INVALID_PAGE_ID \<and>
     \<not> live example_store p \<and> (\<forall>q. live s' q \<longleftrightarrow> live example_store q \<or> q = p) \<and>
     store_pages s' = (store_pages example_store)(p \<mapsto> body)"
  by (rule allocate_page_correct [OF example_store_room])

text \<open>
  C20. Read after write: \<open>write_page\<close> of a full page to an allocated page succeeds, and
  \<open>read_page\<close> then returns the data as given except for the magic number, the page id and
  the checksum, which it sets; the checksum is right, and no other page changes.
\<close>

theorem read_page_after_write_page:
  assumes "wf_store s" and "live s p" and "length data = PAGE_SIZE"
    and "write_page p data s = (r, s')"
  shows "r = Inr () \<and> wf_store s' \<and>
    (\<exists>page c. fst (read_page p s') = Inr page \<and> length page = PAGE_SIZE \<and>
       drop sizeof_PageHeader page = drop sizeof_PageHeader data \<and>
       PageHeader_of_bytes page =
         (PageHeader_of_bytes data)\<lparr>magic := MAGIC, header_page_id := p, checksum := c\<rparr> \<and>
       page_checksum_ok page) \<and>
    (\<forall>q. q \<noteq> p \<longrightarrow> store_pages s' q = store_pages s q)"
proof -
  have dom: "p \<in> dom (store_pages s)" using assms(2) by (simp add: store_pages_def dom_def)
  from write_page_step [OF assms(1) dom assms(3)] assms(4) have w: "r = Inr ()" "wf_store s'"
    "stored_page s' p = stamp_page p data"
    "store_pages s' = (store_pages s)(p \<mapsto> page_view data)" by auto
  then have "live s' p" by (simp add: store_pages_def fun_eq_iff) (metis option.distinct(1))
  then have p: "p \<noteq> INVALID_PAGE_ID" "p < next_page s'" by (simp_all add: live_def)
  have "fst (read_page p s') = Inr (stamp_page p data)"
    using read_page_ok [OF w(2) p] w(3) by auto
  moreover have "sizeof_PageHeader \<le> length data"
    using assms(3) by (simp add: sizeof_PageHeader_def PAGE_SIZE_def)
  moreover obtain c where "PageHeader_of_bytes (stamp_page p data) =
      (PageHeader_of_bytes data)\<lparr>magic := MAGIC, header_page_id := p, checksum := c\<rparr>"
    using PageHeader_of_stamp_page by blast
  ultimately show ?thesis using w assms(3) by auto
qed

lemma read_page_after_write_page_witness:
  "let s = snd (allocate_page example_store); data = replicate PAGE_SIZE 1;
       (r, s') = write_page 1 data s
   in r = Inr () \<and> wf_store s' \<and>
    (\<exists>page c. fst (read_page 1 s') = Inr page \<and> length page = PAGE_SIZE \<and>
       drop sizeof_PageHeader page = drop sizeof_PageHeader data \<and>
       PageHeader_of_bytes page =
         (PageHeader_of_bytes data)\<lparr>magic := MAGIC, header_page_id := 1, checksum := c\<rparr> \<and>
       page_checksum_ok page) \<and>
    (\<forall>q. q \<noteq> 1 \<longrightarrow> store_pages s' q = store_pages s q)"
proof -
  let ?s = "snd (allocate_page example_store)"
  have free: "free_pages example_store = []" and first: "next_page example_store = 1"
    by (simp_all add: example_store_def new_FilePageStore_def Let_def)
  from allocate_page_fresh [OF example_store_room(1) free example_store_room(2)] first free
  have "next_page ?s = 2" "free_pages ?s = []" by auto
  then have live: "live ?s 1" by (simp add: live_def INVALID_PAGE_ID_def)
  have wf: "wf_store ?s" using allocate_page_step [OF example_store_room] by auto
  obtain r s' where w: "write_page 1 (replicate PAGE_SIZE 1) ?s = (r, s')" by fastforce
  from read_page_after_write_page [OF wf live _ w] show ?thesis by (simp add: w Let_def)
qed

text \<open>
  C39. Nothing of a store survives closing it: a store opened on the file another one left
  starts with no page, refuses to read any page the file holds, and hands out page 1 first,
  whose contents are then overwritten.
\<close>

theorem reopened_store_is_empty:
  assumes "new_FilePageStore (Some (fs_data (file_stream (snd (close_store s))))) c b = Inr s'"
    and "wf_store s"
  shows "get_page_count s' = 0 \<and> get_allocated_pages s' = 0 \<and>
         (\<forall>p. read_page p s' = (Inl (Error INVALID_ARGUMENT ''Invalid page ID''), s')) \<and>
         fst (allocate_page s') = Inr 1"
proof (intro conjI allI)
  have s': "next_page s' = 1" "allocated_pages s' = 0" "\<not> is_closed s'" "free_pages s' = []"
    using assms by (auto simp: new_FilePageStore_def Let_def)
  then show "get_page_count s' = 0" "get_allocated_pages s' = 0"
    by (simp_all add: get_page_count_def get_allocated_pages_def)
  have one: "p = 0 \<or> 1 \<le> p" for p :: u64
    by (simp add: word_le_nat_alt) (metis Suc_leI unat_gt_0)
  show "read_page p s' = (Inl (Error INVALID_ARGUMENT ''Invalid page ID''), s')" for p
    using s' one [of p] by (auto simp: read_page_def INVALID_PAGE_ID_def)
  have "length (fs_data (file_stream (snd (close_store s)))) \<le> PAGE_LIMIT * PAGE_SIZE"
    using assms(2) by (simp add: close_store_def wf_store_def fs_close_def)
  then have wf: "wf_store s'" using wf_store_new [OF assms(1)] by simp
  have "0 < store_room s'" using s' by (simp add: store_room_def PAGE_LIMIT_def)
  from allocate_page_fresh [OF wf s'(4) this] s'(1) show "fst (allocate_page s') = Inr 1" by auto
qed

lemma reopened_store_is_empty_witness:
  "get_page_count example_store = 0 \<and> get_allocated_pages example_store = 0 \<and>
   (\<forall>p. read_page p example_store =
      (Inl (Error INVALID_ARGUMENT ''Invalid page ID''), example_store)) \<and>
   fst (allocate_page example_store) = Inr 1"
proof (rule reopened_store_is_empty)
  show "new_FilePageStore (Some (fs_data (file_stream (snd (close_store example_store)))))
      False False = Inr example_store"
    by (simp add: example_store_def new_FilePageStore_def Let_def close_store_def fs_close_def
        fs_opened_def fs_clear_def)
qed (rule example_store_room)

text \<open>
  A failing device is not reported: \<open>write_page\<close> clears the stream's flags before it
  tests them, so it returns success although the file is unchanged, and \<open>read_page\<close> returns
  a page of zeros.
\<close>

theorem device_failure_not_reported:
  assumes "\<not> is_closed s" and "fs_device (file_stream s) = False"
    and "p \<noteq> INVALID_PAGE_ID" and "p < next_page s" and "length data = PAGE_SIZE"
  shows "fst (write_page p data s) = Inr () \<and>
         fs_data (file_stream (snd (write_page p data s))) = fs_data (file_stream s) \<and>
         fst (read_page p s) = Inr (replicate PAGE_SIZE 0)"
proof -
  have dead: "\<not> fs_usable (file_stream s)"
    using assms(2) by (simp add: fs_usable_def)
  have bad: "fs_data (f\<lparr>fs_badbit := True\<rparr>) = fs_data f"
    "fs_usable (f\<lparr>fs_badbit := True\<rparr>) = fs_usable f" for f
    by (simp_all add: fs_usable_def)
  have flush: "fs_data (fs_flush f) = fs_data f" for f by (simp add: fs_flush_def)
  show ?thesis
    using assms dead
    by (simp add: write_page_def read_page_def Let_def not_le [symmetric] fs_write_def fs_read_def
        bad flush)
qed

lemma device_failure_not_reported_witness:
  "let s = example_store\<lparr>next_page := 5, file_stream := (fs_opened [1, 2])\<lparr>fs_device := False\<rparr>\<rparr>
   in fst (write_page 3 (replicate PAGE_SIZE 1) s) = Inr () \<and>
      fs_data (file_stream (snd (write_page 3 (replicate PAGE_SIZE 1) s))) =
        fs_data (file_stream s) \<and>
      fst (read_page 3 s) = Inr (replicate PAGE_SIZE 0)"
  unfolding Let_def
  by (rule device_failure_not_reported)
    (simp_all add: example_store_def new_FilePageStore_def Let_def INVALID_PAGE_ID_def)

end
