(* ===== verification/Transactions.thy ===== *)
theory Transactions
  imports LorePrelude
begin

text \<open>
  \<open>transaction/mvcc.h\<close> and \<open>transaction/mvcc.cpp\<close>: transactions, their states, and the
  \<open>TransactionManager\<close> that hands out ids and timestamps and remembers which transactions
  committed. A \<open>Transaction\<close> object is shared with the client that began it, so the
  operations take the object and return it updated. The counters are atomic and the tables
  are guarded by a mutex: each operation is one step.
\<close>

section \<open>The code\<close>

type_synonym transaction_id = u64
type_synonym timestamp = u64

datatype transaction_state = ACTIVE | COMMITTED | ABORTED

record Transaction =
  txn_id :: transaction_id
  start_timestamp :: timestamp
  commit_timestamp :: timestamp
  txn_state :: transaction_state

definition new_Transaction :: "transaction_id \<Rightarrow> Transaction" where
  "new_Transaction tid =
     \<lparr>txn_id = tid, start_timestamp = 0, commit_timestamp = 0, txn_state = ACTIVE\<rparr>"

text \<open>The objects that \<open>active_transactions_\<close> points to are never read, only its keys are.\<close>

record TransactionManager =
  next_transaction_id :: transaction_id
  current_timestamp :: timestamp
  active_transactions :: "transaction_id set"
  completed_transactions :: "transaction_id \<Rightarrow> transaction_state option"

definition new_TransactionManager :: TransactionManager where
  "new_TransactionManager =
     \<lparr>next_transaction_id = 1, current_timestamp = 1, active_transactions = {},
      completed_transactions = (\<lambda>_. None)\<rparr>"

definition get_current_timestamp :: "TransactionManager \<Rightarrow> timestamp \<times> TransactionManager" where
  "get_current_timestamp tm =
     (current_timestamp tm, tm\<lparr>current_timestamp := current_timestamp tm + 1\<rparr>)"

definition begin_transaction :: "TransactionManager \<Rightarrow> Transaction \<times> TransactionManager" where
  "begin_transaction tm =
     (let tid = next_transaction_id tm;
          tm = tm\<lparr>next_transaction_id := next_transaction_id tm + 1\<rparr>;
          txn = new_Transaction tid;
          (now, tm) = get_current_timestamp tm;
          txn = txn\<lparr>start_timestamp := now\<rparr>
      in (txn, tm\<lparr>active_transactions := insert tid (active_transactions tm)\<rparr>))"

definition commit_transaction ::
  "Transaction \<Rightarrow> TransactionManager \<Rightarrow> bool \<times> Transaction \<times> TransactionManager" where
  "commit_transaction txn tm =
     (if txn_state txn \<noteq> ACTIVE then (False, txn, tm)
      else
        let (now, tm) = get_current_timestamp tm;
            txn = txn\<lparr>commit_timestamp := now, txn_state := COMMITTED\<rparr>
        in (True, txn,
            tm\<lparr>active_transactions := active_transactions tm - {txn_id txn},
               completed_transactions :=
                 (completed_transactions tm)(txn_id txn \<mapsto> COMMITTED)\<rparr>))"

definition abort_transaction ::
  "Transaction \<Rightarrow> TransactionManager \<Rightarrow> bool \<times> Transaction \<times> TransactionManager" where
  "abort_transaction txn tm =
     (if txn_state txn \<noteq> ACTIVE then (False, txn, tm)
      else
        let txn = txn\<lparr>txn_state := ABORTED\<rparr>
        in (True, txn,
            tm\<lparr>active_transactions := active_transactions tm - {txn_id txn},
               completed_transactions :=
                 (completed_transactions tm)(txn_id txn \<mapsto> ABORTED)\<rparr>))"

text \<open>Visibility of a timestamped object; 0 means not deleted.\<close>

definition is_visible :: "timestamp \<Rightarrow> timestamp \<Rightarrow> timestamp \<Rightarrow> bool" where
  "is_visible created_at deleted_at read_timestamp =
     (if read_timestamp < created_at then False
      else if 0 < deleted_at \<and> deleted_at \<le> read_timestamp then False
      else True)"

text \<open>A transaction that is in neither table is taken to be an old, committed one.\<close>

definition is_transaction_committed :: "transaction_id \<Rightarrow> TransactionManager \<Rightarrow> bool" where
  "is_transaction_committed tx_id tm =
     (if tx_id \<in> active_transactions tm then False
      else
        case completed_transactions tm tx_id of
          Some state \<Rightarrow> state = COMMITTED
        | None \<Rightarrow> True)"

section \<open>The manager with its clients\<close>

text \<open>
  The objects the clients hold, by id, beside the manager; one step is one call. Ids and
  timestamps are 64-bit counters: a step that would wrap them is not taken.
\<close>

type_synonym txn_system = "(transaction_id \<Rightarrow> Transaction option) \<times> TransactionManager"

inductive txn_step :: "txn_system \<Rightarrow> txn_system \<Rightarrow> bool" where
  begin_txn:
    "begin_transaction tm = (txn, tm') \<Longrightarrow> next_transaction_id tm \<noteq> - 1 \<Longrightarrow>
       current_timestamp tm \<noteq> - 1 \<Longrightarrow>
       txn_step (txns, tm) (txns(txn_id txn \<mapsto> txn), tm')"
| commit_txn:
    "txns tid = Some txn \<Longrightarrow> commit_transaction txn tm = (ok, txn', tm') \<Longrightarrow>
       current_timestamp tm \<noteq> - 1 \<Longrightarrow>
       txn_step (txns, tm) (txns(tid \<mapsto> txn'), tm')"
| abort_txn:
    "txns tid = Some txn \<Longrightarrow> abort_transaction txn tm = (ok, txn', tm') \<Longrightarrow>
       current_timestamp tm \<noteq> - 1 \<Longrightarrow>
       txn_step (txns, tm) (txns(tid \<mapsto> txn'), tm')"

definition txn_init :: txn_system where
  "txn_init = ((\<lambda>_. None), new_TransactionManager)"

text \<open>
  An object agrees with the tables, and its id and timestamps are below the counters; an id
  without an object is in no table and is 0 or still to come; start timestamps follow the
  ids.
\<close>

definition wf_object :: "TransactionManager \<Rightarrow> transaction_id \<Rightarrow> Transaction \<Rightarrow> bool" where
  "wf_object tm tid txn \<longleftrightarrow>
     txn_id txn = tid \<and> 0 < tid \<and> tid < next_transaction_id tm \<and>
     start_timestamp txn < current_timestamp tm \<and>
     (txn_state txn = COMMITTED \<longrightarrow>
        start_timestamp txn < commit_timestamp txn \<and>
        commit_timestamp txn < current_timestamp tm) \<and>
     (tid \<in> active_transactions tm \<longleftrightarrow> txn_state txn = ACTIVE) \<and>
     completed_transactions tm tid =
       (if txn_state txn = ACTIVE then None else Some (txn_state txn))"

definition wf_absent :: "TransactionManager \<Rightarrow> transaction_id \<Rightarrow> bool" where
  "wf_absent tm tid \<longleftrightarrow>
     tid \<notin> active_transactions tm \<and> completed_transactions tm tid = None \<and>
     (tid = 0 \<or> next_transaction_id tm \<le> tid)"

definition wf_txn :: "txn_system \<Rightarrow> bool" where
  "wf_txn sys \<longleftrightarrow>
     0 < next_transaction_id (snd sys) \<and>
     (\<forall>tid. case fst sys tid of
        Some txn \<Rightarrow> wf_object (snd sys) tid txn | None \<Rightarrow> wf_absent (snd sys) tid) \<and>
     (\<forall>s t u v. fst sys s = Some u \<longrightarrow> fst sys t = Some v \<longrightarrow> s < t \<longrightarrow>
        start_timestamp u < start_timestamp v)"

lemma wf_txn_object: "wf_txn (txns, tm) \<Longrightarrow> txns tid = Some txn \<Longrightarrow> wf_object tm tid txn"
  by (auto simp: wf_txn_def dest: spec [of _ tid])

lemma wf_txn_absent: "wf_txn (txns, tm) \<Longrightarrow> txns tid = None \<Longrightarrow> wf_absent tm tid"
  by (auto simp: wf_txn_def dest: spec [of _ tid])

lemma wf_txn_order:
  "wf_txn (txns, tm) \<Longrightarrow> txns s = Some u \<Longrightarrow> txns t = Some v \<Longrightarrow> s < t \<Longrightarrow>
     start_timestamp u < start_timestamp v"
  unfolding wf_txn_def by simp

text \<open>The effect of each call, as the step relation needs it.\<close>

lemma begin_transactionE:
  assumes "begin_transaction tm = (txn, tm')"
  obtains "txn = \<lparr>txn_id = next_transaction_id tm, start_timestamp = current_timestamp tm,
      commit_timestamp = 0, txn_state = ACTIVE\<rparr>"
    and "tm' = tm\<lparr>next_transaction_id := next_transaction_id tm + 1,
      current_timestamp := current_timestamp tm + 1,
      active_transactions := insert (next_transaction_id tm) (active_transactions tm)\<rparr>"
  using assms
  by (auto simp: begin_transaction_def get_current_timestamp_def new_Transaction_def Let_def)

lemma finish_transactionE:
  assumes "commit_transaction txn tm = (ok, txn', tm') \<or> abort_transaction txn tm = (ok, txn', tm')"
  obtains (finished) "txn_state txn \<noteq> ACTIVE" "\<not> ok" "txn' = txn" "tm' = tm"
  | (commit) "txn_state txn = ACTIVE" "ok"
      "txn' = txn\<lparr>commit_timestamp := current_timestamp tm, txn_state := COMMITTED\<rparr>"
      "tm' = tm\<lparr>current_timestamp := current_timestamp tm + 1,
         active_transactions := active_transactions tm - {txn_id txn},
         completed_transactions := (completed_transactions tm)(txn_id txn \<mapsto> COMMITTED)\<rparr>"
  | (abort) "txn_state txn = ACTIVE" "ok" "txn' = txn\<lparr>txn_state := ABORTED\<rparr>"
      "tm' = tm\<lparr>active_transactions := active_transactions tm - {txn_id txn},
         completed_transactions := (completed_transactions tm)(txn_id txn \<mapsto> ABORTED)\<rparr>"
  using assms
  by (auto simp: commit_transaction_def abort_transaction_def get_current_timestamp_def Let_def
      split: if_splits)

lemma wf_txn_init: "wf_txn txn_init"
proof -
  have "tid = 0 \<or> 1 \<le> tid" for tid :: u64
    by (simp add: word_le_nat_alt) (metis Suc_leI unat_gt_0)
  then show ?thesis
    by (simp add: wf_txn_def txn_init_def new_TransactionManager_def wf_absent_def)
qed

lemma wf_txn_begin:
  assumes wf: "wf_txn (txns, tm)" and b: "begin_transaction tm = (txn, tm')"
    and n: "next_transaction_id tm \<noteq> - 1" and t: "current_timestamp tm \<noteq> - 1"
  shows "wf_txn (txns(txn_id txn \<mapsto> txn), tm')"
  using b
proof (rule begin_transactionE)
  let ?n = "next_transaction_id tm"
  assume txn: "txn = \<lparr>txn_id = ?n, start_timestamp = current_timestamp tm,
      commit_timestamp = 0, txn_state = ACTIVE\<rparr>"
    and tm': "tm' = tm\<lparr>next_transaction_id := ?n + 1,
      current_timestamp := current_timestamp tm + 1,
      active_transactions := insert ?n (active_transactions tm)\<rparr>"
  have pos: "0 < ?n" using wf by (simp add: wf_txn_def)
  have old: "txns tid = Some u \<Longrightarrow> tid < ?n \<and> start_timestamp u < current_timestamp tm" for tid u
    using wf_txn_object [OF wf] by (simp add: wf_object_def)
  then have new: "txns ?n = None" by (cases "txns ?n") auto
  have absent: "wf_absent tm ?n" using wf new by (rule wf_txn_absent)
  show ?thesis
    unfolding wf_txn_def fst_conv snd_conv
  proof (intro conjI allI impI)
    show "0 < next_transaction_id tm'"
      using pos n by (simp add: tm' u64_less_plus1)
  next
    fix tid
    show "case (txns(txn_id txn \<mapsto> txn)) tid of
        Some txn \<Rightarrow> wf_object tm' tid txn | None \<Rightarrow> wf_absent tm' tid"
    proof (cases "tid = ?n")
      case True
      then show ?thesis
        using pos n t absent
        by (simp add: txn tm' wf_object_def wf_absent_def u64_less_plus1)
    next
      case False
      show ?thesis
      proof (cases "txns tid")
        case None
        then have "wf_absent tm tid" using wf wf_txn_absent by blast
        then show ?thesis
          using False None n by (simp add: txn tm' wf_absent_def) (auto simp: not_less [symmetric] u64_less_plus1)
      next
        case (Some u)
        then have "wf_object tm tid u" using wf wf_txn_object by blast
        then show ?thesis
          using False Some n t by (auto simp: txn tm' wf_object_def u64_less_plus1)
      qed
    qed
  next
    fix s r u v
    assume "(txns(txn_id txn \<mapsto> txn)) s = Some u" "(txns(txn_id txn \<mapsto> txn)) r = Some v" "s < r"
    then show "start_timestamp u < start_timestamp v"
      using old wf_txn_order [OF wf] by (fastforce simp: txn split: if_splits)
  qed
qed

lemma wf_txn_finish:
  assumes wf: "wf_txn (txns, tm)" and u: "txns tid = Some txn"
    and f: "commit_transaction txn tm = (ok, txn', tm') \<or> abort_transaction txn tm = (ok, txn', tm')"
    and t: "current_timestamp tm \<noteq> - 1"
  shows "wf_txn (txns(tid \<mapsto> txn'), tm')"
proof -
  have obj: "wf_object tm tid txn" using wf u by (rule wf_txn_object)
  have same: "next_transaction_id tm' = next_transaction_id tm"
    "start_timestamp txn' = start_timestamp txn"
    by (rule finish_transactionE [OF f]; simp)+
  have now: "wf_object tm' tid txn'"
    using f by (rule finish_transactionE) (use obj t in \<open>auto simp: wf_object_def u64_less_plus1\<close>)
  have other: "wf_object tm' i v" if "txns i = Some v" "i \<noteq> tid" for i v
    using f by (rule finish_transactionE)
      (use wf_txn_object [OF wf that(1)] obj that(2) t in \<open>auto simp: wf_object_def u64_less_plus1\<close>)
  have none: "wf_absent tm' i" if "txns i = None" for i
    using f by (rule finish_transactionE)
      (use wf_txn_absent [OF wf that] u obj that in \<open>auto simp: wf_absent_def wf_object_def\<close>)
  show ?thesis
    unfolding wf_txn_def fst_conv snd_conv
  proof (intro conjI allI impI)
    show "0 < next_transaction_id tm'" using wf by (simp add: same wf_txn_def)
    show "case (txns(tid \<mapsto> txn')) i of
        Some txn \<Rightarrow> wf_object tm' i txn | None \<Rightarrow> wf_absent tm' i" for i
      using now other none by (auto split: option.splits)
    show "start_timestamp a < start_timestamp b"
      if "(txns(tid \<mapsto> txn')) s = Some a" "(txns(tid \<mapsto> txn')) r = Some b" "s < r" for s r a b
      using that wf_txn_order [OF wf, of s _ r] u same(2) by (auto split: if_splits)
  qed
qed

lemma wf_txn_step: "txn_step x y \<Longrightarrow> wf_txn x \<Longrightarrow> wf_txn y"
proof (induction rule: txn_step.induct)
  case (begin_txn tm txn tm' txns)
  then show ?case by (rule_tac wf_txn_begin)
next
  case (commit_txn txns tid txn tm ok txn' tm')
  then show ?case by (rule_tac wf_txn_finish) auto
next
  case (abort_txn txns tid txn tm ok txn' tm')
  then show ?case by (rule_tac wf_txn_finish) auto
qed

lemma wf_txn_reachable: "txn_step\<^sup>*\<^sup>* txn_init sys \<Longrightarrow> wf_txn sys"
  by (induction rule: rtranclp_induct) (auto intro: wf_txn_init wf_txn_step)

section \<open>What a client can rely on\<close>

lemma committed_iff:
  assumes "wf_txn (txns, tm)"
  shows "is_transaction_committed tid tm \<longleftrightarrow>
           (case txns tid of None \<Rightarrow> True | Some txn \<Rightarrow> txn_state txn = COMMITTED)"
proof (cases "txns tid")
  case None
  then show ?thesis
    using wf_txn_absent [OF assms] by (simp add: is_transaction_committed_def wf_absent_def)
next
  case (Some txn)
  then show ?thesis
    using wf_txn_object [OF assms Some]
    by (simp add: is_transaction_committed_def wf_object_def)
qed

lemma finished_transaction_stable:
  assumes "txn_step x y" and "wf_txn x" and "fst x tid = Some txn" and "txn_state txn \<noteq> ACTIVE"
  shows "fst y tid = Some txn"
  using assms
proof (induction rule: txn_step.induct)
  case (begin_txn tm new tm' txns)
  then have "txn_id new = next_transaction_id tm" by (auto elim: begin_transactionE)
  moreover have "tid < next_transaction_id tm"
    using wf_txn_object [OF begin_txn(4)] begin_txn(5) by (simp add: wf_object_def)
  ultimately show ?case using begin_txn(5) by auto
next
  case (commit_txn txns t old tm ok txn' tm')
  then show ?case by (cases "t = tid") (auto simp: commit_transaction_def)
next
  case (abort_txn txns t old tm ok txn' tm')
  then show ?case by (cases "t = tid") (auto simp: abort_transaction_def)
qed

section \<open>The properties of the transaction manager\<close>

text \<open>
  In every reachable state \<open>is_transaction_committed\<close> answers by the state of the
  transaction's own object; an id that was never handed out, 0 and the ids still to come
  included, is answered as committed.
\<close>

theorem is_transaction_committed_correct:
  assumes "txn_step\<^sup>*\<^sup>* txn_init (txns, tm)"
  shows "is_transaction_committed tid tm \<longleftrightarrow>
           (case txns tid of None \<Rightarrow> True | Some txn \<Rightarrow> txn_state txn = COMMITTED)"
  using wf_txn_reachable [OF assms] by (rule committed_iff)

definition example_txns :: txn_system where
  "example_txns =
     (let (t, tm) = begin_transaction new_TransactionManager
      in ((\<lambda>_. None)(txn_id t \<mapsto> t), tm))"

lemma example_txns_reachable: "txn_step\<^sup>*\<^sup>* txn_init example_txns"
proof -
  obtain t tm where b: "begin_transaction new_TransactionManager = (t, tm)" by fastforce
  have "txn_step ((\<lambda>_. None), new_TransactionManager) ((\<lambda>_. None)(txn_id t \<mapsto> t), tm)"
    by (rule txn_step.begin_txn [OF b]) (simp_all add: new_TransactionManager_def)
  then show ?thesis by (auto simp: example_txns_def txn_init_def b)
qed

lemma is_transaction_committed_correct_witness:
  "\<not> is_transaction_committed 1 (snd example_txns) \<and> is_transaction_committed 2 (snd example_txns)"
proof -
  have ex: "txn_step\<^sup>*\<^sup>* txn_init (fst example_txns, snd example_txns)"
    using example_txns_reachable by simp
  have "fst example_txns 1 \<noteq> None \<and> txn_state (the (fst example_txns 1)) = ACTIVE"
    "fst example_txns 2 = None"
    by (simp_all add: example_txns_def begin_transaction_def get_current_timestamp_def
        new_TransactionManager_def new_Transaction_def Let_def)
  then show ?thesis
    using is_transaction_committed_correct [OF ex, of 1]
      is_transaction_committed_correct [OF ex, of 2] by (auto split: option.splits)
qed

text \<open>
  C31. A transaction ends once: after a commit or an abort its object never changes again in
  any continuation, a further commit or abort returns false and changes nothing, and the
  answer about it stays the same.
\<close>

theorem transaction_outcome_final:
  assumes "txn_step\<^sup>*\<^sup>* txn_init (txns, tm)" and "txn_step\<^sup>*\<^sup>* (txns, tm) (txns', tm')"
    and "txns tid = Some txn" and "txn_state txn \<noteq> ACTIVE"
  shows "txns' tid = Some txn \<and>
         commit_transaction txn tm' = (False, txn, tm') \<and>
         abort_transaction txn tm' = (False, txn, tm') \<and>
         (is_transaction_committed tid tm' \<longleftrightarrow> txn_state txn = COMMITTED)"
proof -
  have wf: "wf_txn (txns, tm)" using assms(1) by (rule wf_txn_reachable)
  have "fst y tid = Some txn \<and> wf_txn y" if "txn_step\<^sup>*\<^sup>* (txns, tm) y" for y
    using that
  proof (induction rule: rtranclp_induct)
    case base
    then show ?case using wf assms(3) by simp
  next
    case (step y z)
    then show ?case
      using finished_transaction_stable [OF step(2) _ _ assms(4)] wf_txn_step [OF step(2)] by blast
  qed
  from this [OF assms(2)] have end': "txns' tid = Some txn" "wf_txn (txns', tm')" by simp_all
  then show ?thesis
    using committed_iff [OF end'(2)] assms(4)
    by (simp add: commit_transaction_def abort_transaction_def)
qed

lemma transaction_outcome_final_witness:
  "let (ok, t, tm) = commit_transaction (the (fst example_txns 1)) (snd example_txns)
   in commit_transaction t tm = (False, t, tm) \<and> abort_transaction t tm = (False, t, tm) \<and>
      is_transaction_committed 1 tm"
proof -
  let ?txns = "fst example_txns" and ?tm = "snd example_txns"
  obtain ok t tm where c: "commit_transaction (the (?txns 1)) ?tm = (ok, t, tm)"
    using prod_cases3 by blast
  have some: "?txns 1 = Some (the (?txns 1))" "txn_state (the (?txns 1)) = ACTIVE"
    "current_timestamp ?tm \<noteq> - 1"
    by (simp_all add: example_txns_def begin_transaction_def get_current_timestamp_def
        new_TransactionManager_def new_Transaction_def Let_def)
  have "txn_step (?txns, ?tm) (?txns(1 \<mapsto> t), tm)"
    using some(1) c some(3) by (rule txn_step.commit_txn)
  moreover have "txn_step\<^sup>*\<^sup>* txn_init (?txns, ?tm)" using example_txns_reachable by simp
  ultimately have reach: "txn_step\<^sup>*\<^sup>* txn_init (?txns(1 \<mapsto> t), tm)" by (rule rtranclp.rtrancl_into_rtrancl [rotated])
  have st: "txn_state t = COMMITTED"
    using c some(2)
    by (auto simp: commit_transaction_def get_current_timestamp_def Let_def split: if_splits)
  from transaction_outcome_final [OF reach rtranclp.rtrancl_refl, of 1 t] st show ?thesis
    by (simp add: c)
qed

end
