(* ===== verification/LockManager.thy ===== *)
theory LockManager
  imports LorePrelude Transactions
begin

text \<open>
  \<open>transaction/lock_manager.h\<close> and \<open>transaction/lock_manager.cpp\<close>: shared and exclusive
  locks on resources, and detection of deadlocks by a depth-first search of the waits-for
  graph. \<open>LockManager::lock\<close> blocks on a condition variable; what it does between two
  waits, under the mutex, is one step (\<open>lock_try\<close>) with three outcomes: granted, refused
  because of a deadlock, or waiting, to be tried again after a notification.
\<close>

section \<open>The state\<close>

type_synonym resource_id = u64

datatype lock_mode = SHARED | EXCLUSIVE

record LockRequest =
  req_tx :: transaction_id
  req_mode :: lock_mode
  req_granted :: bool

record LockManager =
  lock_table :: "resource_id \<Rightarrow> LockRequest list option"
  waits_for_graph :: "transaction_id \<Rightarrow> transaction_id list option"

definition new_LockManager :: LockManager where
  "new_LockManager = \<lparr>lock_table = (\<lambda>_. None), waits_for_graph = (\<lambda>_. None)\<rparr>"

text \<open>\<open>map[key]\<close> of a \<open>std::unordered_map\<close>: a missing key is inserted with a default.\<close>

definition at_or_insert :: "'v \<Rightarrow> 'k \<Rightarrow> ('k \<Rightarrow> 'v option) \<Rightarrow> 'v \<times> ('k \<Rightarrow> 'v option)" where
  "at_or_insert d k m =
     (case m k of Some v \<Rightarrow> (v, m) | None \<Rightarrow> (d, m(k \<mapsto> d)))"

section \<open>Deadlock detection\<close>

record search =
  visited :: "transaction_id \<Rightarrow> bool option"
  recursion_stack :: "transaction_id \<Rightarrow> bool option"
  graph :: "transaction_id \<Rightarrow> transaction_id list option"

text \<open>The first two statements of \<open>has_cycle\<close> and the list the loop runs over.\<close>

definition enter :: "transaction_id \<Rightarrow> search \<Rightarrow> transaction_id list \<times> search" where
  "enter u s =
     (case at_or_insert [] u (graph s) of
        (successors, g) \<Rightarrow>
          (successors,
           s\<lparr>visited := (visited s)(u \<mapsto> True),
             recursion_stack := (recursion_stack s)(u \<mapsto> True), graph := g\<rparr>))"

definition leave :: "transaction_id \<Rightarrow> search \<Rightarrow> search" where
  "leave u s = s\<lparr>recursion_stack := (recursion_stack s)(u \<mapsto> False)\<rparr>"

definition visited_at :: "transaction_id \<Rightarrow> search \<Rightarrow> bool \<times> search" where
  "visited_at v s =
     (case at_or_insert False v (visited s) of (b, m) \<Rightarrow> (b, s\<lparr>visited := m\<rparr>))"

definition on_stack_at :: "transaction_id \<Rightarrow> search \<Rightarrow> bool \<times> search" where
  "on_stack_at v s =
     (case at_or_insert False v (recursion_stack s) of
        (b, m) \<Rightarrow> (b, s\<lparr>recursion_stack := m\<rparr>))"

text \<open>
  The loop of \<open>has_cycle\<close> over the successors of a transaction, with the recursive call
  inlined: \<open>visited[v]\<close> has just inserted \<open>v\<close>, so the call's first test succeeds.
\<close>

function has_cycle_loop :: "transaction_id list \<Rightarrow> search \<Rightarrow> bool \<times> search" where
  "has_cycle_loop [] s = (False, s)"
| "has_cycle_loop (v # vs) s =
     (let (seen, s) = visited_at v s
      in if \<not> seen then
           let (successors, s) = enter v s;
               (found, s) = has_cycle_loop successors s
           in if found then (True, s) else has_cycle_loop vs (leave v s)
         else
           let (on_stack, s) = on_stack_at v s
           in if on_stack then (True, s) else has_cycle_loop vs s)"
  by pat_completeness auto

definition unvisited :: "search \<Rightarrow> transaction_id set" where
  "unvisited s = {v. visited s v \<noteq> Some True}"

lemma finite_unvisited [simp]: "finite (unvisited s)"
  by (rule finite_subset [OF subset_UNIV finite])

lemma unvisited_simps [simp]:
  "unvisited (snd (visited_at v s)) = unvisited s"
  "unvisited (snd (on_stack_at v s)) = unvisited s"
  "unvisited (snd (enter v s)) = unvisited s - {v}"
  "unvisited (leave v s) = unvisited s"
  by (auto simp: unvisited_def visited_at_def on_stack_at_def enter_def leave_def
      at_or_insert_def split: option.splits)

lemma visited_at_False:
  "visited_at v s = (False, s') \<Longrightarrow> v \<in> unvisited s'"
  by (auto simp: unvisited_def visited_at_def at_or_insert_def split: option.splits)

lemma has_cycle_loop_unvisited:
  "has_cycle_loop_dom (vs, s) \<Longrightarrow> unvisited (snd (has_cycle_loop vs s)) \<subseteq> unvisited s"
proof (induction vs s rule: has_cycle_loop.pinduct)
  case (1 s)
  then show ?case by (simp add: has_cycle_loop.psimps)
next
  case (2 v vs s)
  obtain seen s1 where s1: "visited_at v s = (seen, s1)" by fastforce
  have u1: "unvisited s1 = unvisited s" using unvisited_simps(1) [of v s] by (simp add: s1)
  show ?case
  proof (cases seen)
    case True
    obtain b s2 where s2: "on_stack_at v s1 = (b, s2)" by fastforce
    have u2: "unvisited s2 = unvisited s" using unvisited_simps(2) [of v s1] u1 by (simp add: s2)
    show ?thesis
    proof (cases b)
      case b: True
      then show ?thesis
        by (simp add: has_cycle_loop.psimps(2) [OF 2(1)] s1 s2 True u2)
    next
      case b: False
      have "unvisited (snd (has_cycle_loop vs s2)) \<subseteq> unvisited s2"
        by (rule 2(4) [OF refl s1 [symmetric] _ refl s2 [symmetric]]) (simp_all add: True b)
      then show ?thesis
        by (simp add: has_cycle_loop.psimps(2) [OF 2(1)] s1 s2 True u2 b)
    qed
  next
    case False
    obtain ss s2 where s2: "enter v s1 = (ss, s2)" by fastforce
    obtain found s3 where s3: "has_cycle_loop ss s2 = (found, s3)" by fastforce
    have u2: "unvisited s2 \<subseteq> unvisited s"
      using unvisited_simps(3) [of v s1] u1 by (auto simp: s2)
    have "unvisited (snd (has_cycle_loop ss s2)) \<subseteq> unvisited s2"
      by (rule 2(2) [OF refl s1 [symmetric] _ refl s2 [symmetric]]) (simp add: False)
    then have u3: "unvisited s3 \<subseteq> unvisited s" using u2 by (simp add: s3)
    show ?thesis
    proof (cases found)
      case found: True
      then show ?thesis
        using u3 by (simp add: has_cycle_loop.psimps(2) [OF 2(1)] s1 s2 s3 False)
    next
      case found: False
      have "unvisited (snd (has_cycle_loop vs (leave v s3))) \<subseteq> unvisited (leave v s3)"
        by (rule 2(3) [OF refl s1 [symmetric] _ refl s2 [symmetric] refl s3 [symmetric]])
          (simp_all add: False found)
      then show ?thesis
        using u3 found
        by (auto simp: has_cycle_loop.psimps(2) [OF 2(1)] s1 s2 s3 False)
    qed
  qed
qed

termination has_cycle_loop
proof (relation "measures [\<lambda>(vs, s). card (unvisited s), \<lambda>(vs, s). length vs]", goal_cases)
  case 1
  show ?case by simp
next
  case (2 v vs s p seen s1 q ss s2)
  then have s1: "visited_at v s = (False, s1)" and s2: "enter v s1 = (ss, s2)" by simp_all
  from visited_at_False [OF s1] have "card (unvisited s1 - {v}) < card (unvisited s1)"
    by (intro card_Diff1_less) simp_all
  moreover have "unvisited s1 = unvisited s" using unvisited_simps(1) [of v s] by (simp only: s1 snd_conv)
  moreover have "unvisited s2 = unvisited s1 - {v}"
    using unvisited_simps(3) [of v s1] by (simp only: s2 snd_conv)
  ultimately show ?case by simp
next
  case (3 v vs s p seen s1 q ss s2 r found s3)
  then have s1: "visited_at v s = (False, s1)" and s2: "enter v s1 = (ss, s2)"
    and s3: "has_cycle_loop ss s2 = (found, s3)" by simp_all
  from has_cycle_loop_unvisited [OF 3(9)] have "unvisited s3 \<subseteq> unvisited s2"
    by (simp only: s3 snd_conv)
  moreover have "unvisited s1 = unvisited s" using unvisited_simps(1) [of v s] by (simp only: s1 snd_conv)
  moreover have "unvisited s2 = unvisited s1 - {v}"
    using unvisited_simps(3) [of v s1] by (simp only: s2 snd_conv)
  moreover note visited_at_False [OF s1]
  ultimately have "unvisited (leave v s3) \<subset> unvisited s" by auto
  then have "card (unvisited (leave v s3)) < card (unvisited s)"
    by (intro psubset_card_mono) simp_all
  then show ?case by simp
next
  case (4 v vs s p seen s1 q b s2)
  then have s1: "visited_at v s = (seen, s1)" and s2: "on_stack_at v s1 = (b, s2)" by simp_all
  have "unvisited s1 = unvisited s" using unvisited_simps(1) [of v s] by (simp only: s1 snd_conv)
  moreover have "unvisited s2 = unvisited s1"
    using unvisited_simps(2) [of v s1] by (simp only: s2 snd_conv)
  ultimately show ?case by simp
qed

declare has_cycle_loop.simps [simp del]

text \<open>\<open>has_cycle\<close> itself, and \<open>detect_deadlock\<close>, which also leaves the graph as the search does.\<close>

definition has_cycle :: "transaction_id \<Rightarrow> search \<Rightarrow> bool \<times> search" where
  "has_cycle u s =
     (if visited s u = None then (False, s)
      else
        let (successors, s) = enter u s;
            (found, s) = has_cycle_loop successors s
        in if found then (True, s) else (False, leave u s))"

definition detect_deadlock ::
  "transaction_id \<Rightarrow> (transaction_id \<Rightarrow> transaction_id list option) \<Rightarrow>
     bool \<times> (transaction_id \<Rightarrow> transaction_id list option)" where
  "detect_deadlock start_tx g =
     (let unmarked = (\<lambda>u. map_option (\<lambda>_. False) (g u));
          (found, s) = has_cycle start_tx
            \<lparr>visited = unmarked, recursion_stack = unmarked, graph = g\<rparr>
      in (found, graph s))"

text \<open>The loop is the one that calls \<open>has_cycle\<close> for every unvisited successor.\<close>

lemma has_cycle_loop_call:
  "has_cycle_loop (v # vs) s =
     (let (seen, s) = visited_at v s
      in if \<not> seen then
           let (found, s) = has_cycle v s in if found then (True, s) else has_cycle_loop vs s
         else
           let (on_stack, s) = on_stack_at v s
           in if on_stack then (True, s) else has_cycle_loop vs s)"
proof -
  obtain seen s1 where s1: "visited_at v s = (seen, s1)" by fastforce
  then have "visited s1 v \<noteq> None"
    by (auto simp: visited_at_def at_or_insert_def split: option.splits)
  then obtain y where "visited s1 v = Some y" by blast
  moreover obtain ss s2 where "enter v s1 = (ss, s2)" by fastforce
  moreover obtain found s3 where "has_cycle_loop ss s2 = (found, s3)" by fastforce
  ultimately show ?thesis
    by (cases found) (simp_all add: has_cycle_loop.simps(2) has_cycle_def s1)
qed

section \<open>Locking\<close>

definition conflicts :: "transaction_id \<Rightarrow> lock_mode \<Rightarrow> LockRequest \<Rightarrow> bool" where
  "conflicts tx_id mode req \<longleftrightarrow>
     (if req_tx req = tx_id then False
      else if mode = EXCLUSIVE \<or> req_mode req = EXCLUSIVE then True
      else False)"

datatype lock_outcome = Granted | Deadlock | Waiting

definition lock_try ::
  "transaction_id \<Rightarrow> resource_id \<Rightarrow> lock_mode \<Rightarrow> LockManager \<Rightarrow> lock_outcome \<times> LockManager" where
  "lock_try tx_id resource_id mode lm =
     (let (requests, table) = at_or_insert [] resource_id (lock_table lm);
          lm = lm\<lparr>lock_table := table\<rparr>
      in if list_ex (conflicts tx_id mode) requests then
           let blockers = map req_tx (filter (\<lambda>req. req_tx req \<noteq> tx_id \<and>
                 (mode = EXCLUSIVE \<or> req_mode req = EXCLUSIVE)) requests);
               (dead, g) = detect_deadlock tx_id ((waits_for_graph lm)(tx_id \<mapsto> blockers))
           in if dead then (Deadlock, lm\<lparr>waits_for_graph := g(tx_id := None)\<rparr>)
              else (Waiting, lm\<lparr>waits_for_graph := g\<rparr>)
         else
           (Granted,
            lm\<lparr>lock_table := (lock_table lm)(resource_id \<mapsto>
                 requests @ [\<lparr>req_tx = tx_id, req_mode = mode, req_granted = True\<rparr>]),
               waits_for_graph := (waits_for_graph lm)(tx_id := None)\<rparr>))"

definition unlock :: "transaction_id \<Rightarrow> resource_id \<Rightarrow> LockManager \<Rightarrow> LockManager" where
  "unlock tx_id resource_id lm =
     (case lock_table lm resource_id of
        None \<Rightarrow> lm
      | Some requests \<Rightarrow>
          lm\<lparr>lock_table := (lock_table lm)(resource_id \<mapsto>
               filter (\<lambda>req. req_tx req \<noteq> tx_id) requests)\<rparr>)"

definition unlock_all :: "transaction_id \<Rightarrow> LockManager \<Rightarrow> LockManager" where
  "unlock_all tx_id lm =
     lm\<lparr>lock_table := (\<lambda>r. map_option (filter (\<lambda>req. req_tx req \<noteq> tx_id)) (lock_table lm r)),
        waits_for_graph := (waits_for_graph lm)(tx_id := None)\<rparr>"

section \<open>The search finds exactly the reachable cycles\<close>

definition edges :: "(transaction_id \<Rightarrow> transaction_id list option) \<Rightarrow> (transaction_id \<times> transaction_id) set" where
  "edges g = {(u, v). \<exists>vs. g u = Some vs \<and> v \<in> set vs}"

definition seen_set :: "search \<Rightarrow> transaction_id set" where
  "seen_set s = {v. visited s v = Some True}"

definition stack_set :: "search \<Rightarrow> transaction_id set" where
  "stack_set s = {v. recursion_stack s v = Some True}"

lemma visited_atD:
  assumes "visited_at v s = (b, s')"
  shows "b \<longleftrightarrow> v \<in> seen_set s" "seen_set s' = seen_set s" "stack_set s' = stack_set s"
    "edges (graph s') = edges (graph s)"
  using assms
  by (auto simp: visited_at_def at_or_insert_def seen_set_def stack_set_def
      split: option.splits if_splits)

lemma on_stack_atD:
  assumes "on_stack_at v s = (b, s')"
  shows "b \<longleftrightarrow> v \<in> stack_set s" "seen_set s' = seen_set s" "stack_set s' = stack_set s"
    "edges (graph s') = edges (graph s)"
  using assms
  by (auto simp: on_stack_at_def at_or_insert_def seen_set_def stack_set_def
      split: option.splits if_splits)

lemma enterD:
  assumes "enter v s = (successors, s')"
  shows "set successors = {w. (v, w) \<in> edges (graph s)}" "seen_set s' = insert v (seen_set s)"
    "stack_set s' = insert v (stack_set s)" "edges (graph s') = edges (graph s)"
  using assms
  by (auto simp: enter_def at_or_insert_def seen_set_def stack_set_def edges_def
      split: option.splits if_splits)

lemma leaveD:
  "seen_set (leave v s) = seen_set s" "stack_set (leave v s) = stack_set s - {v}"
  "edges (graph (leave v s)) = edges (graph s)"
  by (auto simp: leave_def seen_set_def stack_set_def)

text \<open>
  The finished nodes are closed under the edges and on no cycle; the stack is a path to the
  node whose successors are being searched.
\<close>

definition search_inv :: "(transaction_id \<times> transaction_id) set \<Rightarrow> search \<Rightarrow> bool" where
  "search_inv E s \<longleftrightarrow>
     edges (graph s) = E \<and> stack_set s \<subseteq> seen_set s \<and>
     (\<forall>b \<in> seen_set s - stack_set s. \<forall>w. (b, w) \<in> E \<longrightarrow> w \<in> seen_set s - stack_set s) \<and>
     (\<forall>b \<in> seen_set s - stack_set s. (b, b) \<notin> E\<^sup>+)"

lemma closed_rtrancl:
  assumes "(v, w) \<in> E\<^sup>*" and "v \<in> B" and "\<And>b x. b \<in> B \<Longrightarrow> (b, x) \<in> E \<Longrightarrow> x \<in> B"
  shows "w \<in> B"
  using assms by (induction rule: rtrancl_induct) auto

lemma search_invD:
  assumes "search_inv E s"
  shows "edges (graph s) = E" "stack_set s \<subseteq> seen_set s"
    "\<And>b w. b \<in> seen_set s - stack_set s \<Longrightarrow> (b, w) \<in> E \<Longrightarrow> w \<in> seen_set s - stack_set s"
    "\<And>b. b \<in> seen_set s - stack_set s \<Longrightarrow> (b, b) \<notin> E\<^sup>+"
  using assms unfolding search_inv_def by blast+

lemma search_inv_leave:
  assumes inv: "search_inv E s" and v: "v \<in> stack_set s"
    and succ: "\<And>w. (v, w) \<in> E \<Longrightarrow> w \<in> seen_set s - stack_set s"
  shows "search_inv E (leave v s)"
proof -
  let ?B = "seen_set s - stack_set s"
  note inv = search_invD [OF inv]
  have v': "v \<in> seen_set s" "v \<notin> ?B" using inv(2) v by blast+
  have "(v, v) \<notin> E\<^sup>+"
  proof
    assume "(v, v) \<in> E\<^sup>+"
    then obtain w where w: "(v, w) \<in> E" "(w, v) \<in> E\<^sup>*" by (rule tranclD [THEN exE]) blast
    from w(2) succ [OF w(1)] have "v \<in> ?B" by (rule closed_rtrancl) (rule inv(3))
    with v'(2) show False by contradiction
  qed
  then have acyclic: "\<forall>b \<in> insert v ?B. (b, b) \<notin> E\<^sup>+" using inv(4) by blast
  have B: "seen_set s - (stack_set s - {v}) = insert v ?B" using v' by blast
  have "\<forall>b \<in> insert v ?B. \<forall>w. (b, w) \<in> E \<longrightarrow> w \<in> insert v ?B"
    using succ inv(3) by blast
  moreover have "stack_set s - {v} \<subseteq> seen_set s" using inv(2) by blast
  ultimately show ?thesis
    unfolding search_inv_def leaveD B using acyclic inv(1) by (intro conjI)
qed


text \<open>The relation of the search to the state it starts from, when it finds nothing.\<close>

definition searched :: "transaction_id list \<Rightarrow> search \<Rightarrow> search \<Rightarrow> bool" where
  "searched vs s s' \<longleftrightarrow>
     stack_set s' = stack_set s \<and> seen_set s \<subseteq> seen_set s' \<and>
     set vs \<subseteq> seen_set s' - stack_set s'"

definition cycle_from :: "(transaction_id \<times> transaction_id) set \<Rightarrow> transaction_id \<Rightarrow> bool" where
  "cycle_from E u \<longleftrightarrow> (\<exists>c. (u, c) \<in> E\<^sup>* \<and> (c, c) \<in> E\<^sup>+)"

lemma cycle_from_step: "(u, v) \<in> E \<Longrightarrow> cycle_from E v \<Longrightarrow> cycle_from E u"
  unfolding cycle_from_def by (elim exE conjE, rule exI, rule conjI, rule converse_rtrancl_into_rtrancl)

lemma search_inv_cong:
  "search_inv E s \<Longrightarrow> seen_set s' = seen_set s \<Longrightarrow> stack_set s' = stack_set s \<Longrightarrow>
     edges (graph s') = edges (graph s) \<Longrightarrow> search_inv E s'"
  unfolding search_inv_def by (elim conjE, intro conjI) (simp_all only:)

lemma search_inv_enter:
  assumes inv: "search_inv E s" and e: "enter v s = (ss, s')" and v: "v \<notin> seen_set s"
  shows "search_inv E s'"
proof -
  note inv = search_invD [OF inv]
  have same: "seen_set s' - stack_set s' = seen_set s - stack_set s"
    unfolding enterD(2,3) [OF e] using v by blast
  have "stack_set s' \<subseteq> seen_set s'" unfolding enterD(2,3) [OF e] using inv(2) by blast
  moreover have "edges (graph s') = E" by (simp only: enterD(4) [OF e] inv(1))
  ultimately show ?thesis
    unfolding search_inv_def same using inv(3,4) by blast
qed

lemma has_cycle_loop_correct:
  assumes "search_inv E s" and "\<forall>v \<in> set vs. (x, v) \<in> E" and "\<forall>g \<in> stack_set s. (g, x) \<in> E\<^sup>*"
    and "has_cycle_loop vs s = (found, s')"
  shows "(found \<longrightarrow> (\<exists>v \<in> set vs. cycle_from E v)) \<and>
         (\<not> found \<longrightarrow> search_inv E s' \<and> searched vs s s')"
  using assms
proof (induction vs s arbitrary: x found s' rule: has_cycle_loop.induct)
  case (1 s)
  then show ?case by (simp add: has_cycle_loop.simps searched_def)
next
  case (2 v vs s)
  obtain seen s1 where s1: "visited_at v s = (seen, s1)" by fastforce
  note V = visited_atD [OF s1]
  have inv1: "search_inv E s1" using 2(4) by (rule search_inv_cong) (simp_all add: V)
  show ?case
  proof (cases seen)
    case True
    obtain b s2 where s2: "on_stack_at v s1 = (b, s2)" by fastforce
    note W = on_stack_atD [OF s2]
    have inv2: "search_inv E s2" using inv1 by (rule search_inv_cong) (simp_all add: W)
    show ?thesis
    proof (cases b)
      case b: True
      then have "(v, x) \<in> E\<^sup>*" using W(1) V(3) 2(6) by simp
      moreover have "(x, v) \<in> E" using 2(5) by simp
      ultimately have "cycle_from E v" unfolding cycle_from_def by (meson rtrancl_into_trancl1 rtrancl.rtrancl_refl)
      moreover have "found" using 2(7) b True by (simp add: has_cycle_loop.simps s1 s2)
      ultimately show ?thesis by simp
    next
      case b: False
      have run: "has_cycle_loop vs s2 = (found, s')"
        using 2(7) b True by (simp add: has_cycle_loop.simps s1 s2)
      have IH: "(found \<longrightarrow> (\<exists>v \<in> set vs. cycle_from E v)) \<and>
          (\<not> found \<longrightarrow> search_inv E s' \<and> searched vs s2 s')"
        by (rule 2(3) [OF refl s1 [symmetric] _ refl s2 [symmetric] _ inv2 _ _ run])
          (use True b 2(5,6) in \<open>simp_all add: W V\<close>)
      have "v \<in> seen_set s - stack_set s" using V(1,3) W(1) True b by blast
      then show ?thesis using IH by (auto simp: searched_def W V)
    qed
  next
    case False
    obtain ss s2 where s2: "enter v s1 = (ss, s2)" by fastforce
    obtain f3 s3 where s3: "has_cycle_loop ss s2 = (f3, s3)" by fastforce
    note W = enterD [OF s2]
    have v: "v \<notin> seen_set s1" using V False by simp
    have inv2: "search_inv E s2" using inv1 s2 v by (rule search_inv_enter)
    have E: "edges (graph s1) = E" using inv1 by (simp add: search_inv_def)
    have xv: "(x, v) \<in> E" using 2(5) by simp
    have to_v: "\<forall>g \<in> stack_set s2. (g, v) \<in> E\<^sup>*"
      using 2(6) xv unfolding W V by (auto intro: rtrancl_into_rtrancl)
    have IH1: "(f3 \<longrightarrow> (\<exists>w \<in> set ss. cycle_from E w)) \<and>
        (\<not> f3 \<longrightarrow> search_inv E s3 \<and> searched ss s2 s3)"
      by (rule 2(1) [OF refl s1 [symmetric] _ refl s2 [symmetric] inv2 _ to_v s3])
        (use False W(1) E in simp_all)
    show ?thesis
    proof (cases f3)
      case f3: True
      then have "cycle_from E v" using IH1 W(1) E cycle_from_step by blast
      moreover have "found" using 2(7) f3 False by (simp add: has_cycle_loop.simps s1 s2 s3)
      ultimately show ?thesis by simp
    next
      case f3: False
      have run: "has_cycle_loop vs (leave v s3) = (found, s')"
        using 2(7) f3 False by (simp add: has_cycle_loop.simps s1 s2 s3)
      have inv3: "search_inv E s3" and se: "searched ss s2 s3" using IH1 f3 by simp_all
      have st3: "stack_set s3 = insert v (stack_set s)" and sub3: "seen_set s2 \<subseteq> seen_set s3"
        using se by (simp_all add: searched_def W V)
      have inv4: "search_inv E (leave v s3)"
        by (rule search_inv_leave [OF inv3]) (use st3 se W(1) E in \<open>auto simp: searched_def\<close>)
      have nst: "v \<notin> stack_set s" using v V search_invD(2) [OF inv1] by auto
      have stack4: "stack_set (leave v s3) = stack_set s"
        using st3 nst by (simp add: leaveD)
      have IH2: "(found \<longrightarrow> (\<exists>v \<in> set vs. cycle_from E v)) \<and>
          (\<not> found \<longrightarrow> search_inv E s' \<and> searched vs (leave v s3) s')"
        by (rule 2(2) [OF refl s1 [symmetric] _ refl s2 [symmetric] refl s3 [symmetric] _ inv4 _ _ run])
          (use False f3 2(5,6) stack4 in simp_all)
      have "v \<in> seen_set s3" "seen_set s \<subseteq> seen_set s3"
        using sub3 by (auto simp: W V)
      then show ?thesis
        using IH2 stack4 nst by (auto simp: searched_def leaveD)
    qed
  qed
qed

lemma detect_deadlock_correct:
  assumes "detect_deadlock u g = (found, g')"
  shows "found \<longleftrightarrow> cycle_from (edges g) u" "\<not> found \<Longrightarrow> edges g' = edges g"
proof -
  let ?m = "\<lambda>u. map_option (\<lambda>_. False) (g u)"
  let ?s = "\<lparr>visited = ?m, recursion_stack = ?m, graph = g\<rparr>"
  have empty: "seen_set ?s = {}" "stack_set ?s = {}"
    by (auto simp: seen_set_def stack_set_def map_option_case split: option.splits)
  have inv: "search_inv (edges g) ?s" by (simp add: search_inv_def empty)
  have *: "(found \<longleftrightarrow> cycle_from (edges g) u) \<and> (\<not> found \<longrightarrow> edges g' = edges g)"
  proof (cases "g u")
    case None
    then have none: "(u, w) \<notin> edges g" for w by (simp add: edges_def)
    have "\<not> cycle_from (edges g) u"
    proof
      assume "cycle_from (edges g) u"
      then obtain c where c: "(u, c) \<in> (edges g)\<^sup>*" "(c, c) \<in> (edges g)\<^sup>+"
        unfolding cycle_from_def by blast
      from c(1) have "c = u" by (rule converse_rtranclE) (use none in blast)+
      with c(2) have "(u, u) \<in> (edges g)\<^sup>+" by simp
      then show False by (rule tranclD [THEN exE]) (use none in blast)
    qed
    then show ?thesis
      using assms None by (auto simp: detect_deadlock_def has_cycle_def)
  next
    case (Some l)
    obtain ss s2 where s2: "enter u ?s = (ss, s2)" by fastforce
    obtain f s3 where s3: "has_cycle_loop ss s2 = (f, s3)" by fastforce
    note W = enterD [OF s2, simplified empty]
    have inv2: "search_inv (edges g) s2" using inv s2 by (rule search_inv_enter) (simp add: empty)
    have A: "(f \<longrightarrow> (\<exists>v \<in> set ss. cycle_from (edges g) v)) \<and>
        (\<not> f \<longrightarrow> search_inv (edges g) s3 \<and> searched ss s2 s3)"
      by (rule has_cycle_loop_correct [OF inv2, of _ u, OF _ _ s3]) (simp_all add: W)
    have r: "found = f" "\<not> f \<Longrightarrow> edges g' = edges (graph s3)"
      using assms Some
      by (auto simp: detect_deadlock_def has_cycle_def s2 s3 leaveD split: if_splits)
    show ?thesis
    proof (cases f)
      case True
      with A obtain v where v: "v \<in> set ss" "cycle_from (edges g) v" by blast
      have "(u, v) \<in> edges g" using v(1) by (simp only: W(1) mem_Collect_eq) simp
      then have "cycle_from (edges g) u" using v(2) by (rule cycle_from_step)
      then show ?thesis using r(1) True by simp
    next
      case False
      with A have inv3: "search_inv (edges g) s3" and se: "searched ss s2 s3" by blast+
      have st: "stack_set s3 = {u}" "seen_set s2 \<subseteq> seen_set s3"
        "set ss \<subseteq> seen_set s3 - stack_set s3"
        using se unfolding searched_def W(3) by blast+
      have inv4: "search_inv (edges g) (leave u s3)"
      proof (rule search_inv_leave [OF inv3])
        show "u \<in> stack_set s3" by (simp add: st(1))
        show "w \<in> seen_set s3 - stack_set s3" if "(u, w) \<in> edges g" for w
        proof -
          have "w \<in> set ss" using that by (simp add: W(1))
          then show ?thesis using st(3) by blast
        qed
      qed
      have "u \<in> seen_set s3" using st(2) by (simp add: W(2) subset_iff)
      then have black: "u \<in> seen_set (leave u s3) - stack_set (leave u s3)"
        by (simp add: leaveD st(1))
      have "\<not> cycle_from (edges g) u"
      proof
        assume "cycle_from (edges g) u"
        then obtain c where c: "(u, c) \<in> (edges g)\<^sup>*" "(c, c) \<in> (edges g)\<^sup>+"
          unfolding cycle_from_def by blast
        from c(1) black have "c \<in> seen_set (leave u s3) - stack_set (leave u s3)"
          by (rule closed_rtrancl) (rule search_invD(3) [OF inv4])
        then have "(c, c) \<notin> (edges g)\<^sup>+" by (rule search_invD(4) [OF inv4])
        with c(2) show False by contradiction
      qed
      then show ?thesis using r False search_invD(1) [OF inv3] by simp
    qed
  qed
  then show "found \<longleftrightarrow> cycle_from (edges g) u" "\<not> found \<Longrightarrow> edges g' = edges g" by simp_all
qed

section \<open>The invariant of the lock table and of the waits\<close>

lemma has_cycle_loop_edges: "edges (graph (snd (has_cycle_loop vs s))) = edges (graph s)"
proof (induction vs s rule: has_cycle_loop.induct)
  case (1 s)
  then show ?case by (simp add: has_cycle_loop.simps)
next
  case (2 v vs s)
  obtain seen s1 where s1: "visited_at v s = (seen, s1)" by fastforce
  obtain b s2 where s2: "on_stack_at v s1 = (b, s2)" by fastforce
  obtain ss s3 where s3: "enter v s1 = (ss, s3)" by fastforce
  obtain f s4 where s4: "has_cycle_loop ss s3 = (f, s4)" by fastforce
  note E = visited_atD(4) [OF s1] on_stack_atD(4) [OF s2] enterD(4) [OF s3]
  show ?case
  proof (cases seen)
    case True
    then show ?thesis
      using 2(3) [OF refl s1 [symmetric] _ refl s2 [symmetric]] E
      by (simp add: has_cycle_loop.simps s1 s2)
  next
    case False
    have "edges (graph s4) = edges (graph s3)"
      using 2(1) [OF refl s1 [symmetric] _ refl s3 [symmetric]] False by (simp add: s4)
    then show ?thesis
      using 2(2) [OF refl s1 [symmetric] _ refl s3 [symmetric] refl s4 [symmetric]] E False
      by (simp add: has_cycle_loop.simps s1 s3 s4 leaveD)
  qed
qed

lemma detect_deadlock_edges:
  assumes "detect_deadlock u g = (found, g')"
  shows "edges g' = edges g"
proof -
  let ?m = "\<lambda>u. map_option (\<lambda>_. False) (g u)"
  let ?s = "\<lparr>visited = ?m, recursion_stack = ?m, graph = g\<rparr>"
  obtain ss s2 where s2: "enter u ?s = (ss, s2)" by fastforce
  obtain f s3 where s3: "has_cycle_loop ss s2 = (f, s3)" by fastforce
  have "edges (graph s3) = edges g"
    using has_cycle_loop_edges [of ss s2] enterD(4) [OF s2] by (simp add: s3)
  then show ?thesis
    using assms
    by (cases "g u"; cases f) (auto simp: detect_deadlock_def has_cycle_def s2 s3 leave_def)
qed

definition requests_at :: "LockManager \<Rightarrow> resource_id \<Rightarrow> LockRequest list" where
  "requests_at lm r = (case lock_table lm r of None \<Rightarrow> [] | Some reqs \<Rightarrow> reqs)"

definition exclusive_locks :: "LockManager \<Rightarrow> bool" where
  "exclusive_locks lm \<longleftrightarrow>
     (\<forall>r. \<forall>a \<in> set (requests_at lm r). \<forall>b \<in> set (requests_at lm r). req_tx a \<noteq> req_tx b \<longrightarrow>
        req_mode a = SHARED \<and> req_mode b = SHARED)"

definition waits_acyclic :: "LockManager \<Rightarrow> bool" where
  "waits_acyclic lm \<longleftrightarrow> acyclic (edges (waits_for_graph lm))"

inductive lock_step :: "LockManager \<Rightarrow> LockManager \<Rightarrow> bool" where
  try_lock: "lock_step lm (snd (lock_try tx r mode lm))"
| release: "lock_step lm (unlock tx r lm)"
| release_all: "lock_step lm (unlock_all tx lm)"

lemma conflicts_iff:
  "conflicts tx mode req \<longleftrightarrow>
     req_tx req \<noteq> tx \<and> (mode = EXCLUSIVE \<or> req_mode req = EXCLUSIVE)"
  by (simp add: conflicts_def)

definition waits_with ::
  "transaction_id \<Rightarrow> resource_id \<Rightarrow> lock_mode \<Rightarrow> LockManager \<Rightarrow>
     transaction_id \<Rightarrow> transaction_id list option" where
  "waits_with tx r mode lm =
     (waits_for_graph lm)(tx \<mapsto> map req_tx (filter (conflicts tx mode) (requests_at lm r)))"

lemma at_or_insert_requests:
  "at_or_insert [] r (lock_table lm) = (requests_at lm r, (lock_table lm)(r \<mapsto> requests_at lm r))"
  by (simp add: at_or_insert_def requests_at_def fun_upd_idem split: option.splits)

lemma lock_try_eq:
  "lock_try tx r mode lm =
     (if list_ex (conflicts tx mode) (requests_at lm r) then
        case detect_deadlock tx (waits_with tx r mode lm) of (dead, g) \<Rightarrow>
          (if dead
           then (Deadlock, lm\<lparr>lock_table := (lock_table lm)(r \<mapsto> requests_at lm r),
             waits_for_graph := g(tx := None)\<rparr>)
           else (Waiting, lm\<lparr>lock_table := (lock_table lm)(r \<mapsto> requests_at lm r),
             waits_for_graph := g\<rparr>))
      else
        (Granted,
         lm\<lparr>lock_table := (lock_table lm)(r \<mapsto> requests_at lm r @
              [\<lparr>req_tx = tx, req_mode = mode, req_granted = True\<rparr>]),
            waits_for_graph := (waits_for_graph lm)(tx := None)\<rparr>))"
  by (simp add: lock_try_def at_or_insert_requests waits_with_def conflicts_iff [abs_def]
      Let_def)

lemma requests_at_update:
  "lock_table lm' = (lock_table lm)(r \<mapsto> reqs) \<Longrightarrow> requests_at lm' = (requests_at lm)(r := reqs)"
  by (simp add: requests_at_def fun_eq_iff)

lemma edges_without: "edges (g(u := None)) = {(v, w). (v, w) \<in> edges g \<and> v \<noteq> u}"
  by (auto simp: edges_def split: if_splits)

lemma edges_waits_with:
  "{(u, v). (u, v) \<in> edges (waits_with tx r mode lm) \<and> u \<noteq> tx} =
     {(u, v). (u, v) \<in> edges (waits_for_graph lm) \<and> u \<noteq> tx}"
  by (auto simp: edges_def waits_with_def)

text \<open>The three outcomes of an attempt.\<close>

lemma lock_tryE:
  assumes "lock_try tx r mode lm = (out, lm')"
  obtains (granted) "out = Granted" "\<forall>req \<in> set (requests_at lm r). \<not> conflicts tx mode req"
      "waits_for_graph lm' = (waits_for_graph lm)(tx := None)"
      "requests_at lm' = (requests_at lm)(r := requests_at lm r @
         [\<lparr>req_tx = tx, req_mode = mode, req_granted = True\<rparr>])"
  | (deadlock) req where "out = Deadlock" "req \<in> set (requests_at lm r)" "conflicts tx mode req"
      "cycle_from (edges (waits_with tx r mode lm)) tx"
      "edges (waits_for_graph lm') = {(u, v). (u, v) \<in> edges (waits_for_graph lm) \<and> u \<noteq> tx}"
      "requests_at lm' = requests_at lm"
  | (waiting) req where "out = Waiting" "req \<in> set (requests_at lm r)" "conflicts tx mode req"
      "\<not> cycle_from (edges (waits_with tx r mode lm)) tx"
      "edges (waits_for_graph lm') = edges (waits_with tx r mode lm)"
      "requests_at lm' = requests_at lm"
proof -
  obtain dead g where dd: "detect_deadlock tx (waits_with tx r mode lm) = (dead, g)" by fastforce
  note dead = detect_deadlock_correct(1) [OF dd] and g = detect_deadlock_edges [OF dd]
  show thesis
  proof (cases "list_ex (conflicts tx mode) (requests_at lm r)")
    case False
    then have "(out, lm') = (Granted,
        lm\<lparr>lock_table := (lock_table lm)(r \<mapsto> requests_at lm r @
             [\<lparr>req_tx = tx, req_mode = mode, req_granted = True\<rparr>]),
           waits_for_graph := (waits_for_graph lm)(tx := None)\<rparr>)"
      using assms by (simp add: lock_try_eq)
    then have run: "out = Granted" "lm' =
        lm\<lparr>lock_table := (lock_table lm)(r \<mapsto> requests_at lm r @
             [\<lparr>req_tx = tx, req_mode = mode, req_granted = True\<rparr>]),
           waits_for_graph := (waits_for_graph lm)(tx := None)\<rparr>"
      by simp_all
    show thesis
    proof (rule granted [OF run(1)])
      show "\<forall>req \<in> set (requests_at lm r). \<not> conflicts tx mode req"
        using False by (simp add: list_ex_iff)
      show "waits_for_graph lm' = (waits_for_graph lm)(tx := None)" by (simp add: run(2))
      show "requests_at lm' = (requests_at lm)(r := requests_at lm r @
         [\<lparr>req_tx = tx, req_mode = mode, req_granted = True\<rparr>])"
        unfolding run(2) by (rule requests_at_update) simp
    qed
  next
    case True
    then obtain req where req: "req \<in> set (requests_at lm r)" "conflicts tx mode req"
      unfolding list_ex_iff by blast
    have "(out, lm') =
        (if dead
         then (Deadlock, lm\<lparr>lock_table := (lock_table lm)(r \<mapsto> requests_at lm r),
           waits_for_graph := g(tx := None)\<rparr>)
         else (Waiting, lm\<lparr>lock_table := (lock_table lm)(r \<mapsto> requests_at lm r),
           waits_for_graph := g\<rparr>))"
      using assms True by (simp add: lock_try_eq dd)
    then have run: "out = (if dead then Deadlock else Waiting)"
      "lm' = lm\<lparr>lock_table := (lock_table lm)(r \<mapsto> requests_at lm r),
         waits_for_graph := (if dead then g(tx := None) else g)\<rparr>"
      by (cases dead; simp)+
    have "requests_at lm' = (requests_at lm)(r := requests_at lm r)"
      unfolding run(2) by (rule requests_at_update) simp
    then have same: "requests_at lm' = requests_at lm" by simp
    show thesis
    proof (cases dead)
      case d: True
      have "edges (waits_for_graph lm') = edges (g(tx := None))" by (simp add: run(2) d)
      also have "\<dots> = {(u, v). (u, v) \<in> edges g \<and> u \<noteq> tx}" by (rule edges_without)
      also have "\<dots> = {(u, v). (u, v) \<in> edges (waits_for_graph lm) \<and> u \<noteq> tx}"
        unfolding g by (rule edges_waits_with)
      finally have e: "edges (waits_for_graph lm') =
          {(u, v). (u, v) \<in> edges (waits_for_graph lm) \<and> u \<noteq> tx}" .
      show thesis
        by (rule deadlock [OF _ req _ e same]) (use dead d in \<open>simp_all add: run(1)\<close>)
    next
      case d: False
      show thesis
        by (rule waiting [OF _ req _ _ same]) (use dead d in \<open>simp_all add: run g\<close>)
    qed
  qed
qed

lemma acyclic_without_cycle_from:
  assumes E: "acyclic E" and sub: "\<And>u v. (u, v) \<in> E' \<Longrightarrow> u \<noteq> tx \<Longrightarrow> (u, v) \<in> E"
    and tx: "\<not> cycle_from E' tx"
  shows "acyclic E'"
proof (rule acyclicI, rule allI, rule notI)
  fix c
  assume c: "(c, c) \<in> E'\<^sup>+"
  have "(u, v) \<in> E\<^sup>+ \<or> (tx, v) \<in> E'\<^sup>+" if "(u, v) \<in> E'\<^sup>+" for u v
    using that
  proof (induction rule: trancl_induct)
    case (base y)
    then show ?case
      by (cases "u = tx") (simp_all add: r_into_trancl sub)
  next
    case (step y z)
    have yz: "y \<noteq> tx \<Longrightarrow> (y, z) \<in> E" using step(2) by (rule sub)
    show ?case
    proof (cases "y = tx")
      case True
      then show ?thesis using step(2) by (simp add: r_into_trancl)
    next
      case False
      from step(3) show ?thesis
      proof
        assume "(u, y) \<in> E\<^sup>+"
        then have "(u, z) \<in> E\<^sup>+" using yz [OF False] by (rule trancl_into_trancl)
        then show ?thesis ..
      next
        assume "(tx, y) \<in> E'\<^sup>+"
        then have "(tx, z) \<in> E'\<^sup>+" using step(2) by (rule trancl_into_trancl)
        then show ?thesis ..
      qed
    qed
  qed
  from this [OF c] have "(tx, c) \<in> E'\<^sup>+" using E by (simp add: acyclic_def)
  then have "(tx, c) \<in> E'\<^sup>*" by (rule trancl_into_rtrancl)
  with c have "cycle_from E' tx" unfolding cycle_from_def by (intro exI conjI)
  with tx show False by contradiction
qed

lemma edges_erase: "edges (g(tx := None)) \<subseteq> edges g"
  by (auto simp: edges_def split: if_splits)

lemma waits_acyclic_step: "lock_step lm lm' \<Longrightarrow> waits_acyclic lm \<Longrightarrow> waits_acyclic lm'"
proof (induction rule: lock_step.induct)
  case (try_lock lm tx r mode)
  obtain out lm' where run: "lock_try tx r mode lm = (out, lm')" by fastforce
  have E: "acyclic (edges (waits_for_graph lm))" using try_lock by (simp add: waits_acyclic_def)
  from run have "acyclic (edges (waits_for_graph lm'))"
  proof (cases rule: lock_tryE)
    case granted
    show ?thesis by (rule acyclic_subset [OF E]) (simp add: granted(3) edges_erase)
  next
    case (deadlock req)
    show ?thesis by (rule acyclic_subset [OF E]) (auto simp: deadlock(5))
  next
    case (waiting req)
    show ?thesis unfolding waiting(5)
      by (rule acyclic_without_cycle_from [OF E _ waiting(4)])
        (auto simp: edges_def waits_with_def)
  qed
  then show ?case by (simp add: run waits_acyclic_def)
next
  case (release lm tx r)
  then show ?case by (simp add: unlock_def waits_acyclic_def split: option.splits)
next
  case (release_all lm tx)
  then show ?case
    using acyclic_subset [OF _ edges_erase] by (simp add: unlock_all_def waits_acyclic_def)
qed

lemma requests_unlock:
  "requests_at (unlock tx r lm) =
     (requests_at lm)(r := filter (\<lambda>req. req_tx req \<noteq> tx) (requests_at lm r))"
  by (auto simp: unlock_def requests_at_def fun_eq_iff split: option.splits)

lemma requests_unlock_all:
  "requests_at (unlock_all tx lm) = (\<lambda>r. filter (\<lambda>req. req_tx req \<noteq> tx) (requests_at lm r))"
  by (simp add: unlock_all_def requests_at_def fun_eq_iff split: option.splits)

lemma exclusive_locks_step: "lock_step lm lm' \<Longrightarrow> exclusive_locks lm \<Longrightarrow> exclusive_locks lm'"
proof (induction rule: lock_step.induct)
  case (try_lock lm tx r mode)
  obtain out lm' where run: "lock_try tx r mode lm = (out, lm')" by fastforce
  from run have "exclusive_locks lm'"
  proof (cases rule: lock_tryE)
    case granted
    then have free: "req_tx a = tx \<or> mode = SHARED \<and> req_mode a = SHARED"
      if "a \<in> set (requests_at lm r)" for a
      using that by (auto simp: conflicts_iff) (metis lock_mode.exhaust)+
    have old: "\<And>q a b. a \<in> set (requests_at lm q) \<Longrightarrow> b \<in> set (requests_at lm q) \<Longrightarrow>
        req_tx a \<noteq> req_tx b \<Longrightarrow> req_mode a = SHARED \<and> req_mode b = SHARED"
      using try_lock unfolding exclusive_locks_def by blast
    have "req_mode a = SHARED \<and> req_mode b = SHARED"
      if "a \<in> set (requests_at lm' q)" "b \<in> set (requests_at lm' q)" "req_tx a \<noteq> req_tx b" for q a b
      using that old [of a q b] free [of a] free [of b]
      by (cases "q = r") (auto simp: granted(4))
    then show ?thesis unfolding exclusive_locks_def by blast
  qed (use try_lock in \<open>simp_all add: exclusive_locks_def\<close>)
  then show ?case by (simp add: run)
next
  case (release lm tx r)
  then show ?case unfolding exclusive_locks_def requests_unlock by simp blast
next
  case (release_all lm tx)
  then show ?case unfolding exclusive_locks_def requests_unlock_all by simp blast
qed

lemma locks_reachable:
  "lock_step\<^sup>*\<^sup>* new_LockManager lm \<Longrightarrow> exclusive_locks lm \<and> waits_acyclic lm"
proof (induction rule: rtranclp_induct)
  case base
  show ?case
    by (simp add: new_LockManager_def exclusive_locks_def waits_acyclic_def requests_at_def
        edges_def acyclic_def)
next
  case (step y z)
  then show ?case using exclusive_locks_step waits_acyclic_step by blast
qed

section \<open>The properties of the lock manager\<close>

definition example_locks :: LockManager where
  "example_locks = snd (lock_try 1 7 SHARED new_LockManager)"

lemma example_locks_reachable: "lock_step\<^sup>*\<^sup>* new_LockManager example_locks"
  unfolding example_locks_def by (intro r_into_rtranclp lock_step.try_lock)

lemma example_locks_table:
  "lock_table example_locks 7 = Some [\<lparr>req_tx = 1, req_mode = SHARED, req_granted = True\<rparr>]"
  by (simp add: example_locks_def lock_try_eq requests_at_def new_LockManager_def)

text \<open>Two readers hold resource 7.\<close>

definition example_readers :: LockManager where
  "example_readers = snd (lock_try 2 7 SHARED example_locks)"

lemma example_readers_reachable: "lock_step\<^sup>*\<^sup>* new_LockManager example_readers"
  unfolding example_readers_def
  using example_locks_reachable lock_step.try_lock by (rule rtranclp.rtrancl_into_rtrancl)

lemma example_readers_table:
  "lock_table example_readers 7 =
     Some [\<lparr>req_tx = 1, req_mode = SHARED, req_granted = True\<rparr>,
           \<lparr>req_tx = 2, req_mode = SHARED, req_granted = True\<rparr>]"
  by (simp add: example_readers_def lock_try_eq requests_at_def example_locks_table conflicts_iff)

text \<open>
  C17. Mutual exclusion: in every reachable state, if two different transactions hold locks on
  one resource, both locks are shared.
\<close>

theorem lock_exclusion:
  assumes "lock_step\<^sup>*\<^sup>* new_LockManager lm" and "lock_table lm r = Some requests"
    and "a \<in> set requests" and "b \<in> set requests" and "req_tx a \<noteq> req_tx b"
  shows "req_mode a = SHARED \<and> req_mode b = SHARED"
  using locks_reachable [OF assms(1)] assms(2-5)
  by (auto simp: exclusive_locks_def requests_at_def dest: spec [of _ r])

lemma lock_exclusion_witness:
  "req_mode \<lparr>req_tx = 1, req_mode = SHARED, req_granted = True\<rparr> = SHARED \<and>
   req_mode \<lparr>req_tx = 2, req_mode = SHARED, req_granted = True\<rparr> = SHARED"
  by (rule lock_exclusion [OF example_readers_reachable example_readers_table]) simp_all

text \<open>
  C18. \<open>LockManager::lock\<close> reports a deadlock exactly when a conflicting lock is held and the
  waits-for graph, with the caller's waits recorded, has a cycle the caller reaches; the
  depth-first search always ends. It grants exactly when no other transaction holds a
  conflicting lock.
\<close>

theorem lock_try_outcome:
  "(fst (lock_try tx r mode lm) = Granted \<longleftrightarrow>
      filter (conflicts tx mode) (requests_at lm r) = []) \<and>
   (fst (lock_try tx r mode lm) = Deadlock \<longleftrightarrow>
      filter (conflicts tx mode) (requests_at lm r) \<noteq> [] \<and>
      (\<exists>c. (tx, c) \<in> (edges (waits_with tx r mode lm))\<^sup>* \<and>
           (c, c) \<in> (edges (waits_with tx r mode lm))\<^sup>+))"
proof -
  obtain out lm' where run: "lock_try tx r mode lm = (out, lm')" by fastforce
  have cyc: "cycle_from E u \<longleftrightarrow> (\<exists>c. (u, c) \<in> E\<^sup>* \<and> (c, c) \<in> E\<^sup>+)" for E u
    by (simp add: cycle_from_def)
  from run show ?thesis
    unfolding cyc [symmetric] by (cases rule: lock_tryE) (auto simp: run filter_empty_conv)
qed

text \<open>
  C4. No cycle of waiting transactions is ever recorded: the waits-for graph of every
  reachable state is acyclic, because the request that would close a cycle is refused.
\<close>

theorem waits_for_graph_acyclic:
  assumes "lock_step\<^sup>*\<^sup>* new_LockManager lm"
  shows "acyclic {(u, v). \<exists>vs. waits_for_graph lm u = Some vs \<and> v \<in> set vs}"
  using locks_reachable [OF assms] by (simp add: waits_acyclic_def edges_def)

lemma waits_for_graph_acyclic_witness:
  "acyclic {(u, v). \<exists>vs. waits_for_graph example_readers u = Some vs \<and> v \<in> set vs}"
  by (rule waits_for_graph_acyclic [OF example_readers_reachable])

text \<open>
  \<open>unlock_all\<close> ends every hold of a transaction: no request of it is left on any
  resource, all other requests stay, and a request that only conflicted with it is granted
  on its next attempt.
\<close>

theorem unlock_all_releases:
  assumes "\<forall>req \<in> set (requests_at lm r). conflicts tx mode req \<longrightarrow> req_tx req = holder"
  shows "fst (lock_try tx r mode (unlock_all holder lm)) = Granted \<and>
         (\<forall>q. requests_at (unlock_all holder lm) q =
                filter (\<lambda>req. req_tx req \<noteq> holder) (requests_at lm q))"
proof -
  obtain out lm' where run: "lock_try tx r mode (unlock_all holder lm) = (out, lm')" by fastforce
  have none: "\<not> conflicts tx mode req" if "req \<in> set (requests_at (unlock_all holder lm) r)" for req
    using that assms by (auto simp: requests_unlock_all)
  from run have "out = Granted" by (cases rule: lock_tryE) (use none in auto)
  then show ?thesis by (simp add: run requests_unlock_all)
qed

lemma unlock_all_releases_witness:
  "fst (lock_try 5 7 EXCLUSIVE (unlock_all 1 example_locks)) = Granted \<and>
   (\<forall>q. requests_at (unlock_all 1 example_locks) q =
      filter (\<lambda>req. req_tx req \<noteq> 1) (requests_at example_locks q))"
  by (rule unlock_all_releases) (simp add: requests_at_def example_locks_table)

end
