(* ===== verification/MvccManager.thy ===== *)
theory MvccManager
  imports RecordCodec Transactions LockManager
begin

text \<open>
  \<open>transaction/mvcc_manager.h\<close> and \<open>transaction/mvcc_manager.cpp\<close>: for every key the list of
  versions written to it, oldest first, which of them a transaction sees, and garbage
  collection. The transaction manager is shared with the clients, so its state is a field.
\<close>

section \<open>The code\<close>

datatype mvcc_error_code = MVCC_OK | MVCC_NOT_FOUND | MVCC_CONFLICT | MVCC_UNKNOWN

text \<open>\<open>MVCCBlocked\<close>: the call waits on a lock, see \<^const>\<open>Blocked\<close>.\<close>

datatype mvcc_error = MVCCError mvcc_error_code string | MVCCBlocked

datatype version_data = NodeData NodeRecord | EdgeData EdgeRecord

record Version =
  created_tx_id :: transaction_id
  deleted_tx_id :: transaction_id
  ver_data :: version_data
  ver_properties :: "Property list"

record MVCCManager =
  txn_manager :: TransactionManager
  lock_manager :: LockManager
  versions :: "u64 \<Rightarrow> Version list option"

definition new_MVCCManager :: "TransactionManager \<Rightarrow> MVCCManager" where
  "new_MVCCManager tm =
     \<lparr>txn_manager = tm, lock_manager = new_LockManager, versions = (\<lambda>_. None)\<rparr>"

definition is_version_visible :: "Version \<Rightarrow> transaction_id \<Rightarrow> TransactionManager \<Rightarrow> bool" where
  "is_version_visible ver tx_id tm =
     (if created_tx_id ver = tx_id
      then deleted_tx_id ver = 0 \<or> deleted_tx_id ver \<noteq> tx_id
      else if \<not> is_transaction_committed (created_tx_id ver) tm then False
      else if tx_id < created_tx_id ver then False
      else if deleted_tx_id ver \<noteq> 0 then
        if deleted_tx_id ver = tx_id then False
        else if is_transaction_committed (deleted_tx_id ver) tm \<and>
                deleted_tx_id ver \<le> tx_id
        then False
        else True
      else True)"

definition read_version ::
  "u64 \<Rightarrow> transaction_id \<Rightarrow> MVCCManager \<Rightarrow> mvcc_error + Version" where
  "read_version key tx_id m =
     (case versions m key of
        None \<Rightarrow> Inl (MVCCError MVCC_NOT_FOUND ''Key not found'')
      | Some vec \<Rightarrow>
          (case find (\<lambda>ver. is_version_visible ver tx_id (txn_manager m)) (rev vec) of
             Some ver \<Rightarrow> Inr ver
           | None \<Rightarrow> Inl (MVCCError MVCC_NOT_FOUND ''No visible version for tx'')))"

text \<open>
  The part of \<open>write_version\<close> under \<open>mutex_\<close>: the latest version is marked as deleted by the
  writer if nobody has deleted it, and the new version is appended.
\<close>

definition append_version :: "Version \<Rightarrow> Version list \<Rightarrow> Version list" where
  "append_version ver vec =
     (if vec \<noteq> [] \<and> deleted_tx_id (last vec) = 0
      then butlast vec @ [(last vec)\<lparr>deleted_tx_id := created_tx_id ver\<rparr>] @ [ver]
      else vec @ [ver])"

definition write_version ::
  "u64 \<Rightarrow> Version \<Rightarrow> MVCCManager \<Rightarrow> (mvcc_error + unit) \<times> MVCCManager" where
  "write_version key ver m =
     (case lock_try (created_tx_id ver) key EXCLUSIVE (lock_manager m) of
        (Deadlock, lm) \<Rightarrow>
          (Inl (MVCCError MVCC_CONFLICT ''Deadlock detected''), m\<lparr>lock_manager := lm\<rparr>)
      | (Waiting, lm) \<Rightarrow> (Inl MVCCBlocked, m\<lparr>lock_manager := lm\<rparr>)
      | (Granted, lm) \<Rightarrow>
          let vec = (case versions m key of None \<Rightarrow> [] | Some vec \<Rightarrow> vec);
              m = m\<lparr>versions := (versions m)(key \<mapsto> append_version ver vec)\<rparr>
          in (Inr (), m\<lparr>lock_manager := unlock (created_tx_id ver) key lm\<rparr>))"

definition garbage_collect :: "transaction_id \<Rightarrow> MVCCManager \<Rightarrow> MVCCManager" where
  "garbage_collect min_active_tx_id m =
     m\<lparr>versions := (\<lambda>key.
         case versions m key of
           None \<Rightarrow> None
         | Some vec \<Rightarrow>
             let vec = filter (\<lambda>v. \<not> (deleted_tx_id v \<noteq> 0 \<and> deleted_tx_id v < min_active_tx_id)) vec
             in if vec = [] then None else Some vec)\<rparr>"

section \<open>Visibility\<close>

text \<open>
  A version counts for a transaction when its creator does: the transaction itself, or one
  that committed and has no larger id. It is hidden when its deleter counts; of its own
  versions a transaction only hides those it deleted itself.
\<close>

definition counts_for :: "TransactionManager \<Rightarrow> transaction_id \<Rightarrow> transaction_id \<Rightarrow> bool" where
  "counts_for tm tx_id t \<longleftrightarrow> t = tx_id \<or> is_transaction_committed t tm \<and> t \<le> tx_id"

definition hidden_from :: "TransactionManager \<Rightarrow> transaction_id \<Rightarrow> Version \<Rightarrow> bool" where
  "hidden_from tm tx_id v \<longleftrightarrow>
     deleted_tx_id v \<noteq> 0 \<and>
     (deleted_tx_id v = tx_id \<or>
      created_tx_id v \<noteq> tx_id \<and> counts_for tm tx_id (deleted_tx_id v))"

lemma is_version_visible_iff:
  "is_version_visible v tx tm \<longleftrightarrow> counts_for tm tx (created_tx_id v) \<and> \<not> hidden_from tm tx v"
  by (auto simp: is_version_visible_def counts_for_def hidden_from_def not_less)

lemma hidden_by_uncounted:
  "\<not> counts_for tm tx (deleted_tx_id v) \<Longrightarrow> \<not> hidden_from tm tx v"
  by (auto simp: hidden_from_def counts_for_def)

definition versions_at :: "MVCCManager \<Rightarrow> u64 \<Rightarrow> Version list" where
  "versions_at m key = (case versions m key of None \<Rightarrow> [] | Some vec \<Rightarrow> vec)"

lemma read_version_eq:
  "read_version key tx m = Inr v \<longleftrightarrow>
     find (\<lambda>v. is_version_visible v tx (txn_manager m)) (rev (versions_at m key)) = Some v"
  by (auto simp: read_version_def versions_at_def split: option.splits)

lemma read_version_not_found:
  "(\<exists>e. read_version key tx m = Inl e) \<longleftrightarrow>
     find (\<lambda>v. is_version_visible v tx (txn_manager m)) (rev (versions_at m key)) = None"
  by (auto simp: read_version_def versions_at_def split: option.splits)

text \<open>No other transaction holds a lock on the key: then a write takes place.\<close>

definition unlocked_for :: "transaction_id \<Rightarrow> u64 \<Rightarrow> MVCCManager \<Rightarrow> bool" where
  "unlocked_for tx key m \<longleftrightarrow> (\<forall>req \<in> set (requests_at (lock_manager m) key). req_tx req = tx)"

lemma write_version_unlocked:
  assumes "unlocked_for (created_tx_id v) key m"
  shows "\<exists>lm. write_version key v m =
           (Inr (), m\<lparr>versions := (versions m)(key \<mapsto> append_version v (versions_at m key)),
                      lock_manager := lm\<rparr>) \<and>
           requests_at lm = (requests_at (lock_manager m))(key := [])"
proof -
  let ?lm = "lock_manager m" and ?tx = "created_tx_id v"
  have "\<not> list_ex (conflicts ?tx EXCLUSIVE) (requests_at ?lm key)"
    using assms by (auto simp: unlocked_for_def list_ex_iff conflicts_iff)
  then have attempt: "lock_try ?tx key EXCLUSIVE ?lm = (Granted,
      ?lm\<lparr>lock_table := (lock_table ?lm)(key \<mapsto> requests_at ?lm key @
           [\<lparr>req_tx = ?tx, req_mode = EXCLUSIVE, req_granted = True\<rparr>]),
         waits_for_graph := (waits_for_graph ?lm)(?tx := None)\<rparr>)"
    by (simp add: lock_try_eq)
  then obtain lm where lm: "lock_try ?tx key EXCLUSIVE ?lm = (Granted, lm)"
    "requests_at lm = (requests_at ?lm)(key := requests_at ?lm key @
       [\<lparr>req_tx = ?tx, req_mode = EXCLUSIVE, req_granted = True\<rparr>])"
    using requests_at_update [of _ ?lm key] by fastforce
  have "filter (\<lambda>req. req_tx req \<noteq> ?tx) (requests_at ?lm key) = []"
    using assms by (auto simp: unlocked_for_def filter_empty_conv)
  then have "requests_at (unlock ?tx key lm) = (requests_at ?lm)(key := [])"
    by (simp add: requests_unlock lm(2))
  then show ?thesis
    by (auto simp: write_version_def lm(1) versions_at_def)
qed

section \<open>What a write changes\<close>

lemma find_append_None: "find P xs = None \<Longrightarrow> find P (xs @ ys) = find P ys"
  by (induction xs) (auto split: if_splits)

text \<open>What a reader gets to see of a version: not who deleted it.\<close>

definition payload :: "Version \<Rightarrow> transaction_id \<times> version_data \<times> Property list" where
  "payload v = (created_tx_id v, ver_data v, ver_properties v)"

definition visible_version :: "TransactionManager \<Rightarrow> transaction_id \<Rightarrow> Version list \<Rightarrow> Version option" where
  "visible_version tm tx vec = find (\<lambda>v. is_version_visible v tx tm) (rev vec)"

lemma read_version_visible:
  "read_version key tx m = Inr v \<longleftrightarrow>
     visible_version (txn_manager m) tx (versions_at m key) = Some v"
  by (simp add: read_version_eq visible_version_def)

lemma append_version_cases:
  obtains (plain) "append_version ver vec = vec @ [ver]" "vec = [] \<or> deleted_tx_id (last vec) \<noteq> 0"
  | (mark) old l where "vec = old @ [l]" "deleted_tx_id l = 0"
      "append_version ver vec = old @ [l\<lparr>deleted_tx_id := created_tx_id ver\<rparr>, ver]"
proof (cases "vec \<noteq> [] \<and> deleted_tx_id (last vec) = 0")
  case True
  then have "vec = butlast vec @ [last vec]" by simp
  then show thesis using True mark [of "butlast vec" "last vec"] by (simp add: append_version_def)
next
  case False
  then show thesis using plain by (auto simp: append_version_def)
qed

lemma visible_after_uncounted_write:
  assumes "\<not> counts_for tm tx (created_tx_id ver)"
  shows "map_option payload (visible_version tm tx (append_version ver vec)) =
         map_option payload (visible_version tm tx vec)"
proof (cases rule: append_version_cases [of ver vec])
  case plain
  then show ?thesis using assms by (simp add: visible_version_def is_version_visible_iff)
next
  case (mark old l)
  let ?l = "l\<lparr>deleted_tx_id := created_tx_id ver\<rparr>"
  have "\<not> hidden_from tm tx ?l" "\<not> hidden_from tm tx l"
    using assms mark(2) by (auto simp: hidden_by_uncounted) (simp add: hidden_from_def)
  then have "is_version_visible ?l tx tm = is_version_visible l tx tm"
    by (simp add: is_version_visible_iff)
  moreover have "payload ?l = payload l" by (simp add: payload_def)
  ultimately show ?thesis
    using assms mark by (simp add: visible_version_def is_version_visible_iff)
qed

lemma visible_after_counted_write:
  assumes "counts_for tm tx (created_tx_id ver)" and "deleted_tx_id ver = 0"
  shows "visible_version tm tx (append_version ver vec) = Some ver"
proof -
  have "is_version_visible ver tx tm"
    using assms by (simp add: is_version_visible_iff hidden_from_def)
  then show ?thesis
    by (cases rule: append_version_cases [of ver vec]) (simp_all add: visible_version_def)
qed

section \<open>Histories\<close>

text \<open>
  The versions of a key, newest first, as \<open>write_version\<close> builds them from live versions and
  tombstones (versions that their own creator deleted): every version but the newest is
  deleted by the writer of the next one, or is a tombstone.
\<close>

definition history :: "Version list \<Rightarrow> bool" where
  "history vec \<longleftrightarrow>
     (\<forall>v \<in> set vec. created_tx_id v \<noteq> 0) \<and>
     (vec \<noteq> [] \<longrightarrow> deleted_tx_id (last vec) = 0 \<or> deleted_tx_id (last vec) = created_tx_id (last vec)) \<and>
     successively (\<lambda>v w. deleted_tx_id v = created_tx_id w \<or> deleted_tx_id v = created_tx_id v) vec"

lemma history_append_version:
  assumes "history vec" and "created_tx_id ver \<noteq> 0"
    and "deleted_tx_id ver = 0 \<or> deleted_tx_id ver = created_tx_id ver"
  shows "history (append_version ver vec)"
proof (cases rule: append_version_cases [of ver vec])
  case plain
  then show ?thesis
    using assms unfolding plain(1) by (auto simp: history_def successively_append_iff)
next
  case (mark old l)
  show ?thesis
    unfolding mark(3) using assms
    by (auto simp: history_def mark(1) successively_append_iff)
qed

lemma history_suffix: "history (vs @ ws) \<Longrightarrow> ws \<noteq> [] \<Longrightarrow> history ws"
  by (auto simp: history_def successively_append_iff)

text \<open>The newest version whose creator counts is what the reader gets, if it is live.\<close>

lemma visible_newest_counted:
  assumes h: "history (old @ v # newer)"
    and newer: "\<forall>w \<in> set newer. \<not> counts_for tm tx (created_tx_id w)"
    and v: "counts_for tm tx (created_tx_id v)" "deleted_tx_id v \<noteq> created_tx_id v"
  shows "visible_version tm tx (old @ v # newer) = Some v"
proof -
  have "\<not> hidden_from tm tx v"
  proof (cases newer)
    case Nil
    then show ?thesis using h v(2) by (simp add: history_def hidden_from_def)
  next
    case (Cons w ws)
    then have "deleted_tx_id v = created_tx_id w"
      using h v(2) by (simp add: history_def successively_append_iff)
    then show ?thesis using newer Cons by (intro hidden_by_uncounted) simp
  qed
  then have "is_version_visible v tx tm" using v(1) by (simp add: is_version_visible_iff)
  moreover have "find (\<lambda>v. is_version_visible v tx tm) (rev newer) = None"
    using newer by (auto simp: find_None_iff is_version_visible_iff)
  ultimately show ?thesis
    by (simp add: visible_version_def find_append_None)
qed

text \<open>
  When the newest version is a tombstone and every writer counts, in the order of their ids,
  the key is gone.
\<close>

lemma hidden_if_deleted_by:
  assumes "deleted_tx_id v \<noteq> 0" and "counts_for tm tx (deleted_tx_id v)"
    and "created_tx_id v \<le> deleted_tx_id v"
  shows "hidden_from tm tx v"
  using assms by (auto simp: hidden_from_def counts_for_def)

lemma visible_none_after_delete:
  assumes h: "history vec" and last: "vec \<noteq> []" "deleted_tx_id (last vec) = created_tx_id (last vec)"
    and ids: "sorted (map created_tx_id vec)"
    and counts: "\<forall>v \<in> set vec. counts_for tm tx (created_tx_id v)"
  shows "visible_version tm tx vec = None"
proof -
  have "hidden_from tm tx v" if v: "v \<in> set vec" for v
  proof -
    have "created_tx_id v \<noteq> 0" using h v by (simp add: history_def)
    moreover have "deleted_tx_id v = created_tx_id v \<or>
        (\<exists>w \<in> set vec. deleted_tx_id v = created_tx_id w \<and> created_tx_id v \<le> created_tx_id w)"
    proof -
      obtain xs ys where vec: "vec = xs @ v # ys" using split_list [OF v] by blast
      show ?thesis
      proof (cases ys)
        case Nil
        then show ?thesis using last vec by simp
      next
        case (Cons w zs)
        then show ?thesis
          using h ids vec by (auto simp: history_def successively_append_iff sorted_append)
      qed
    qed
    ultimately show ?thesis
      using counts v h by (auto simp: history_def intro!: hidden_if_deleted_by)
  qed
  then show ?thesis
    by (auto simp: visible_version_def find_None_iff is_version_visible_iff)
qed

section \<open>Garbage collection\<close>

lemma versions_garbage_collect:
  "versions_at (garbage_collect t m) key =
     filter (\<lambda>v. \<not> (deleted_tx_id v \<noteq> 0 \<and> deleted_tx_id v < t)) (versions_at m key)"
  by (simp add: garbage_collect_def versions_at_def Let_def split: option.splits)

lemma find_filter:
  "(\<And>x. x \<in> set xs \<Longrightarrow> P x \<Longrightarrow> Q x) \<Longrightarrow> find P (filter Q xs) = find P xs"
  by (induction xs) auto

section \<open>The properties of multi-version concurrency control\<close>

text \<open>
  C5. A write is seen by exactly the readers it counts for: for the writer itself, and once
  the writer has committed for every transaction with no smaller id, the new live version is
  what \<open>read_version\<close> returns; for all others, in particular for everybody else before the
  commit and after an abort, the outcome of \<open>read_version\<close> (found or not, and creator, record
  and properties of what is found) is as if the write had not happened.
\<close>

theorem write_version_isolation:
  assumes "unlocked_for (created_tx_id ver) key m"
  shows "\<exists>m'. write_version key ver m = (Inr (), m') \<and> txn_manager m' = txn_manager m \<and>
    (\<forall>tx tm.
       let after = m'\<lparr>txn_manager := tm\<rparr>; before = m\<lparr>txn_manager := tm\<rparr>
       in if created_tx_id ver = tx \<or>
             is_transaction_committed (created_tx_id ver) tm \<and> created_tx_id ver \<le> tx
          then deleted_tx_id ver = 0 \<longrightarrow> read_version key tx after = Inr ver
          else \<forall>p. (\<exists>v. read_version key tx after = Inr v \<and> payload v = p) \<longleftrightarrow>
                   (\<exists>v. read_version key tx before = Inr v \<and> payload v = p))"
proof -
  obtain lm where w: "write_version key ver m =
      (Inr (), m\<lparr>versions := (versions m)(key \<mapsto> append_version ver (versions_at m key)),
                 lock_manager := lm\<rparr>)"
    using write_version_unlocked [OF assms] by blast
  let ?m = "m\<lparr>versions := (versions m)(key \<mapsto> append_version ver (versions_at m key)),
      lock_manager := lm\<rparr>"
  have at: "versions_at (?m\<lparr>txn_manager := tm\<rparr>) key = append_version ver (versions_at m key)"
    "versions_at (m\<lparr>txn_manager := tm\<rparr>) key = versions_at m key" for tm
    by (simp_all add: versions_at_def)
  have seen: "read_version key tx (?m\<lparr>txn_manager := tm\<rparr>) = Inr ver"
    if "counts_for tm tx (created_tx_id ver)" "deleted_tx_id ver = 0" for tx tm
    using visible_after_counted_write [OF that] by (simp add: read_version_visible at)
  have same: "(\<exists>v. read_version key tx (?m\<lparr>txn_manager := tm\<rparr>) = Inr v \<and> payload v = p) \<longleftrightarrow>
      (\<exists>v. read_version key tx (m\<lparr>txn_manager := tm\<rparr>) = Inr v \<and> payload v = p)"
    if "\<not> counts_for tm tx (created_tx_id ver)" for tx tm p
  proof -
    have iff: "(\<exists>v. o1 = Some v \<and> payload v = p) \<longleftrightarrow> map_option payload o1 = Some p" for o1
      by (cases o1) simp_all
    have tm: "txn_manager (?m\<lparr>txn_manager := tm\<rparr>) = tm" "txn_manager (m\<lparr>txn_manager := tm\<rparr>) = tm"
      by simp_all
    show ?thesis
      by (simp only: read_version_visible at tm iff visible_after_uncounted_write [OF that])
  qed
  show ?thesis
  proof (intro exI [of _ ?m] conjI allI)
    show "write_version key ver m = (Inr (), ?m)" by (rule w)
    show "txn_manager ?m = txn_manager m" by simp
  next
    fix tx tm
    show "let after = ?m\<lparr>txn_manager := tm\<rparr>; before = m\<lparr>txn_manager := tm\<rparr>
       in if created_tx_id ver = tx \<or>
             is_transaction_committed (created_tx_id ver) tm \<and> created_tx_id ver \<le> tx
          then deleted_tx_id ver = 0 \<longrightarrow> read_version key tx after = Inr ver
          else \<forall>p. (\<exists>v. read_version key tx after = Inr v \<and> payload v = p) \<longleftrightarrow>
                   (\<exists>v. read_version key tx before = Inr v \<and> payload v = p)"
    proof (cases "counts_for tm tx (created_tx_id ver)")
      case True
      then show ?thesis
        unfolding Let_def counts_for_def [symmetric] using seen [OF True]
        by (simp only: if_True) blast
    next
      case False
      then show ?thesis
        unfolding Let_def counts_for_def [symmetric] using same [OF False]
        by (simp only: if_False) blast
    qed
  qed
qed

text \<open>A node version, and two transactions with ids 1 and 2, both active.\<close>

definition example_version :: "transaction_id \<Rightarrow> Version" where
  "example_version tx =
     \<lparr>created_tx_id = tx, deleted_tx_id = 0, ver_data = NodeData new_NodeRecord,
      ver_properties = []\<rparr>"

definition example_tombstone :: "transaction_id \<Rightarrow> Version" where
  "example_tombstone tx = (example_version tx)\<lparr>deleted_tx_id := tx\<rparr>"

definition example_tm :: TransactionManager where
  "example_tm = snd (begin_transaction (snd (begin_transaction new_TransactionManager)))"

lemma example_tm_simps:
  "is_transaction_committed t example_tm \<longleftrightarrow> t \<noteq> 1 \<and> t \<noteq> 2"
  by (auto simp: example_tm_def begin_transaction_def get_current_timestamp_def
      new_TransactionManager_def is_transaction_committed_def Let_def)

lemma example_unlocked: "unlocked_for tx key (new_MVCCManager tm)"
  by (simp add: unlocked_for_def new_MVCCManager_def new_LockManager_def requests_at_def)

lemma write_version_isolation_witness:
  "\<exists>m'. write_version 9 (example_version 1) (new_MVCCManager example_tm) = (Inr (), m') \<and>
     read_version 9 1 m' = Inr (example_version 1) \<and>
     (\<nexists>v. read_version 9 2 m' = Inr v)"
proof -
  let ?m = "new_MVCCManager example_tm" and ?v = "example_version 1"
  obtain m' where m': "write_version 9 ?v ?m = (Inr (), m')" "txn_manager m' = txn_manager ?m"
    and reads: "\<forall>tx tm.
       let after = m'\<lparr>txn_manager := tm\<rparr>; before = ?m\<lparr>txn_manager := tm\<rparr>
       in if created_tx_id ?v = tx \<or>
             is_transaction_committed (created_tx_id ?v) tm \<and> created_tx_id ?v \<le> tx
          then deleted_tx_id ?v = 0 \<longrightarrow> read_version 9 tx after = Inr ?v
          else \<forall>p. (\<exists>v. read_version 9 tx after = Inr v \<and> payload v = p) \<longleftrightarrow>
                   (\<exists>v. read_version 9 tx before = Inr v \<and> payload v = p)"
    using write_version_isolation [of ?v 9 ?m, OF example_unlocked] by blast
  have same: "m'\<lparr>txn_manager := example_tm\<rparr> = m'" "?m\<lparr>txn_manager := example_tm\<rparr> = ?m"
    using m'(2) by (simp_all add: new_MVCCManager_def)
  have none: "\<nexists>v. read_version 9 2 ?m = Inr v"
    by (simp add: read_version_def new_MVCCManager_def)
  show ?thesis
    using m'(1) none spec [OF spec [OF reads, of 1], of example_tm]
      spec [OF spec [OF reads, of 2], of example_tm]
    by (simp add: Let_def same example_version_def example_tm_simps) (metis surj_pair)
qed





text \<open>
  Garbage collection after an abort loses data: the collector looks at the deleter's id
  and not at its outcome, so a version whose deletion was rolled back, and that every later
  transaction still reads, is removed.
\<close>

theorem garbage_collect_loses_aborted_delete:
  assumes "versions_at m key = [v, w]"
    and "is_transaction_committed (created_tx_id v) (txn_manager m)" "created_tx_id v \<le> tx"
    and "deleted_tx_id v = created_tx_id w" "deleted_tx_id w = created_tx_id w"
    and "\<not> is_transaction_committed (created_tx_id w) (txn_manager m)"
    and "created_tx_id w \<noteq> 0" "created_tx_id w < t" "t \<le> tx"
  shows "read_version key tx m = Inr v \<and>
         read_version key tx (garbage_collect t m) =
           Inl (MVCCError MVCC_NOT_FOUND ''Key not found'')"
proof -
  have ne: "created_tx_id w \<noteq> tx" using assms(8,9) by auto
  then have uncounted: "\<not> counts_for (txn_manager m) tx (created_tx_id w)"
    using assms(6) by (simp add: counts_for_def)
  then have "is_version_visible v tx (txn_manager m)"
    using assms(2-4) hidden_by_uncounted [of "txn_manager m" tx v]
    by (simp add: is_version_visible_iff counts_for_def)
  then have "read_version key tx m = Inr v"
    using uncounted assms(1) by (simp add: read_version_eq is_version_visible_iff)
  moreover have "versions (garbage_collect t m) key = None"
    using assms by (auto simp: garbage_collect_def versions_at_def Let_def split: option.splits)
  ultimately show ?thesis by (simp add: read_version_def)
qed

lemma garbage_collect_loses_aborted_delete_witness:
  "let m = (new_MVCCManager example_tm)
         \<lparr>versions := [5 \<mapsto> [(example_version 3)\<lparr>deleted_tx_id := 2\<rparr>, example_tombstone 2]]\<rparr>
   in read_version 5 4 m = Inr ((example_version 3)\<lparr>deleted_tx_id := 2\<rparr>) \<and>
      read_version 5 4 (garbage_collect 4 m) =
        Inl (MVCCError MVCC_NOT_FOUND ''Key not found'')"
  unfolding Let_def
  by (rule garbage_collect_loses_aborted_delete [of _ _ _ "example_tombstone 2"])
    (simp_all add: versions_at_def example_version_def example_tombstone_def example_tm_simps
      new_MVCCManager_def)

text \<open>
  The isolation is not a snapshot: a transaction that has begun and found nothing under a
  key finds it when it reads again after a transaction with a smaller id has committed.
\<close>

theorem read_not_repeatable:
  assumes "created_tx_id ver < tx" and "deleted_tx_id ver = 0"
    and "\<not> is_transaction_committed (created_tx_id ver) (txn_manager m)"
    and "versions m key = None" and "unlocked_for (created_tx_id ver) key m"
    and "is_transaction_committed (created_tx_id ver) tm"
  shows "\<exists>m'. write_version key ver m = (Inr (), m') \<and>
           (\<nexists>v. read_version key tx m' = Inr v) \<and>
           read_version key tx (m'\<lparr>txn_manager := tm\<rparr>) = Inr ver"
proof -
  obtain lm where w: "write_version key ver m =
      (Inr (), m\<lparr>versions := (versions m)(key \<mapsto> append_version ver (versions_at m key)),
                 lock_manager := lm\<rparr>)"
    using write_version_unlocked [OF assms(5)] by blast
  have "append_version ver (versions_at m key) = [ver]"
    using assms(4) by (simp add: versions_at_def append_version_def)
  then show ?thesis
    using assms(1-3,6)
    by (auto simp: w read_version_def is_version_visible_def)
qed

lemma read_not_repeatable_witness:
  "\<exists>m'. write_version 9 (example_version 1) (new_MVCCManager example_tm) = (Inr (), m') \<and>
     (\<nexists>v. read_version 9 2 m' = Inr v) \<and>
     read_version 9 2 (m'\<lparr>txn_manager := new_TransactionManager\<rparr>) = Inr (example_version 1)"
proof (rule read_not_repeatable)
  show "unlocked_for (created_tx_id (example_version 1)) 9 (new_MVCCManager example_tm)"
    by (rule example_unlocked)
qed (simp_all add: example_version_def new_MVCCManager_def example_tm_simps,
    simp add: new_TransactionManager_def is_transaction_committed_def)

end
