(* ===== verification/WalManager.thy ===== *)
theory WalManager
  imports RecordCodec FilePageStore Transactions
begin

text \<open>
  \<open>storage/wal_manager.h\<close> and \<open>storage/wal_manager.cpp\<close>: the write-ahead log, a file of a
  24-byte header and of records, written through a \<open>std::fstream\<close> (the model of
  \<open>FilePageStore\<close>) and read back when the log is opened and by \<open>recover_from_log\<close>. The
  clock is the argument \<open>now\<close> of every operation that reads it; the messages to the logger
  are not modelled.
\<close>

section \<open>Records\<close>

type_synonym lsn = u64

datatype wal_record_type =
    BEGIN_TRANSACTION | COMMIT_TRANSACTION | ABORT_TRANSACTION | CREATE_NODE | UPDATE_NODE
  | DELETE_NODE | CREATE_EDGE | UPDATE_EDGE | DELETE_EDGE | CHECKPOINT

primrec wal_type_code :: "wal_record_type \<Rightarrow> u8" where
  "wal_type_code BEGIN_TRANSACTION = 1"
| "wal_type_code COMMIT_TRANSACTION = 2"
| "wal_type_code ABORT_TRANSACTION = 3"
| "wal_type_code CREATE_NODE = 4"
| "wal_type_code UPDATE_NODE = 5"
| "wal_type_code DELETE_NODE = 6"
| "wal_type_code CREATE_EDGE = 7"
| "wal_type_code UPDATE_EDGE = 8"
| "wal_type_code DELETE_EDGE = 9"
| "wal_type_code CHECKPOINT = 10"

record WALHeader =
  wal_magic :: u32
  wal_version :: u32
  creation_time :: u64
  header_checkpoint_lsn :: lsn

definition sizeof_WALHeader :: nat where
  "sizeof_WALHeader = 24"

definition WALHeader_bytes :: "WALHeader \<Rightarrow> u8 list" where
  "WALHeader_bytes h =
     le_bytes 4 (wal_magic h) @ le_bytes 4 (wal_version h) @ le_bytes 8 (creation_time h) @
     le_bytes 8 (header_checkpoint_lsn h)"

definition WALHeader_of_bytes :: "u8 list \<Rightarrow> WALHeader" where
  "WALHeader_of_bytes bs =
     \<lparr>wal_magic = field_at 0 4 bs, wal_version = field_at 4 4 bs, creation_time = field_at 8 8 bs,
      header_checkpoint_lsn = field_at 16 8 bs\<rparr>"

text \<open>The alternatives of \<open>WALRecord::data\<close>.\<close>

datatype wal_data =
    WalNone
  | WalNode node_id "Property list"
  | WalEdge edge_id node_id node_id string "Property list"
  | WalLsn lsn

record WALRecord =
  rec_lsn :: lsn
  rec_tx_id :: transaction_id
  rec_type :: u8
  rec_timestamp :: u64
  rec_data_size :: u32
  rec_data :: wal_data

definition wal_fixed_size :: nat where
  "wal_fixed_size = 29"

definition get_serialized_size :: "WALRecord \<Rightarrow> nat" where
  "get_serialized_size r =
     wal_fixed_size +
     (let properties_size = (\<lambda>props. sum_list (map (\<lambda>p. length (prop_key p) + 4 + (4 + 64)) props))
      in case rec_data r of
           WalNone \<Rightarrow> 0
         | WalNode node_id props \<Rightarrow> 8 + properties_size props
         | WalEdge edge_id from to label props \<Rightarrow>
             8 + 8 + 8 + 4 + length label + properties_size props
         | WalLsn l \<Rightarrow> 8)"

section \<open>The log\<close>

record WALManager =
  log_file :: fstream
  current_lsn :: lsn
  last_checkpoint_lsn :: lsn
  wal_header :: WALHeader

primrec value_index :: "property_value \<Rightarrow> u32" where
  "value_index (StringV s) = 0"
| "value_index (IntV i) = 1"
| "value_index (DoubleV d) = 2"
| "value_index (BoolV b) = 3"
| "value_index (BytesV bs) = 4"

text \<open>The arguments of the successive calls of \<open>log_file_.write\<close>.\<close>

definition string_chunks :: "string \<Rightarrow> u8 list list" where
  "string_chunks s =
     (let len = word_of_nat (length s) :: u32
      in [le_bytes 4 len, take (unat len) (string_bytes s)])"

definition property_chunks :: "Property list \<Rightarrow> u8 list list" where
  "property_chunks props =
     le_bytes 4 (word_of_nat (length props) :: u32) #
     concat (map (\<lambda>p. string_chunks (prop_key p) @ [le_bytes 4 (value_index (prop_value p))]) props)"

definition record_chunks :: "WALRecord \<Rightarrow> u8 list list" where
  "record_chunks r =
     [le_bytes 8 (rec_lsn r), le_bytes 8 (rec_tx_id r), [rec_type r], le_bytes 8 (rec_timestamp r),
      le_bytes 4 (rec_data_size r)] @
     (case rec_data r of
        WalNone \<Rightarrow> []
      | WalNode node_id props \<Rightarrow> le_bytes 8 node_id # property_chunks props
      | WalEdge edge_id from to label props \<Rightarrow>
          [le_bytes 8 edge_id, le_bytes 8 from, le_bytes 8 to] @ string_chunks label @
          property_chunks props
      | WalLsn l \<Rightarrow> [le_bytes 8 l])"

definition write_record :: "WALRecord \<Rightarrow> WALManager \<Rightarrow> lsn result \<times> WALManager" where
  "write_record r w =
     (if \<not> fs_open (log_file w) then (Inl (Error IO_ERROR ''Log file not open''), w)
      else
        let w = w\<lparr>log_file := fold fs_write (record_chunks r) (log_file w)\<rparr>
        in if fs_fail (log_file w) then (Inl (Error IO_ERROR ''Write failed''), w)
           else (Inr (rec_lsn r), w))"

definition force_sync :: "WALManager \<Rightarrow> unit result \<times> WALManager" where
  "force_sync w =
     (if \<not> fs_open (log_file w) then (Inl (Error IO_ERROR ''Log file not open''), w)
      else
        let w = w\<lparr>log_file := fs_flush (log_file w)\<rparr>
        in if fs_fail (log_file w) then (Inl (Error IO_ERROR ''Flush failed''), w)
           else (Inr (), w\<lparr>log_file := fs_flush (log_file w)\<rparr>))"

text \<open>\<open>current_lsn_.fetch_add(1)\<close>, and the record that all logging functions fill in.\<close>

definition next_lsn :: "WALManager \<Rightarrow> lsn \<times> WALManager" where
  "next_lsn w = (current_lsn w, w\<lparr>current_lsn := current_lsn w + 1\<rparr>)"

definition log_record ::
  "wal_record_type \<Rightarrow> transaction_id \<Rightarrow> u64 \<Rightarrow> wal_data \<Rightarrow> u32 option \<Rightarrow> WALManager \<Rightarrow>
     lsn result \<times> WALManager" where
  "log_record type tx_id now data data_size w =
     (let (l, w) = next_lsn w;
          r = \<lparr>rec_lsn = l, rec_tx_id = tx_id, rec_type = wal_type_code type,
               rec_timestamp = now, rec_data_size = 0, rec_data = data\<rparr>;
          r = r\<lparr>rec_data_size :=
                  (case data_size of
                     Some n \<Rightarrow> n
                   | None \<Rightarrow> word_of_nat (get_serialized_size r - wal_fixed_size))\<rparr>
      in write_record r w)"

definition log_begin_transaction ::
  "u64 \<Rightarrow> transaction_id \<Rightarrow> WALManager \<Rightarrow> lsn result \<times> WALManager" where
  "log_begin_transaction now tx_id w = log_record BEGIN_TRANSACTION tx_id now WalNone (Some 0) w"

definition log_commit_transaction ::
  "u64 \<Rightarrow> transaction_id \<Rightarrow> WALManager \<Rightarrow> lsn result \<times> WALManager" where
  "log_commit_transaction now tx_id w =
     (case log_record COMMIT_TRANSACTION tx_id now WalNone (Some 0) w of
        (Inl e, w) \<Rightarrow> (Inl e, w)
      | (Inr l, w) \<Rightarrow> (Inr l, snd (force_sync w)))"

definition log_abort_transaction ::
  "u64 \<Rightarrow> transaction_id \<Rightarrow> WALManager \<Rightarrow> lsn result \<times> WALManager" where
  "log_abort_transaction now tx_id w = log_record ABORT_TRANSACTION tx_id now WalNone (Some 0) w"

definition log_create_node ::
  "u64 \<Rightarrow> transaction_id \<Rightarrow> node_id \<Rightarrow> Property list \<Rightarrow> WALManager \<Rightarrow> lsn result \<times> WALManager" where
  "log_create_node now tx_id node properties w =
     log_record CREATE_NODE tx_id now (WalNode node properties) None w"

definition log_update_node ::
  "u64 \<Rightarrow> transaction_id \<Rightarrow> node_id \<Rightarrow> Property list \<Rightarrow> WALManager \<Rightarrow> lsn result \<times> WALManager" where
  "log_update_node now tx_id node properties w =
     log_record UPDATE_NODE tx_id now (WalNode node properties) None w"

definition log_delete_node ::
  "u64 \<Rightarrow> transaction_id \<Rightarrow> node_id \<Rightarrow> WALManager \<Rightarrow> lsn result \<times> WALManager" where
  "log_delete_node now tx_id node w =
     log_record DELETE_NODE tx_id now (WalNode node []) (Some 8) w"

definition log_create_edge ::
  "u64 \<Rightarrow> transaction_id \<Rightarrow> edge_id \<Rightarrow> node_id \<Rightarrow> node_id \<Rightarrow> string \<Rightarrow> Property list \<Rightarrow>
     WALManager \<Rightarrow> lsn result \<times> WALManager" where
  "log_create_edge now tx_id edge from to label properties w =
     log_record CREATE_EDGE tx_id now (WalEdge edge from to label properties) None w"

definition log_update_edge ::
  "u64 \<Rightarrow> transaction_id \<Rightarrow> edge_id \<Rightarrow> Property list \<Rightarrow> WALManager \<Rightarrow> lsn result \<times> WALManager" where
  "log_update_edge now tx_id edge properties w =
     log_record UPDATE_EDGE tx_id now (WalEdge edge 0 0 [] properties) None w"

definition log_delete_edge ::
  "u64 \<Rightarrow> transaction_id \<Rightarrow> edge_id \<Rightarrow> WALManager \<Rightarrow> lsn result \<times> WALManager" where
  "log_delete_edge now tx_id edge w =
     log_record DELETE_EDGE tx_id now (WalEdge edge 0 0 [] []) (Some 8) w"

definition write_header :: "WALManager \<Rightarrow> unit result \<times> WALManager" where
  "write_header w =
     (let w = w\<lparr>log_file := fs_write (WALHeader_bytes (wal_header w)) (fs_seek 0 (log_file w))\<rparr>
      in if fs_fail (log_file w) then (Inl (Error IO_ERROR ''Failed to write header''), w)
         else (Inr (), w))"

definition checkpoint :: "u64 \<Rightarrow> WALManager \<Rightarrow> lsn result \<times> WALManager" where
  "checkpoint now w =
     (let checkpoint_lsn = current_lsn w in
      case log_record CHECKPOINT 0 now (WalLsn checkpoint_lsn) (Some 8) w of
        (Inl e, w) \<Rightarrow> (Inl e, w)
      | (Inr l, w) \<Rightarrow>
          let w = w\<lparr>last_checkpoint_lsn := checkpoint_lsn,
                    wal_header := (wal_header w)\<lparr>header_checkpoint_lsn := checkpoint_lsn\<rparr>\<rparr>;
              pos = fs_tell (log_file w);
              w = w\<lparr>log_file := fs_seek 0 (log_file w)\<rparr>;
              w = snd (write_header w);
              w = w\<lparr>log_file := fs_seek pos (log_file w)\<rparr>
          in (Inr l, snd (force_sync w)))"

definition log_operation :: "string \<Rightarrow> WALManager \<Rightarrow> unit result \<times> WALManager" where
  "log_operation json_line w =
     (if \<not> fs_open (log_file w) then (Inl (Error IO_ERROR ''Log file not open''), w)
      else
        let w = w\<lparr>log_file := fs_write [10] (fs_write (string_bytes json_line) (log_file w))\<rparr>
        in if fs_fail (log_file w) then (Inl (Error IO_ERROR ''Write failed''), w)
           else (Inr (), w))"

section \<open>Reading\<close>

text \<open>
  \<open>file.read\<close> into a variable of \<open>n\<close> bytes: its value if all bytes were delivered.
  Otherwise the variable stays (partly) indeterminate and the stream has failed.
\<close>

definition read_field :: "nat \<Rightarrow> fstream \<Rightarrow> 'a::len word option \<times> fstream" where
  "read_field n f =
     (case fs_read n f of (bytes, f) \<Rightarrow>
        (if length bytes = n then Some (le_word bytes) else None, f))"

text \<open>
  The loop over the properties. A \<open>key_len\<close> that was not read is indeterminate, and using it
  is undefined behaviour. The values are not in the log: each becomes a placeholder.
\<close>

fun read_wal_properties :: "nat \<Rightarrow> fstream \<Rightarrow> Property list result \<times> fstream" where
  "read_wal_properties 0 f = (Inr [], f)"
| "read_wal_properties (Suc n) f =
     (case read_field 4 f of
        (None, f) \<Rightarrow> (Inl UndefinedBehaviour, f)
      | (Some (key_len :: u32), f) \<Rightarrow>
          (case fs_read (unat key_len) f of (bytes, f) \<Rightarrow>
            (let k = bytes_string (bytes @ replicate (unat key_len - length bytes) 0);
                 (value_type :: u32 option, f) = read_field 4 f
             in (case read_wal_properties n f of
                   (Inl e, f) \<Rightarrow> (Inl e, f)
                 | (Inr props, f) \<Rightarrow>
                     (Inr (\<lparr>prop_key = k, prop_value = StringV ''placeholder''\<rparr> # props), f)))))"

definition read_wal_data :: "u8 \<Rightarrow> fstream \<Rightarrow> wal_data result \<times> fstream" where
  "read_wal_data type f =
     (if type \<in> {wal_type_code BEGIN_TRANSACTION, wal_type_code COMMIT_TRANSACTION,
                 wal_type_code ABORT_TRANSACTION}
      then (Inr WalNone, f)
      else if type \<in> {wal_type_code CREATE_NODE, wal_type_code UPDATE_NODE, wal_type_code DELETE_NODE}
      then
        (case read_field 8 f of (node, f) \<Rightarrow>
           let node = (case node of Some n \<Rightarrow> n | None \<Rightarrow> 0)
           in if type \<noteq> wal_type_code DELETE_NODE then
                (case read_field 4 f of
                   (None, f) \<Rightarrow> (Inl UndefinedBehaviour, f)
                 | (Some (prop_count :: u32), f) \<Rightarrow>
                     (case read_wal_properties (unat prop_count) f of
                        (Inl e, f) \<Rightarrow> (Inl e, f)
                      | (Inr props, f) \<Rightarrow> (Inr (WalNode node props), f)))
              else (Inr (WalNode node []), f))
      else if type = wal_type_code CHECKPOINT then
        (case read_field 8 f of (l, f) \<Rightarrow>
           (Inr (WalLsn (case l of Some l \<Rightarrow> l | None \<Rightarrow> 0)), f))
      else (Inl (Error CORRUPTION ''Unknown WAL record type''), f))"

text \<open>
  A \<open>node_id\<close> or checkpoint number that was not read is set to 0 above; it is never looked
  at, because the stream has failed and the last test returns an error.
\<close>

definition read_record :: "fstream \<Rightarrow> WALRecord result \<times> fstream" where
  "read_record f =
     (let (l :: u64 option, f) = read_field 8 f;
          (tx :: u64 option, f) = read_field 8 f;
          (type :: u8 option, f) = read_field 1 f;
          (time :: u64 option, f) = read_field 8 f;
          (data_size :: u32 option, f) = read_field 4 f
      in case (l, tx, type, time, data_size) of
           (Some l, Some tx, Some type, Some time, Some data_size) \<Rightarrow>
             if fs_fail f then (Inl (Error IO_ERROR ''Failed to read record header''), f)
             else
               (case read_wal_data type f of
                  (Inl e, f) \<Rightarrow> (Inl e, f)
                | (Inr data, f) \<Rightarrow>
                    if fs_fail f then (Inl (Error IO_ERROR ''Failed to read record data''), f)
                    else
                      (Inr \<lparr>rec_lsn = l, rec_tx_id = tx, rec_type = type, rec_timestamp = time,
                            rec_data_size = data_size, rec_data = data\<rparr>, f))
         | _ \<Rightarrow> (Inl (Error IO_ERROR ''Failed to read record header''), f))"

definition read_header :: "WALManager \<Rightarrow> bool result \<times> WALManager" where
  "read_header w =
     (case fs_read sizeof_WALHeader (fs_seek 0 (log_file w)) of (bytes, f) \<Rightarrow>
        let old = drop (length bytes) (WALHeader_bytes (wal_header w));
            w = w\<lparr>log_file := f, wal_header := WALHeader_of_bytes (bytes @ old)\<rparr>
        in if fs_fail f then
             (if fs_eofbit f then (Inr False, w)
              else (Inl (Error IO_ERROR ''Failed to read header''), w))
           else if wal_magic (wal_header w) \<noteq> 0xDEADBEEF
           then (Inl (Error CORRUPTION ''Invalid WAL magic number''), w)
           else if wal_version (wal_header w) \<noteq> 1
           then (Inl (Error CORRUPTION ''Unsupported WAL version''), w)
           else (Inr True, w))"

section \<open>Reading ends\<close>

definition remaining :: "fstream \<Rightarrow> nat" where
  "remaining f = length (fs_data f) - fs_pos f"

text \<open>A stream that has not failed after a read has delivered what was asked for.\<close>

definition reads :: "nat \<Rightarrow> fstream \<Rightarrow> fstream \<Rightarrow> bool" where
  "reads n f f' \<longleftrightarrow>
     remaining f' \<le> remaining f \<and>
     (fs_pos f \<le> length (fs_data f) \<longrightarrow> fs_pos f' \<le> length (fs_data f')) \<and>
     (\<not> fs_fail f' \<longrightarrow> \<not> fs_fail f \<and> remaining f' + n \<le> remaining f)"

lemma reads_refl [intro]: "reads 0 f f"
  by (simp add: reads_def)

lemma reads_trans: "reads m f g \<Longrightarrow> reads n g h \<Longrightarrow> reads (m + n) f h"
  by (auto simp: reads_def)

lemma reads_weaken: "reads n f g \<Longrightarrow> m \<le> n \<Longrightarrow> reads m f g"
  by (auto simp: reads_def)

lemma reads_fs_read: "fs_read n f = (bytes, f') \<Longrightarrow> reads n f f'"
  by (auto simp: fs_read_def reads_def remaining_def fs_good_def fs_fail_def Let_def split: if_splits)

lemma reads_read_field: "read_field n f = (v, f') \<Longrightarrow> reads n f f'"
  by (auto simp: read_field_def reads_fs_read split: prod.splits)

lemma reads_read_wal_properties: "read_wal_properties n f = (r, f') \<Longrightarrow> reads 0 f f'"
proof (induction n f arbitrary: r f' rule: read_wal_properties.induct)
  case (1 f)
  then show ?case by auto
next
  case (2 n f)
  obtain k g where g: "read_field 4 f = (k :: u32 option, g)" by fastforce
  show ?case
  proof (cases k)
    case None
    then show ?thesis
      using 2(2) g reads_read_field [OF g] by (auto elim: reads_weaken)
  next
    case (Some key_len)
    obtain bytes h where h: "fs_read (unat key_len) g = (bytes, h)" by fastforce
    obtain v i where i: "read_field 4 h = (v :: u32 option, i)" by fastforce
    obtain r' j where j: "read_wal_properties n i = (r', j)" by fastforce
    have "reads 0 i j" by (rule 2(1) [OF g [symmetric] Some h [symmetric] refl refl i [symmetric] j])
    with reads_read_field [OF g] reads_fs_read [OF h] reads_read_field [OF i]
    have "reads 0 f j" by (meson le0 reads_trans reads_weaken)
    then show ?thesis using 2(2) Some g h i j by (auto split: sum.splits)
  qed
qed

lemma reads_read_wal_data: "read_wal_data type f = (r, f') \<Longrightarrow> reads 0 f f'"
proof -
  assume r: "read_wal_data type f = (r, f')"
  obtain n g where g: "read_field 8 f = (n :: u64 option, g)" by fastforce
  obtain k h where h: "read_field 4 g = (k :: u32 option, h)" by fastforce
  have fg: "reads 0 f g" and gh: "reads 0 g h"
    using reads_read_field [OF g] reads_read_field [OF h] by (auto elim: reads_weaken)
  have fh: "reads 0 f h" using reads_trans [OF fg gh] by simp
  have props: "reads 0 f j" if "read_wal_properties m h = (p, j)" for m p j
    using reads_trans [OF fh reads_read_wal_properties [OF that]] by simp
  show ?thesis
    using r fg fh props
    by (auto simp: read_wal_data_def g h Let_def split: if_splits option.splits prod.splits sum.splits)
qed

lemma reads_read_record: "read_record f = (r, f') \<Longrightarrow> reads wal_fixed_size f f'"
proof -
  assume r: "read_record f = (r, f')"
  obtain l a where a: "read_field 8 f = (l :: u64 option, a)" by fastforce
  obtain tx b where b: "read_field 8 a = (tx :: u64 option, b)" by fastforce
  obtain ty c where c: "read_field 1 b = (ty :: u8 option, c)" by fastforce
  obtain ti d where d: "read_field 8 c = (ti :: u64 option, d)" by fastforce
  obtain n e where e: "read_field 4 d = (n :: u32 option, e)" by fastforce
  have "reads (8 + 8 + 1 + 8 + 4) f e"
    using reads_read_field [OF a] reads_read_field [OF b] reads_read_field [OF c]
      reads_read_field [OF d] reads_read_field [OF e]
    by (meson reads_trans)
  then have fe: "reads wal_fixed_size f e" by (simp add: wal_fixed_size_def)
  have data: "reads wal_fixed_size f g" if "read_wal_data t e = (p, g)" for t p g
    using reads_trans [OF fe reads_read_wal_data [OF that]] by simp
  show ?thesis
    using r fe data
    by (auto simp: read_record_def a b c d e simp del: One_nat_def
        split: if_splits option.splits prod.splits sum.splits)
qed

section \<open>Opening and recovery\<close>

text \<open>The scan of the constructor for the largest sequence number.\<close>

function wal_scan :: "u64 \<Rightarrow> lsn \<Rightarrow> fstream \<Rightarrow> lsn result \<times> fstream" where
  "wal_scan file_size max_lsn f =
     (if sint (fs_tell f) < sint file_size then
        (case read_record f of
           (Inr r, f') \<Rightarrow> wal_scan file_size (max max_lsn (rec_lsn r)) f'
         | (Inl UndefinedBehaviour, f') \<Rightarrow> (Inl UndefinedBehaviour, f')
         | (Inl e, f') \<Rightarrow> (Inr max_lsn, f'))
      else (Inr max_lsn, f))"
  by pat_completeness auto

lemma read_record_remaining:
  "read_record f = (r, f') \<Longrightarrow> \<not> fs_fail f' \<Longrightarrow> remaining f' + wal_fixed_size \<le> remaining f"
  using reads_read_record by (auto simp: reads_def)

lemma read_record_not_fail: "read_record f = (Inr r, f') \<Longrightarrow> \<not> fs_fail f'"
  by (auto simp: read_record_def Let_def split: prod.splits option.splits if_splits sum.splits)

lemma read_record_less: "read_record f = (Inr r, f') \<Longrightarrow> remaining f' < remaining f"
  using read_record_remaining read_record_not_fail by (fastforce simp: wal_fixed_size_def)

termination wal_scan
proof (relation "measure (\<lambda>(n, m, f). remaining f)")
  show "((file_size, max max_lsn (rec_lsn r), f'), file_size, max_lsn, f)
      \<in> measure (\<lambda>(n, m, f). remaining f)"
    if "(res, f') = read_record f" "res = Inr r" for file_size :: u64 and max_lsn f res f' and r :: WALRecord
    using that by (simp add: read_record_less [of f r f'])
qed simp

declare wal_scan.simps [simp del]

definition new_WALManager ::
  "u64 \<Rightarrow> u8 list option \<Rightarrow> bool \<Rightarrow> WALManager \<Rightarrow> WALManager result" where
  "new_WALManager now existing can_create w =
     (case existing of
        Some contents \<Rightarrow>
          (case read_header (w\<lparr>log_file := fs_opened contents\<rparr>) of
             (Inl e, w) \<Rightarrow> Inr w
           | (Inr False, w) \<Rightarrow> Inr w
           | (Inr True, w) \<Rightarrow>
               let f = fs_seek_end (log_file w);
                   file_size = fs_tell f;
                   f = fs_seek (word_of_nat sizeof_WALHeader) f
               in (case wal_scan file_size 0 f of
                     (Inl e, f) \<Rightarrow> Inl e
                   | (Inr max_lsn, f) \<Rightarrow>
                       Inr (w\<lparr>log_file := fs_seek_end (fs_clear f), current_lsn := max_lsn + 1,
                              last_checkpoint_lsn := header_checkpoint_lsn (wal_header w)\<rparr>)))
      | None \<Rightarrow>
          if can_create then
            Inr (snd (write_header (w\<lparr>log_file := fs_opened [],
                   wal_header := (wal_header w)\<lparr>creation_time := now\<rparr>\<rparr>)))
          else Inr (w\<lparr>log_file := (fs_opened [])\<lparr>fs_open := False, fs_failbit := True\<rparr>\<rparr>))"

text \<open>
  The loop of \<open>recover_from_log\<close>: the callback with the state it changes, and the largest
  sequence number so far. An unreadable record is skipped as far as it was read.
\<close>

function recover_loop ::
  "(WALRecord \<Rightarrow> 's \<Rightarrow> unit result \<times> 's) \<Rightarrow> lsn \<Rightarrow> fstream \<Rightarrow> 's \<Rightarrow> lsn result \<times> 's" where
  "recover_loop apply_fn max_lsn f st =
     (if fs_good f then
        (case read_record f of
           (Inl e, f') \<Rightarrow>
             if e = UndefinedBehaviour then (Inl e, st)
             else if fs_eofbit f' then (Inr max_lsn, st)
             else recover_loop apply_fn max_lsn f' st
         | (Inr r, f') \<Rightarrow>
             (case apply_fn r st of
                (Inl e, st) \<Rightarrow> (Inl e, st)
              | (Inr _, st) \<Rightarrow> recover_loop apply_fn (max max_lsn (rec_lsn r)) f' st))
      else (Inr max_lsn, st))"
  by pat_completeness auto

definition stream_measure :: "fstream \<Rightarrow> nat" where
  "stream_measure f = 2 * remaining f + (if fs_good f then 1 else 0)"

lemma stream_measure_less:
  assumes "fs_good f" and "read_record f = (res, f')"
  shows "stream_measure f' < stream_measure f"
proof -
  have r: "remaining f' \<le> remaining f" using reads_read_record [OF assms(2)] by (simp add: reads_def)
  show ?thesis
  proof (cases "fs_good f'")
    case True
    then have "remaining f' + wal_fixed_size \<le> remaining f"
      using read_record_remaining [OF assms(2)] fs_good_not_fail by blast
    then show ?thesis using assms(1) True by (simp add: stream_measure_def wal_fixed_size_def)
  next
    case False
    then show ?thesis using assms(1) r by (simp add: stream_measure_def)
  qed
qed

termination recover_loop
proof (relation "measure (\<lambda>(a, m, f, st). stream_measure f)")
  show "((apply_fn, max_lsn, f', st), apply_fn, max_lsn, f, st)
      \<in> measure (\<lambda>(a, m, f, st). stream_measure f)"
    if "fs_good f" "(res, f') = read_record f"
    for apply_fn :: "WALRecord \<Rightarrow> 's \<Rightarrow> unit result \<times> 's" and max_lsn :: lsn and f and st :: 's
      and res f'
    using that stream_measure_less [of f res f'] by simp
  show "((apply_fn, max max_lsn (rec_lsn r), f', st'), apply_fn, max_lsn, f, st)
      \<in> measure (\<lambda>(a, m, f, st). stream_measure f)"
    if "fs_good f" "(res, f') = read_record f"
    for apply_fn :: "WALRecord \<Rightarrow> 's \<Rightarrow> unit result \<times> 's" and max_lsn :: lsn and f
      and st st' :: 's and res f' and r :: WALRecord
    using that stream_measure_less [of f res f'] by simp
qed simp

declare recover_loop.simps [simp del]

text \<open>
  \<open>on_disk\<close> is what the operating system has of the file, if it opens: after \<open>force_sync\<close>
  everything that was written, before it any part of that.
\<close>

definition recover_from_log ::
  "(WALRecord \<Rightarrow> 's \<Rightarrow> unit result \<times> 's) \<Rightarrow> u8 list option \<Rightarrow> 's \<Rightarrow> WALManager \<Rightarrow>
     unit result \<times> 's \<times> WALManager" where
  "recover_from_log apply_fn on_disk st w =
     (case on_disk of
        None \<Rightarrow> (Inl (Error IO_ERROR ''Cannot open log for recovery''), st, w)
      | Some contents \<Rightarrow>
          (case recover_loop apply_fn 0
                  (fs_seek (word_of_nat sizeof_WALHeader) (fs_opened contents)) st of
             (Inl e, st) \<Rightarrow> (Inl e, st, w)
           | (Inr max_lsn, st) \<Rightarrow> (Inr (), st, w\<lparr>current_lsn := max_lsn + 1\<rparr>)))"

section \<open>Writing at the end of a good stream\<close>

definition record_bytes :: "WALRecord \<Rightarrow> u8 list" where
  "record_bytes r = concat (record_chunks r)"

text \<open>The log is open for writing at the end of the file.\<close>

definition log_ready :: "WALManager \<Rightarrow> bool" where
  "log_ready w \<longleftrightarrow>
     fs_usable (log_file w) \<and> fs_good (log_file w) \<and>
     fs_pos (log_file w) = length (fs_data (log_file w))"

lemma fs_writes_end:
  assumes "fs_usable f" and "fs_good f" and "fs_pos f = length (fs_data f)"
  shows "fold fs_write chunks f =
           f\<lparr>fs_data := fs_data f @ concat chunks, fs_pos := length (fs_data f @ concat chunks)\<rparr>"
  using assms
proof (induction chunks arbitrary: f)
  case Nil
  then show ?case by simp
next
  case (Cons c chunks)
  have "fs_write c f = f\<lparr>fs_data := fs_data f @ c, fs_pos := length (fs_data f @ c)\<rparr>"
    using Cons.prems by (simp add: fs_write_usable)
  then show ?case using Cons by simp
qed

lemma write_record_ready:
  assumes "log_ready w"
  shows "\<exists>f. write_record r w = (Inr (rec_lsn r), w\<lparr>log_file := f\<rparr>) \<and>
             fs_data f = fs_data (log_file w) @ record_bytes r \<and>
             log_ready (w\<lparr>log_file := f\<rparr>)"
proof -
  let ?f = "(log_file w)\<lparr>fs_data := fs_data (log_file w) @ record_bytes r,
      fs_pos := length (fs_data (log_file w) @ record_bytes r)\<rparr>"
  have "fold fs_write (record_chunks r) (log_file w) = ?f"
    using assms unfolding record_bytes_def log_ready_def by (intro fs_writes_end) simp_all
  moreover have "log_ready (w\<lparr>log_file := ?f\<rparr>)" using assms by (simp add: log_ready_def)
  moreover have "fs_open (log_file w)" "\<not> fs_fail ?f"
    using assms by (auto simp: log_ready_def fs_usable_def fs_good_def fs_fail_def)
  ultimately show ?thesis by (auto simp: write_record_def)
qed

section \<open>Reading back what was written\<close>

declare le_bytes_numeral [simp del]

text \<open>A good stream with these bytes ahead of it.\<close>

definition ahead :: "fstream \<Rightarrow> u8 list \<Rightarrow> bool" where
  "ahead f bs \<longleftrightarrow> fs_usable f \<and> fs_good f \<and> drop (fs_pos f) (fs_data f) = bs"

definition skip :: "nat \<Rightarrow> fstream \<Rightarrow> fstream" where
  "skip n f = f\<lparr>fs_pos := fs_pos f + n\<rparr>"

lemma skip_skip [simp]: "skip m (skip n f) = skip (n + m) f"
  by (simp add: skip_def add.assoc)

lemma ahead_skip: "ahead f (xs @ ys) \<Longrightarrow> ahead (skip (length xs) f) ys"
  by (simp add: ahead_def skip_def fs_usable_def fs_good_def) (metis add.commute append_eq_conv_conj drop_drop)

lemma ahead_not_fail: "ahead f bs \<Longrightarrow> \<not> fs_fail f"
  by (simp add: ahead_def fs_good_not_fail)

lemma fs_read_ahead: "ahead f (xs @ ys) \<Longrightarrow> fs_read (length xs) f = (xs, skip (length xs) f)"
  by (simp add: ahead_def fs_read_def skip_def)

lemma read_field_ahead:
  fixes w :: "'a::len word"
  assumes "ahead f (le_bytes n w @ ys)" and "LENGTH('a) \<le> 8 * n"
  shows "read_field n f = (Some w, skip n f) \<and> ahead (skip n f) ys"
  using fs_read_ahead [OF assms(1)] ahead_skip [OF assms(1)] assms(2)
  by (simp add: read_field_def le_word_le_bytes)

lemmas read_u64_ahead = read_field_ahead [where 'a = 64 and n = 8, simplified]
lemmas read_u32_ahead = read_field_ahead [where 'a = 32 and n = 4, simplified]

lemma read_byte_ahead:
  "ahead f (b # ys) \<Longrightarrow> read_field 1 f = (Some b, skip 1 f) \<and> ahead (skip 1 f) ys"
  using fs_read_ahead [of f "[b]" ys] ahead_skip [of f "[b]" ys]
  by (simp add: read_field_def)

definition placeholder :: "Property \<Rightarrow> Property" where
  "placeholder p = \<lparr>prop_key = prop_key p, prop_value = StringV ''placeholder''\<rparr>"

lemma read_wal_properties_ahead:
  assumes "\<forall>p \<in> set props. length (prop_key p) < 2 ^ 32"
    and "ahead f (concat (concat (map (\<lambda>p. string_chunks (prop_key p) @
           [le_bytes 4 (value_index (prop_value p))]) props)) @ ys)"
  shows "\<exists>n. read_wal_properties (length props) f = (Inr (map placeholder props), skip n f) \<and>
             ahead (skip n f) ys"
  using assms
proof (induction props arbitrary: f)
  case Nil
  then show ?case by (auto intro!: exI [of _ 0] simp: skip_def)
next
  case (Cons p props)
  let ?k = "prop_key p" and ?len = "word_of_nat (length (prop_key p)) :: u32"
  let ?rest = "concat (concat (map (\<lambda>p. string_chunks (prop_key p) @
      [le_bytes 4 (value_index (prop_value p))]) props)) @ ys"
  have len: "unat ?len = length ?k" using Cons.prems(1) by (simp add: unat_word_of_nat)
  have a: "ahead f (le_bytes 4 ?len @ string_bytes ?k @ le_bytes 4 (value_index (prop_value p)) @ ?rest)"
    using Cons.prems(2) by (simp add: string_chunks_def len)
  then have r1: "read_field 4 f = (Some ?len, skip 4 f)"
    and a1: "ahead (skip 4 f) (string_bytes ?k @ le_bytes 4 (value_index (prop_value p)) @ ?rest)"
    using read_field_ahead [OF a] by simp_all
  have r2: "fs_read (length ?k) (skip 4 f) = (string_bytes ?k, skip (4 + length ?k) f)"
    and a2: "ahead (skip (4 + length ?k) f) (le_bytes 4 (value_index (prop_value p)) @ ?rest)"
    using fs_read_ahead [OF a1] ahead_skip [OF a1] by simp_all
  have r3: "read_field 4 (skip (4 + length ?k) f) = (Some (value_index (prop_value p)), skip (4 + length ?k + 4) f)"
    and a3: "ahead (skip (4 + length ?k + 4) f) ?rest"
    using read_field_ahead [OF a2] by simp_all
  from Cons.IH [OF _ a3] Cons.prems(1) obtain n where
    "read_wal_properties (length props) (skip (4 + length ?k + 4) f) =
       (Inr (map placeholder props), skip n (skip (4 + length ?k + 4) f))"
    "ahead (skip n (skip (4 + length ?k + 4) f)) ys" by auto
  then show ?case
    by (intro exI [of _ "4 + length ?k + 4 + n"])
      (simp add: r1 len r2 r3 placeholder_def)
qed

text \<open>The records that \<open>read_record\<close> can read, and what it reads.\<close>

definition recoverable :: "WALRecord \<Rightarrow> bool" where
  "recoverable r =
     (case rec_data r of
        WalNone \<Rightarrow> rec_type r \<in> wal_type_code ` {BEGIN_TRANSACTION, COMMIT_TRANSACTION, ABORT_TRANSACTION}
      | WalNode node props \<Rightarrow>
          rec_type r \<in> wal_type_code ` {CREATE_NODE, UPDATE_NODE} \<and> length props < 2 ^ 32 \<and>
          (\<forall>p \<in> set props. length (prop_key p) < 2 ^ 32)
      | WalEdge edge from to label props \<Rightarrow> False
      | WalLsn l \<Rightarrow> rec_type r = wal_type_code CHECKPOINT)"

definition as_read :: "WALRecord \<Rightarrow> WALRecord" where
  "as_read r =
     r\<lparr>rec_data :=
        (case rec_data r of WalNode node props \<Rightarrow> WalNode node (map placeholder props) | d \<Rightarrow> d)\<rparr>"

lemma read_wal_data_ahead:
  assumes "recoverable r" and "ahead f (concat (drop 5 (record_chunks r)) @ ys)"
  shows "\<exists>n. read_wal_data (rec_type r) f = (Inr (rec_data (as_read r)), skip n f) \<and>
             ahead (skip n f) ys"
proof (cases "rec_data r")
  case WalNone
  then show ?thesis
    using assms
    by (auto intro!: exI [of _ 0] simp: recoverable_def read_wal_data_def as_read_def
        record_chunks_def skip_def)
next
  case (WalNode node props)
  let ?rest = "concat (concat (map (\<lambda>p. string_chunks (prop_key p) @
      [le_bytes 4 (value_index (prop_value p))]) props)) @ ys"
  have a: "ahead f (le_bytes 8 node @ le_bytes 4 (word_of_nat (length props) :: u32) @ ?rest)"
    using assms(2) WalNode
    by (simp add: record_chunks_def property_chunks_def)
  have ok: "\<forall>p \<in> set props. length (prop_key p) < 2 ^ 32" "length props < 2 ^ 32"
    and type: "rec_type r = wal_type_code CREATE_NODE \<or> rec_type r = wal_type_code UPDATE_NODE"
    using assms(1) WalNode by (auto simp: recoverable_def)
  have r1: "read_field 8 f = (Some node, skip 8 f)"
    and a1: "ahead (skip 8 f) (le_bytes 4 (word_of_nat (length props) :: u32) @ ?rest)"
    using read_field_ahead [OF a] by simp_all
  have r2: "read_field 4 (skip 8 f) = (Some (word_of_nat (length props) :: u32), skip 12 f)"
    and a2: "ahead (skip 12 f) ?rest"
    using read_field_ahead [OF a1] by simp_all
  have len: "unat (word_of_nat (length props) :: u32) = length props"
    using ok(2) by (simp add: unat_word_of_nat)
  from read_wal_properties_ahead [OF ok(1) a2] obtain n where
    "read_wal_properties (length props) (skip 12 f) = (Inr (map placeholder props), skip n (skip 12 f))"
    "ahead (skip n (skip 12 f)) ys" by blast
  then show ?thesis
    using type
    by (intro exI [of _ "12 + n"])
      (auto simp: read_wal_data_def r1 r2 len as_read_def WalNode)
next
  case (WalEdge edge src dst label props)
  then show ?thesis using assms(1) by (simp add: recoverable_def)
next
  case (WalLsn l)
  then have a: "ahead f (le_bytes 8 l @ ys)"
    using assms(2) by (simp add: record_chunks_def)
  have "rec_type r = wal_type_code CHECKPOINT" using assms(1) WalLsn by (simp add: recoverable_def)
  then show ?thesis
    using read_field_ahead [OF a]
    by (intro exI [of _ 8]) (simp add: read_wal_data_def as_read_def WalLsn)
qed

lemma read_record_ahead:
  assumes ok: "recoverable r" and a: "ahead f (record_bytes r @ ys)"
  shows "\<exists>n. read_record f = (Inr (as_read r), skip n f) \<and> ahead (skip n f) ys"
proof -
  let ?data = "concat (drop 5 (record_chunks r)) @ ys"
  have chunks: "concat (record_chunks r) = le_bytes 8 (rec_lsn r) @ le_bytes 8 (rec_tx_id r) @
      rec_type r # le_bytes 8 (rec_timestamp r) @ le_bytes 4 (rec_data_size r) @
      concat (drop 5 (record_chunks r))"
    by (simp add: record_chunks_def)
  have a0: "ahead f (le_bytes 8 (rec_lsn r) @ le_bytes 8 (rec_tx_id r) @ rec_type r #
      le_bytes 8 (rec_timestamp r) @ le_bytes 4 (rec_data_size r) @ ?data)"
    using a unfolding record_bytes_def chunks by simp
  note s1 = read_u64_ahead [OF a0]
  note s2 = read_u64_ahead [OF s1 [THEN conjunct2]]
  note s3 = read_byte_ahead [OF s2 [THEN conjunct2]]
  note s4 = read_u64_ahead [OF s3 [THEN conjunct2]]
  note s5 = read_u32_ahead [OF s4 [THEN conjunct2]]
  obtain n where d: "read_wal_data (rec_type r) (skip 29 f) = (Inr (rec_data (as_read r)), skip n (skip 29 f))"
    "ahead (skip n (skip 29 f)) ys"
    using read_wal_data_ahead [OF ok, of "skip 29 f" ys] s5 by auto
  have "\<not> fs_fail (skip 29 f)" "\<not> fs_fail (skip (29 + n) f)"
    using s5 d(2) by (auto dest: ahead_not_fail)
  moreover have "\<lparr>rec_lsn = rec_lsn r, rec_tx_id = rec_tx_id r, rec_type = rec_type r,
      rec_timestamp = rec_timestamp r, rec_data_size = rec_data_size r,
      rec_data = rec_data (as_read r)\<rparr> = as_read r"
    by (simp add: as_read_def)
  ultimately have "read_record f = (Inr (as_read r), skip (29 + n) f)"
    using s1 s2 s3 s4 s5 d by (simp add: read_record_def del: One_nat_def)
  then show ?thesis using d(2) by auto
qed

lemma read_field_eof:
  "read_field n f = (v :: 'a::len word option, g) \<Longrightarrow> fs_eofbit f \<Longrightarrow> fs_eofbit g"
  by (auto simp: read_field_def fs_read_def fs_good_def split: prod.splits)

lemma read_record_end:
  assumes "ahead f bs" and "length bs < 8"
  shows "\<exists>f'. read_record f = (Inl (Error IO_ERROR ''Failed to read record header''), f') \<and>
              fs_eofbit f'"
proof -
  have one: "fst (read_field 8 f) = (None :: u64 option)" "fs_eofbit (snd (read_field 8 f :: u64 option \<times> fstream))"
    using assms by (auto simp: read_field_def fs_read_def ahead_def)
  obtain a where a: "read_field 8 f = (None :: u64 option, a)" "fs_eofbit a"
    using one by (metis prod.collapse)
  obtain tx b where b: "read_field 8 a = (tx :: u64 option, b)" by fastforce
  obtain ty c where c: "read_field 1 b = (ty :: u8 option, c)" by fastforce
  obtain ti d where d: "read_field 8 c = (ti :: u64 option, d)" by fastforce
  obtain n e where e: "read_field 4 d = (n :: u32 option, e)" by fastforce
  have "fs_eofbit e"
    by (rule read_field_eof [OF e read_field_eof [OF d read_field_eof [OF c read_field_eof [OF b a(2)]]]])
  then show ?thesis
    using a b c d e by (simp add: read_record_def del: One_nat_def)
qed

text \<open>Applying records one after the other, up to the first error.\<close>

fun apply_all ::
  "(WALRecord \<Rightarrow> 's \<Rightarrow> unit result \<times> 's) \<Rightarrow> WALRecord list \<Rightarrow> 's \<Rightarrow> unit result \<times> 's" where
  "apply_all apply_fn [] st = (Inr (), st)"
| "apply_all apply_fn (r # rs) st =
     (case apply_fn r st of (Inl e, st) \<Rightarrow> (Inl e, st) | (Inr _, st) \<Rightarrow> apply_all apply_fn rs st)"

lemma recover_loop_replays:
  assumes "\<forall>r \<in> set rs. recoverable r" and "ahead f (concat (map record_bytes rs))"
  shows "recover_loop apply_fn m f st =
    (case apply_all apply_fn (map as_read rs) st of
       (Inl e, st) \<Rightarrow> (Inl e, st)
     | (Inr _, st) \<Rightarrow> (Inr (fold (\<lambda>r m. max m (rec_lsn r)) rs m), st))"
  using assms
proof (induction rs arbitrary: f m st)
  case Nil
  then obtain f' where "read_record f = (Inl (Error IO_ERROR ''Failed to read record header''), f')"
    "fs_eofbit f'" using read_record_end [of f "[]"] by auto
  then show ?case using Nil by (simp add: recover_loop.simps ahead_def)
next
  case (Cons r rs)
  then obtain n where n: "read_record f = (Inr (as_read r), skip n f)"
    "ahead (skip n f) (concat (map record_bytes rs))"
    using read_record_ahead [of r f "concat (map record_bytes rs)"] by auto
  have good: "fs_good f" using Cons.prems by (simp add: ahead_def)
  have lsn: "rec_lsn (as_read r) = rec_lsn r" by (simp add: as_read_def)
  show ?case
    using Cons.IH [OF _ n(2)] Cons.prems good n(1)
    by (simp add: recover_loop.simps [of apply_fn m f] lsn split: prod.splits sum.splits)
qed

section \<open>Logging\<close>

text \<open>The calls that log something, with the time at which they read the clock.\<close>

datatype wal_op =
    Begin transaction_id | Commit transaction_id | Abort transaction_id
  | CreateNode transaction_id node_id "Property list"
  | UpdateNode transaction_id node_id "Property list"
  | DeleteNode transaction_id node_id
  | CreateEdge transaction_id edge_id node_id node_id string "Property list"
  | UpdateEdge transaction_id edge_id "Property list"
  | DeleteEdge transaction_id edge_id
  | Checkpoint

fun log_op :: "u64 \<Rightarrow> wal_op \<Rightarrow> WALManager \<Rightarrow> lsn result \<times> WALManager" where
  "log_op now (Begin tx) w = log_begin_transaction now tx w"
| "log_op now (Commit tx) w = log_commit_transaction now tx w"
| "log_op now (Abort tx) w = log_abort_transaction now tx w"
| "log_op now (CreateNode tx n ps) w = log_create_node now tx n ps w"
| "log_op now (UpdateNode tx n ps) w = log_update_node now tx n ps w"
| "log_op now (DeleteNode tx n) w = log_delete_node now tx n w"
| "log_op now (CreateEdge tx e a b l ps) w = log_create_edge now tx e a b l ps w"
| "log_op now (UpdateEdge tx e ps) w = log_update_edge now tx e ps w"
| "log_op now (DeleteEdge tx e) w = log_delete_edge now tx e w"
| "log_op now Checkpoint w = checkpoint now w"

text \<open>The type, transaction and data of the record a call writes.\<close>

fun op_content :: "lsn \<Rightarrow> wal_op \<Rightarrow> wal_record_type \<times> transaction_id \<times> wal_data" where
  "op_content l (Begin tx) = (BEGIN_TRANSACTION, tx, WalNone)"
| "op_content l (Commit tx) = (COMMIT_TRANSACTION, tx, WalNone)"
| "op_content l (Abort tx) = (ABORT_TRANSACTION, tx, WalNone)"
| "op_content l (CreateNode tx n ps) = (CREATE_NODE, tx, WalNode n ps)"
| "op_content l (UpdateNode tx n ps) = (UPDATE_NODE, tx, WalNode n ps)"
| "op_content l (DeleteNode tx n) = (DELETE_NODE, tx, WalNode n [])"
| "op_content l (CreateEdge tx e a b lab ps) = (CREATE_EDGE, tx, WalEdge e a b lab ps)"
| "op_content l (UpdateEdge tx e ps) = (UPDATE_EDGE, tx, WalEdge e 0 0 [] ps)"
| "op_content l (DeleteEdge tx e) = (DELETE_EDGE, tx, WalEdge e 0 0 [] [])"
| "op_content l Checkpoint = (CHECKPOINT, 0, WalLsn l)"

definition records_op :: "u64 \<Rightarrow> lsn \<Rightarrow> wal_op \<Rightarrow> WALRecord \<Rightarrow> bool" where
  "records_op now l op r \<longleftrightarrow>
     rec_lsn r = l \<and> rec_timestamp r = now \<and>
     (case op_content l op of (type, tx, data) \<Rightarrow>
        rec_type r = wal_type_code type \<and> rec_tx_id r = tx \<and> rec_data r = data)"

definition valid_header :: "WALHeader \<Rightarrow> bool" where
  "valid_header h \<longleftrightarrow> wal_magic h = 0xDEADBEEF \<and> wal_version h = 1"

text \<open>The log is ready, and its file holds a valid header and these records.\<close>

definition log_contents :: "WALManager \<Rightarrow> WALRecord list \<Rightarrow> bool" where
  "log_contents w rs \<longleftrightarrow>
     log_ready w \<and> valid_header (wal_header w) \<and>
     (\<exists>h. valid_header h \<and>
          fs_data (log_file w) = WALHeader_bytes h @ concat (map record_bytes rs))"

lemma log_record_contents:
  assumes "log_contents w rs"
  shows "\<exists>w' r. log_record type tx now data sz w = (Inr (current_lsn w), w') \<and>
    log_contents w' (rs @ [r]) \<and> current_lsn w' = current_lsn w + 1 \<and>
    rec_lsn r = current_lsn w \<and> rec_timestamp r = now \<and> rec_type r = wal_type_code type \<and>
    rec_tx_id r = tx \<and> rec_data r = data"
proof -
  let ?w = "w\<lparr>current_lsn := current_lsn w + 1\<rparr>"
  have "log_ready ?w" using assms by (simp add: log_contents_def log_ready_def)
  note wr = write_record_ready [OF this]
  obtain r where r: "log_record type tx now data sz w = write_record r ?w"
    "rec_lsn r = current_lsn w" "rec_timestamp r = now" "rec_type r = wal_type_code type"
    "rec_tx_id r = tx" "rec_data r = data"
    by (simp add: log_record_def next_lsn_def Let_def)
  obtain f where f: "write_record r ?w = (Inr (rec_lsn r), ?w\<lparr>log_file := f\<rparr>)"
    "fs_data f = fs_data (log_file ?w) @ record_bytes r" "log_ready (?w\<lparr>log_file := f\<rparr>)"
    using wr by blast
  have "log_contents (?w\<lparr>log_file := f\<rparr>) (rs @ [r])"
    using assms f(2,3) by (auto simp: log_contents_def)
  then show ?thesis using r f(1) by (intro exI [of _ "?w\<lparr>log_file := f\<rparr>"] exI [of _ r]) simp
qed

lemma force_sync_ready:
  assumes "log_ready w"
  shows "force_sync w = (Inr (), w)"
proof -
  have "fs_flush (log_file w) = log_file w" "fs_open (log_file w)" "\<not> fs_fail (log_file w)"
    using assms by (auto simp: log_ready_def fs_usable_def fs_flush_def fs_good_def fs_fail_def)
  then show ?thesis by (simp add: force_sync_def)
qed

lemma length_WALHeader_bytes: "length (WALHeader_bytes h) = sizeof_WALHeader"
  by (simp add: WALHeader_bytes_def sizeof_WALHeader_def)

lemma fs_tell_usable: "fs_usable f \<Longrightarrow> fs_good f \<Longrightarrow> fs_tell f = word_of_nat (fs_pos f)"
  by (simp add: fs_tell_def fs_good_not_fail)

text \<open>The size of the log is within the range of a stream offset.\<close>

definition log_fits :: "WALManager \<Rightarrow> bool" where
  "log_fits w \<longleftrightarrow> length (fs_data (log_file w)) < 2 ^ 63"

lemma checkpoint_header_contents:
  assumes c: "log_contents w rs" and fits: "log_fits w"
  shows "log_contents
     (let pos = fs_tell (log_file w);
          w = w\<lparr>log_file := fs_seek 0 (log_file w)\<rparr>;
          w = snd (write_header w)
      in w\<lparr>log_file := fs_seek pos (log_file w)\<rparr>) rs"
proof -
  let ?f = "log_file w"
  have us: "fs_usable ?f" "fs_good ?f" and pos: "fs_pos ?f = length (fs_data ?f)"
    using c by (auto simp: log_contents_def log_ready_def)
  have seek: "fs_seek p g = g\<lparr>fs_pos := unat p\<rparr>" if "fs_usable g" "fs_good g" "unat p < 2 ^ 63" for p g
    using that sint_nonneg [of p] by (simp add: fs_seek_def fs_good_not_fail)
  have upd: "fs_usable (g\<lparr>fs_pos := p\<rparr>) = fs_usable g" "fs_good (g\<lparr>fs_pos := p\<rparr>) = fs_good g" for g p
    by (simp_all add: fs_usable_def fs_good_def)
  obtain hd where "fs_data ?f = WALHeader_bytes hd @ concat (map record_bytes rs)"
    using c by (auto simp: log_contents_def)
  with length_WALHeader_bytes [of hd] obtain h
    where h: "length h = sizeof_WALHeader" "fs_data ?f = h @ concat (map record_bytes rs)"
    by blast
  have vh: "valid_header (wal_header w)" using c by (simp add: log_contents_def)
  let ?g = "?f\<lparr>fs_pos := 0\<rparr>"
  let ?hb = "WALHeader_bytes (wal_header w)"
  have "overwrite 0 ?hb (fs_data ?f) = ?hb @ concat (map record_bytes rs)"
    using h by (simp add: overwrite_def length_WALHeader_bytes)
  then have wr: "fs_write ?hb (fs_seek 0 ?g) =
      ?f\<lparr>fs_data := ?hb @ concat (map record_bytes rs), fs_pos := sizeof_WALHeader\<rparr>"
    using us by (simp add: seek upd fs_write_usable length_WALHeader_bytes)
  have len: "unat (fs_tell ?f) = length (fs_data ?f)"
    using us pos fits by (simp add: fs_tell_usable unat_word_of_nat log_fits_def)
  have len': "length (?hb @ concat (map record_bytes rs)) = length (fs_data ?f)"
    using h by (simp add: length_WALHeader_bytes)
  have final: "fs_seek (fs_tell ?f) (?f\<lparr>fs_data := d, fs_pos := p\<rparr>) = ?f\<lparr>fs_data := d, fs_pos := length (fs_data ?f)\<rparr>"
    for d p
    using us len fits by (simp add: seek log_fits_def)
  have "snd (write_header v) = v\<lparr>log_file := fs_write (WALHeader_bytes (wal_header v)) (fs_seek 0 (log_file v))\<rparr>" for v
    by (simp add: write_header_def Let_def)
  then show ?thesis
    using us len' vh by (auto simp: Let_def seek wr final log_contents_def log_ready_def length_WALHeader_bytes)
qed

lemma log_op_contents:
  assumes c: "log_contents w rs" and fits: "op = Checkpoint \<longrightarrow> log_fits (snd (log_op now op w))"
  shows "\<exists>w' r. log_op now op w = (Inr (current_lsn w), w') \<and> log_contents w' (rs @ [r]) \<and>
           current_lsn w' = current_lsn w + 1 \<and> records_op now (current_lsn w) op r"
proof (cases op)
  case (Commit tx)
  obtain w' r where w': "log_record COMMIT_TRANSACTION tx now WalNone (Some 0) w = (Inr (current_lsn w), w')"
    "log_contents w' (rs @ [r])" "current_lsn w' = current_lsn w + 1" "records_op now (current_lsn w) op r"
    using log_record_contents [OF c, of COMMIT_TRANSACTION tx now WalNone "Some 0"] Commit
    by (auto simp: records_op_def)
  then have "force_sync w' = (Inr (), w')" by (intro force_sync_ready) (simp add: log_contents_def)
  then show ?thesis using w' Commit by (auto simp: log_commit_transaction_def)
next
  case Checkpoint
  obtain w' r where w': "log_record CHECKPOINT 0 now (WalLsn (current_lsn w)) (Some 8) w = (Inr (current_lsn w), w')"
    "log_contents w' (rs @ [r])" "current_lsn w' = current_lsn w + 1" "records_op now (current_lsn w) op r"
    using log_record_contents [OF c, of CHECKPOINT 0 now "WalLsn (current_lsn w)" "Some 8"] Checkpoint
    by (auto simp: records_op_def)
  let ?v = "w'\<lparr>last_checkpoint_lsn := current_lsn w,
      wal_header := (wal_header w')\<lparr>header_checkpoint_lsn := current_lsn w\<rparr>\<rparr>"
  let ?x = "snd (write_header (?v\<lparr>log_file := fs_seek 0 (log_file ?v)\<rparr>))"
  let ?z = "?x\<lparr>log_file := fs_seek (fs_tell (log_file ?v)) (log_file ?x)\<rparr>"
  have run: "checkpoint now w = (Inr (current_lsn w), snd (force_sync ?z))"
    using w'(1) by (simp add: checkpoint_def Let_def)
  have sync: "length (fs_data (log_file (snd (force_sync z)))) = length (fs_data (log_file z))" for z
    by (simp add: force_sync_def fs_flush_def Let_def)
  have v: "log_contents ?v (rs @ [r])"
    using w'(2) by (simp add: log_contents_def log_ready_def valid_header_def)
  have "length (fs_data (log_file ?v)) \<le> length (fs_data (log_file ?z))"
    by (simp add: write_header_def Let_def fs_write_def fs_seek_def)
  then have "log_fits ?v"
    using fits Checkpoint run sync [of ?z] by (simp add: log_fits_def)
  from checkpoint_header_contents [OF v this] have z: "log_contents ?z (rs @ [r])" by (simp add: Let_def)
  then have "force_sync ?z = (Inr (), ?z)" by (intro force_sync_ready) (simp add: log_contents_def)
  moreover have "current_lsn ?z = current_lsn w + 1"
    using w'(3) by (simp add: write_header_def Let_def)
  ultimately show ?thesis using run z w'(4) Checkpoint by auto
qed (use log_record_contents [OF c] in \<open>fastforce simp: records_op_def log_begin_transaction_def
    log_abort_transaction_def log_create_node_def log_update_node_def log_delete_node_def
    log_create_edge_def log_update_edge_def log_delete_edge_def\<close>)+

text \<open>No call shortens the log.\<close>

definition log_size :: "WALManager \<Rightarrow> nat" where
  "log_size w = length (fs_data (log_file w))"

lemma fs_write_grows: "length (fs_data f) \<le> length (fs_data (fs_write c f))"
  by (simp add: fs_write_def)

lemma fs_writes_grow: "length (fs_data f) \<le> length (fs_data (fold fs_write cs f))"
proof (induction cs arbitrary: f)
  case (Cons c cs)
  show ?case using order_trans [OF fs_write_grows Cons.IH] by simp
qed simp

lemma log_record_grows: "log_size w \<le> log_size (snd (log_record type tx now data sz w))"
  using fs_writes_grow [of "log_file w"]
  by (auto simp: log_record_def next_lsn_def write_record_def log_size_def Let_def)

lemma force_sync_size [simp]: "log_size (snd (force_sync w)) = log_size w"
  by (simp add: force_sync_def fs_flush_def log_size_def Let_def)

lemma write_header_grows: "log_size w \<le> log_size (snd (write_header w))"
  using fs_write_grows [of "fs_seek 0 (log_file w)"]
  by (simp add: write_header_def log_size_def Let_def)

lemma log_op_grows: "log_size w \<le> log_size (snd (log_op now op w))"
proof (cases op)
  case (Commit tx)
  then show ?thesis
    using log_record_grows [of w COMMIT_TRANSACTION tx now WalNone "Some 0"]
    by (auto simp: log_commit_transaction_def split: prod.splits sum.splits)
next
  case Checkpoint
  obtain r v where v: "log_record CHECKPOINT 0 now (WalLsn (current_lsn w)) (Some 8) w = (r, v)"
    by fastforce
  then have "log_size w \<le> log_size v"
    using log_record_grows [of w CHECKPOINT 0 now "WalLsn (current_lsn w)" "Some 8"] by simp
  moreover have "log_size v \<le> log_size (snd (checkpoint now w))" if "r = Inr l" for l
  proof -
    let ?v = "v\<lparr>last_checkpoint_lsn := current_lsn w,
        wal_header := (wal_header v)\<lparr>header_checkpoint_lsn := current_lsn w\<rparr>\<rparr>"
    let ?y = "?v\<lparr>log_file := fs_seek 0 (log_file ?v)\<rparr>"
    have "log_size v = log_size ?y" by (simp add: log_size_def)
    also have "\<dots> \<le> log_size (snd (write_header ?y))" by (rule write_header_grows)
    also have "\<dots> = log_size (snd (checkpoint now w))"
      using v that by (simp add: checkpoint_def Let_def) (simp add: log_size_def)
    finally show ?thesis .
  qed
  moreover have "snd (checkpoint now w) = v" if "r = Inl e" for e
    using v that by (simp add: checkpoint_def)
  ultimately show ?thesis using Checkpoint by (cases r) auto
qed (use log_record_grows in \<open>auto simp: log_begin_transaction_def log_abort_transaction_def
    log_create_node_def log_update_node_def log_delete_node_def log_create_edge_def
    log_update_edge_def log_delete_edge_def\<close>)

definition log_ops :: "(u64 \<times> wal_op) list \<Rightarrow> WALManager \<Rightarrow> WALManager" where
  "log_ops ops w = fold (\<lambda>(now, op) w. snd (log_op now op w)) ops w"

lemma log_ops_grow: "log_size w \<le> log_size (log_ops ops w)"
proof (induction ops arbitrary: w)
  case (Cons x ops)
  obtain now op where x: "x = (now, op)" by fastforce
  show ?case using order_trans [OF log_op_grows Cons.IH] by (simp add: log_ops_def x)
qed (simp add: log_ops_def)

text \<open>The records of a sequence of calls, numbered from \<open>l\<close>.\<close>

fun records_ops :: "lsn \<Rightarrow> (u64 \<times> wal_op) list \<Rightarrow> WALRecord list \<Rightarrow> bool" where
  "records_ops l [] rs \<longleftrightarrow> rs = []"
| "records_ops l ((now, op) # ops) [] \<longleftrightarrow> False"
| "records_ops l ((now, op) # ops) (r # rs) \<longleftrightarrow> records_op now l op r \<and> records_ops (l + 1) ops rs"

lemma log_ops_contents:
  assumes "log_contents w rs" and "log_size (log_ops ops w) < 2 ^ 63"
  shows "\<exists>new. log_contents (log_ops ops w) (rs @ new) \<and> records_ops (current_lsn w) ops new \<and>
           current_lsn (log_ops ops w) = current_lsn w + word_of_nat (length ops)"
  using assms
proof (induction ops arbitrary: w rs)
  case Nil
  then show ?case by (auto simp: log_ops_def)
next
  case (Cons x ops)
  obtain now op where x: "x = (now, op)" by fastforce
  let ?w = "snd (log_op now op w)"
  have step: "log_ops (x # ops) w = log_ops ops ?w" by (simp add: log_ops_def x)
  then have "log_fits ?w"
    using Cons.prems(2) log_ops_grow [of ?w ops] by (simp add: log_fits_def log_size_def)
  then have "op = Checkpoint \<longrightarrow> log_fits ?w" by blast
  from log_op_contents [OF Cons.prems(1) this] obtain r where r:
    "log_contents ?w (rs @ [r])" "current_lsn ?w = current_lsn w + 1"
    "records_op now (current_lsn w) op r" by auto
  from Cons.IH [OF r(1)] Cons.prems(2) step obtain new where
    "log_contents (log_ops ops ?w) ((rs @ [r]) @ new)" "records_ops (current_lsn ?w) ops new"
    "current_lsn (log_ops ops ?w) = current_lsn ?w + word_of_nat (length ops)" by auto
  then show ?case
    using r step by (intro exI [of _ "r # new"]) (simp add: x add.assoc)
qed

text \<open>A new log is ready and holds no records.\<close>

lemma new_log_contents:
  assumes "valid_header (wal_header w0)"
  shows "\<exists>w. new_WALManager now None True w0 = Inr w \<and> log_contents w [] \<and>
             current_lsn w = current_lsn w0"
proof -
  let ?h = "(wal_header w0)\<lparr>creation_time := now\<rparr>"
  have "valid_header ?h" using assms by (simp add: valid_header_def)
  moreover have "new_WALManager now None True w0 =
      Inr (w0\<lparr>log_file := (fs_opened [])\<lparr>fs_data := WALHeader_bytes ?h, fs_pos := sizeof_WALHeader\<rparr>,
              wal_header := ?h\<rparr>)"
    by (simp add: new_WALManager_def write_header_def fs_opened_def fs_seek_def fs_write_def
        fs_usable_def fs_good_def fs_fail_def overwrite_def length_WALHeader_bytes Let_def)
  ultimately show ?thesis
    by (auto simp: log_contents_def log_ready_def fs_opened_def fs_usable_def fs_good_def
        length_WALHeader_bytes)
qed

section \<open>Reading a whole log\<close>

text \<open>Calls whose record can be read back.\<close>

fun replayable :: "wal_op \<Rightarrow> bool" where
  "replayable (CreateNode tx n ps) \<longleftrightarrow>
     length ps < 2 ^ 32 \<and> (\<forall>p \<in> set ps. length (prop_key p) < 2 ^ 32)"
| "replayable (UpdateNode tx n ps) \<longleftrightarrow>
     length ps < 2 ^ 32 \<and> (\<forall>p \<in> set ps. length (prop_key p) < 2 ^ 32)"
| "replayable (DeleteNode tx n) \<longleftrightarrow> False"
| "replayable (CreateEdge tx e a b l ps) \<longleftrightarrow> False"
| "replayable (UpdateEdge tx e ps) \<longleftrightarrow> False"
| "replayable (DeleteEdge tx e) \<longleftrightarrow> False"
| "replayable op \<longleftrightarrow> True"

lemma records_op_recoverable: "records_op now l op r \<Longrightarrow> replayable op \<Longrightarrow> recoverable r"
  by (cases op) (auto simp: records_op_def recoverable_def)

lemma records_ops_recoverable:
  "records_ops l ops rs \<Longrightarrow> \<forall>x \<in> set ops. replayable (snd x) \<Longrightarrow> \<forall>r \<in> set rs. recoverable r"
  by (induction l ops rs rule: records_ops.induct) (auto dest: records_op_recoverable)

lemma records_ops_length: "records_ops l ops rs \<Longrightarrow> length rs = length ops"
  by (induction l ops rs rule: records_ops.induct) auto

text \<open>The largest number in a log that was written from 1 on.\<close>

lemma records_ops_max:
  assumes "records_ops l ops rs" and "unat l + length ops < 2 ^ 64" and "0 < l"
  shows "fold (\<lambda>r m. max m (rec_lsn r)) rs (l - 1) = l + word_of_nat (length ops) - 1"
  using assms
proof (induction l ops rs rule: records_ops.induct)
  case (3 l now op ops r rs)
  have less: "unat l < 2 ^ 64 - 1" using 3(3) by simp
  then have "l \<noteq> - 1" by (auto simp: unsigned_minus_1_eq_mask mask_eq_exp_minus_1)
  then have u: "unat (l + 1) = unat l + 1" by (rule unat_plus1)
  then have l: "0 < l + 1" "l - 1 \<le> l" "unat (l + 1) = unat l + 1"
    using 3(4) by (auto simp: word_less_nat_alt word_le_nat_alt unat_sub_if')
  have "rec_lsn r = l" using 3(2) by (simp add: records_op_def)
  then have m: "max (l - 1) (rec_lsn r) = l" using l by simp
  have "fold (\<lambda>r m. max m (rec_lsn r)) rs (l + 1 - 1) = l + 1 + word_of_nat (length ops) - 1"
    using 3 l by (intro 3(1)) auto
  then show ?case using m by (simp add: algebra_simps)
qed auto

lemma WALHeader_of_bytes_bytes: "WALHeader_of_bytes (WALHeader_bytes h) = h"
  by (simp add: WALHeader_of_bytes_def WALHeader_bytes_def field_at_def le_word_le_bytes)

lemma read_header_written:
  assumes "valid_header h" and "data = WALHeader_bytes h @ ys"
  shows "read_header (w\<lparr>log_file := fs_opened data\<rparr>) =
           (Inr True, w\<lparr>log_file := (fs_opened data)\<lparr>fs_pos := sizeof_WALHeader\<rparr>, wal_header := h\<rparr>)"
proof -
  have "ahead (fs_seek 0 (fs_opened data)) (WALHeader_bytes h @ ys)"
    by (simp add: assms(2) ahead_def fs_seek_def fs_opened_def fs_usable_def fs_good_def fs_fail_def)
  from fs_read_ahead [OF this] have
    rd: "fs_read sizeof_WALHeader (fs_seek 0 (fs_opened data)) =
           (WALHeader_bytes h, (fs_opened data)\<lparr>fs_pos := sizeof_WALHeader\<rparr>)"
    by (simp add: length_WALHeader_bytes skip_def fs_seek_def fs_opened_def fs_usable_def fs_fail_def)
  have "\<not> fs_fail ((fs_opened data)\<lparr>fs_pos := sizeof_WALHeader\<rparr>)"
    by (simp add: fs_opened_def fs_fail_def)
  then show ?thesis
    using assms(1)
    by (simp add: read_header_def rd WALHeader_of_bytes_bytes valid_header_def length_WALHeader_bytes)
qed

lemma log_contents_reading:
  assumes "log_contents w rs"
  shows "ahead (fs_seek (word_of_nat sizeof_WALHeader) (fs_opened (fs_data (log_file w))))
           (concat (map record_bytes rs))"
proof -
  obtain h where "fs_data (log_file w) = WALHeader_bytes h @ concat (map record_bytes rs)"
    using assms by (auto simp: log_contents_def)
  then show ?thesis
    by (simp add: ahead_def fs_seek_def fs_opened_def fs_usable_def fs_good_def fs_fail_def
        sizeof_WALHeader_def length_WALHeader_bytes [unfolded sizeof_WALHeader_def])
qed

lemma record_bytes_length: "wal_fixed_size \<le> length (record_bytes r)"
  by (simp add: record_bytes_def record_chunks_def wal_fixed_size_def)

lemma records_bytes_length: "length rs \<le> length (concat (map record_bytes rs))"
proof (induction rs)
  case (Cons r rs)
  then show ?case using record_bytes_length [of r] by (simp add: wal_fixed_size_def)
qed simp

lemma log_contents_length: "log_contents w rs \<Longrightarrow> length rs \<le> log_size w"
  using records_bytes_length [of rs] by (auto simp: log_contents_def log_size_def)

lemma sint_offset: "n < 2 ^ 63 \<Longrightarrow> sint (word_of_nat n :: u64) = int n"
  by (simp add: signed_of_nat signed_take_bit_int_eq_self)

lemma wal_scan_records:
  assumes "\<forall>r \<in> set rs. recoverable r" and "ahead f (concat (map record_bytes rs))"
    and "length (fs_data f) < 2 ^ 63" and "fs_pos f \<le> length (fs_data f)"
  shows "\<exists>n. wal_scan (word_of_nat (length (fs_data f))) m f =
               (Inr (fold (\<lambda>r m. max m (rec_lsn r)) rs m), skip n f)"
  using assms
proof (induction rs arbitrary: f m)
  case Nil
  then have "fs_pos f = length (fs_data f)" by (simp add: ahead_def)
  then have "fs_tell f = word_of_nat (length (fs_data f))"
    using Nil by (simp add: fs_tell_usable ahead_def)
  then show ?case
    by (intro exI [of _ 0]) (simp add: wal_scan.simps skip_def)
next
  case (Cons r rs)
  let ?size = "word_of_nat (length (fs_data f)) :: u64"
  obtain n where n: "read_record f = (Inr (as_read r), skip n f)"
    "ahead (skip n f) (concat (map record_bytes rs))"
    using read_record_ahead [of r f "concat (map record_bytes rs)"] Cons.prems by auto
  have "length (drop (fs_pos f) (fs_data f)) \<ge> 29"
    using Cons.prems(2) record_bytes_length [of r] by (simp add: ahead_def wal_fixed_size_def)
  then have less: "fs_pos f < length (fs_data f)" by simp
  have "fs_tell f = word_of_nat (fs_pos f)"
    using Cons.prems(2) by (simp add: fs_tell_usable ahead_def)
  then have before: "sint (fs_tell f) < sint ?size"
    using less Cons.prems(3) by (simp add: sint_offset)
  have pos: "fs_pos (skip n f) \<le> length (fs_data (skip n f))"
    using reads_read_record [OF n(1)] less by (simp add: reads_def)
  have lsn: "rec_lsn (as_read r) = rec_lsn r" by (simp add: as_read_def)
  from Cons.IH [OF _ n(2) _ pos, of "max m (rec_lsn r)"] Cons.prems(1,3) obtain k where
    "wal_scan ?size (max m (rec_lsn r)) (skip n f) =
       (Inr (fold (\<lambda>r m. max m (rec_lsn r)) rs (max m (rec_lsn r))), skip k (skip n f))"
    by (auto simp: skip_def)
  then show ?case
    using before n(1) lsn by (intro exI [of _ "n + k"]) (simp add: wal_scan.simps [of _ m f])
qed

section \<open>Properties\<close>

text \<open>The log that a sequence of calls leaves, started from a new one.\<close>

definition written_log :: "u64 \<Rightarrow> (u64 \<times> wal_op) list \<Rightarrow> WALManager \<Rightarrow> WALManager" where
  "written_log now ops w0 =
     (case new_WALManager now None True w0 of Inl e \<Rightarrow> w0 | Inr w \<Rightarrow> log_ops ops w)"

definition initial_wal :: "WALManager \<Rightarrow> bool" where
  "initial_wal w0 \<longleftrightarrow> valid_header (wal_header w0) \<and> current_lsn w0 = 1"

lemma written_log_contents:
  assumes "initial_wal w0" and "log_size (written_log now ops w0) < 2 ^ 63"
  shows "\<exists>rs. log_contents (written_log now ops w0) rs \<and> records_ops 1 ops rs \<and>
              current_lsn (written_log now ops w0) = 1 + word_of_nat (length ops) \<and>
              unat (1 :: lsn) + length ops < 2 ^ 64"
proof -
  obtain w where w: "new_WALManager now None True w0 = Inr w" "log_contents w []"
    "current_lsn w = 1"
    using new_log_contents [of w0 now] assms(1) by (auto simp: initial_wal_def)
  then have run: "written_log now ops w0 = log_ops ops w" by (simp add: written_log_def)
  from log_ops_contents [OF w(2), of ops] assms(2) run obtain rs where
    rs: "log_contents (log_ops ops w) rs" "records_ops 1 ops rs"
    "current_lsn (log_ops ops w) = 1 + word_of_nat (length ops)"
    using w(3) by auto
  moreover have "length ops < 2 ^ 63"
    using records_ops_length [OF rs(2)] log_contents_length [OF rs(1)] assms(2) run by simp
  ultimately show ?thesis using run by auto
qed



definition example_wal :: WALManager where
  "example_wal = \<lparr>log_file = fs_opened [], current_lsn = 1, last_checkpoint_lsn = 0,
      wal_header = \<lparr>wal_magic = 0xDEADBEEF, wal_version = 1, creation_time = 0,
                     header_checkpoint_lsn = 0\<rparr>\<rparr>"

definition example_ops :: "(u64 \<times> wal_op) list" where
  "example_ops =
     [(5, Begin 1), (6, CreateNode 1 7 [\<lparr>prop_key = ''k'', prop_value = IntV 3\<rparr>]),
      (7, Commit 1)]"

lemmas log_eval = log_size_def written_log_def new_WALManager_def log_ops_def
  log_begin_transaction_def log_commit_transaction_def log_create_node_def 
  log_record_def next_lsn_def write_record_def record_chunks_def string_chunks_def
  property_chunks_def write_header_def WALHeader_bytes_def force_sync_def fs_write_def fs_opened_def
  fs_good_def fs_fail_def fs_seek_def fs_usable_def fs_flush_def overwrite_def

lemma example_log:
  "initial_wal example_wal" "\<forall>x \<in> set example_ops. replayable (snd x)"
  "log_size (written_log 0 example_ops example_wal) < 2 ^ 63"
  by (simp_all add: example_wal_def example_ops_def initial_wal_def valid_header_def log_eval Let_def)


text \<open>
  Opening an existing log resumes it: the constructor finds the log that any such sequence
  of calls left, numbers the next record after the last one in the file, takes the
  checkpoint from the header in the file, and is ready to write behind the last record.
\<close>

theorem reopened_log_resumes:
  assumes "initial_wal w0" and "\<forall>x \<in> set ops. replayable (snd x)"
    and "log_size (written_log now ops w0) < 2 ^ 63"
  shows "\<exists>w rs. new_WALManager now' (Some (fs_data (log_file (written_log now ops w0)))) can_create w1 =
             Inr w \<and>
           log_contents w rs \<and> records_ops 1 ops rs \<and> current_lsn w = 1 + word_of_nat (length ops) \<and>
           last_checkpoint_lsn w = header_checkpoint_lsn (wal_header w) \<and>
           fs_data (log_file w) = fs_data (log_file (written_log now ops w0))"
proof -
  let ?data = "fs_data (log_file (written_log now ops w0))"
  obtain rs where rs: "log_contents (written_log now ops w0) rs" "records_ops 1 ops rs"
    "unat (1 :: lsn) + length ops < 2 ^ 64"
    using written_log_contents [OF assms(1,3)] by blast
  obtain h where h: "valid_header h" "?data = WALHeader_bytes h @ concat (map record_bytes rs)"
    using rs(1) by (auto simp: log_contents_def)
  have max: "fold (\<lambda>r m. max m (rec_lsn r)) rs 0 = word_of_nat (length ops)"
    using records_ops_max [OF rs(2,3)] by simp
  let ?f = "(fs_opened ?data)\<lparr>fs_pos := sizeof_WALHeader\<rparr>"
  have hdr: "read_header (w1\<lparr>log_file := fs_opened ?data\<rparr>) =
      (Inr True, w1\<lparr>log_file := ?f, wal_header := h\<rparr>)"
    by (rule read_header_written) (use h in simp_all)
  have a: "ahead ?f (concat (map record_bytes rs))"
    using h(2) by (simp add: ahead_def fs_opened_def fs_usable_def fs_good_def length_WALHeader_bytes)
  have "length ?data < 2 ^ 63" using assms(3) by (simp add: log_size_def)
  then obtain n where scan: "wal_scan (word_of_nat (length ?data)) 0 ?f =
      (Inr (word_of_nat (length ops)), skip n ?f)"
    using wal_scan_records [OF records_ops_recoverable [OF rs(2) assms(2)] a, of 0] max h(2)
    by (auto simp: fs_opened_def length_WALHeader_bytes)
  have end_eq: "fs_seek_end ?f = (fs_opened ?data)\<lparr>fs_pos := length ?data\<rparr>"
    "fs_tell ((fs_opened ?data)\<lparr>fs_pos := length ?data\<rparr>) = word_of_nat (length ?data)"
    "fs_seek (word_of_nat sizeof_WALHeader) ((fs_opened ?data)\<lparr>fs_pos := length ?data\<rparr>) = ?f"
    by (simp_all add: fs_seek_end_def fs_opened_def fs_usable_def fs_good_def fs_fail_def fs_tell_def
        fs_seek_def sizeof_WALHeader_def)
  have last: "fs_seek_end (fs_clear (skip n ?f)) = ?f\<lparr>fs_pos := length ?data\<rparr>"
    by (simp add: fs_seek_end_def fs_clear_def skip_def fs_opened_def fs_usable_def fs_fail_def)
  have "new_WALManager now' (Some ?data) can_create w1 =
      Inr (w1\<lparr>log_file := ?f\<lparr>fs_pos := length ?data\<rparr>, wal_header := h,
             current_lsn := word_of_nat (length ops) + 1,
             last_checkpoint_lsn := header_checkpoint_lsn h\<rparr>)"
    by (simp add: new_WALManager_def hdr end_eq scan last Let_def)
  then show ?thesis
    using rs(2) h
    by (auto intro!: exI [of _ rs] simp: log_contents_def log_ready_def fs_opened_def fs_usable_def fs_good_def)
qed

theorem reopened_log_resumes_witness:
  "\<exists>w. new_WALManager 9 (Some (fs_data (log_file (written_log 0 example_ops example_wal)))) True
         example_wal = Inr w \<and> log_ready w \<and> current_lsn w = 4"
  using reopened_log_resumes [OF example_log, of 9 True example_wal]
  by (auto simp: log_contents_def example_ops_def)

text \<open>A fixed part with a type that \<open>read_record\<close> has no case for.\<close>

lemma read_field_bytes:
  "ahead f (xs @ ys) \<Longrightarrow> length xs = n \<Longrightarrow>
     read_field n f = (Some (le_word xs), skip n f) \<and> ahead (skip n f) ys"
  using fs_read_ahead [of f xs ys] ahead_skip [of f xs ys] by (simp add: read_field_def)

lemma read_record_unknown:
  assumes a: "ahead f (xs @ ys)" and len: "length xs = 29"
    and type: "xs ! 16 \<notin> wal_type_code ` {BEGIN_TRANSACTION, COMMIT_TRANSACTION,
      ABORT_TRANSACTION, CREATE_NODE, UPDATE_NODE, DELETE_NODE, CHECKPOINT}"
  shows "read_record f = (Inl (Error CORRUPTION ''Unknown WAL record type''), skip 29 f) \<and>
         ahead (skip 29 f) ys"
proof -
  define t where "t = xs ! 16"
  have "xs = take 8 xs @ take 8 (drop 8 xs) @ [t] @ take 8 (drop 17 xs) @ drop 25 xs"
  proof -
    have "take 16 xs = take 8 xs @ take 8 (drop 8 xs)" by (simp flip: take_add)
    moreover have "drop 17 xs = take 8 (drop 17 xs) @ drop 25 xs"
      using append_take_drop_id [of 8 "drop 17 xs"] by simp
    moreover have "xs = take 16 xs @ [t] @ drop 17 xs"
      using id_take_nth_drop [of 16 xs] len by (simp add: t_def)
    ultimately show ?thesis by (metis append_assoc)
  qed
  then have a0: "ahead f (take 8 xs @ take 8 (drop 8 xs) @ [t] @ take 8 (drop 17 xs) @ drop 25 xs @ ys)"
    using a by (metis append_assoc)
  have s1: "read_field 8 f = (Some (le_word (take 8 xs) :: u64), skip 8 f)"
    and a1: "ahead (skip 8 f) (take 8 (drop 8 xs) @ [t] @ take 8 (drop 17 xs) @ drop 25 xs @ ys)"
    using read_field_bytes [OF a0, of 8, where 'a = 64] len by simp_all
  have s2: "read_field 8 (skip 8 f) = (Some (le_word (take 8 (drop 8 xs)) :: u64), skip 16 f)"
    and a2: "ahead (skip 16 f) ([t] @ take 8 (drop 17 xs) @ drop 25 xs @ ys)"
    using read_field_bytes [OF a1, of 8, where 'a = 64] len by simp_all
  have s3: "read_field 1 (skip 16 f) = (Some t, skip 17 f)"
    and a3: "ahead (skip 17 f) (take 8 (drop 17 xs) @ drop 25 xs @ ys)"
    using read_byte_ahead [of "skip 16 f" t] a2 by simp_all
  have s4: "read_field 8 (skip 17 f) = (Some (le_word (take 8 (drop 17 xs)) :: u64), skip 25 f)"
    and a4: "ahead (skip 25 f) (drop 25 xs @ ys)"
    using read_field_bytes [OF a3, of 8, where 'a = 64] len by simp_all
  have s5: "read_field 4 (skip 25 f) = (Some (le_word (drop 25 xs) :: u32), skip 29 f)"
    and a5: "ahead (skip 29 f) ys"
    using read_field_bytes [OF a4, of 4, where 'a = 32] len by simp_all
  have "read_wal_data t g = (Inl (Error CORRUPTION ''Unknown WAL record type''), g)" for g
    using type unfolding t_def [symmetric] by (auto simp: read_wal_data_def)
  then show ?thesis
    using s1 s2 s3 s4 s5 a5 ahead_not_fail [OF a5]
    by (simp add: read_record_def del: One_nat_def)
qed

text \<open>
  The record of an edge cannot be read: \<open>read_record\<close> has no case for the three
  edge types and reports corruption, with the stream behind the fixed part of the record.
\<close>

theorem edge_record_unreadable:
  assumes "rec_type r \<in> wal_type_code ` {CREATE_EDGE, UPDATE_EDGE, DELETE_EDGE}"
    and "ahead f (record_bytes r @ ys)"
  shows "read_record f = (Inl (Error CORRUPTION ''Unknown WAL record type''), skip wal_fixed_size f)"
proof -
  let ?xs = "concat (take 5 (record_chunks r))" and ?data = "concat (drop 5 (record_chunks r))"
  have "record_bytes r = ?xs @ ?data" by (simp add: record_bytes_def record_chunks_def)
  moreover have "length ?xs = 29" "?xs ! 16 = rec_type r"
    by (simp_all add: record_chunks_def nth_append)
  ultimately show ?thesis
    using assms read_record_unknown [of f ?xs "?data @ ys"] by (auto simp: wal_fixed_size_def)
qed

theorem edge_record_unreadable_witness:
  "\<exists>r f. rec_data r = WalEdge 1 2 3 ''knows'' [] \<and> fs_data f = record_bytes r \<and>
     read_record f = (Inl (Error CORRUPTION ''Unknown WAL record type''), skip wal_fixed_size f)"
proof -
  let ?r = "\<lparr>rec_lsn = 1, rec_tx_id = 1, rec_type = wal_type_code CREATE_EDGE, rec_timestamp = 5,
      rec_data_size = 33, rec_data = WalEdge 1 2 3 ''knows'' []\<rparr>"
  have "ahead (fs_opened (record_bytes ?r)) (record_bytes ?r @ [])"
    by (simp add: ahead_def fs_opened_def fs_usable_def fs_good_def)
  from edge_record_unreadable [OF _ this] show ?thesis
    by (intro exI [of _ ?r] exI [of _ "fs_opened (record_bytes ?r)"]) (simp add: fs_opened_def)
qed

text \<open>The record of a deletion is read up to the count of properties behind the node.\<close>

lemma read_delete_record:
  assumes "rec_type r = wal_type_code DELETE_NODE" and "rec_data r = WalNode node []"
    and a: "ahead f (record_bytes r @ ys)"
  shows "read_record f = (Inr r, skip 37 f) \<and> ahead (skip 37 f) (le_bytes 4 (0 :: u32) @ ys)"
proof -
  have a0: "ahead f (le_bytes 8 (rec_lsn r) @ le_bytes 8 (rec_tx_id r) @ rec_type r #
      le_bytes 8 (rec_timestamp r) @ le_bytes 4 (rec_data_size r) @ le_bytes 8 node @
      le_bytes 4 (0 :: u32) @ ys)"
    using a assms(2) by (simp add: record_bytes_def record_chunks_def property_chunks_def)
  note s1 = read_u64_ahead [OF a0]
  note s2 = read_u64_ahead [OF s1 [THEN conjunct2]]
  note s3 = read_byte_ahead [OF s2 [THEN conjunct2]]
  note s4 = read_u64_ahead [OF s3 [THEN conjunct2]]
  note s5 = read_u32_ahead [OF s4 [THEN conjunct2]]
  note s6 = read_u64_ahead [OF s5 [THEN conjunct2]]
  have "read_wal_data (rec_type r) (skip 29 f) = (Inr (WalNode node []), skip 37 f)"
    using s6 assms(1) by (simp add: read_wal_data_def)
  moreover have "\<not> fs_fail (skip 29 f)" "\<not> fs_fail (skip 37 f)"
    using s5 s6 by (auto dest: ahead_not_fail)
  moreover have "\<lparr>rec_lsn = rec_lsn r, rec_tx_id = rec_tx_id r, rec_type = rec_type r,
      rec_timestamp = rec_timestamp r, rec_data_size = rec_data_size r, rec_data = WalNode node []\<rparr> = r"
    using assms(2) by simp
  ultimately show ?thesis
    using s1 s2 s3 s4 s5 s6 by (simp add: read_record_def del: One_nat_def)
qed

lemma le_bytes_high_zero: "unat tx < 2 ^ 32 \<Longrightarrow> le_bytes 8 (tx :: u64) ! 4 = 0"
proof -
  assume "unat tx < 2 ^ 32"
  then have "drop_bit 32 tx = 0" by (simp add: word_unat_eq_iff drop_bit_eq_div unat_div)
  then show ?thesis by (simp add: le_bytes_numeral)
qed

text \<open>
  C34. The record of a deleted node hides what follows it: \<open>write_record\<close> writes a count of
  properties behind the node, which \<open>read_record\<close> does not read for this type. Of a log
  with the deletion and the commit of its transaction, recovery delivers the deletion only.
\<close>

theorem delete_node_hides_commit:
  assumes "initial_wal w0" and "unat tx < 2 ^ 32"
  shows "\<exists>r w. records_op t1 1 (DeleteNode tx node) r \<and>
    recover_from_log (\<lambda>r rs. (Inr (), rs @ [r]))
      (Some (fs_data (log_file (written_log now [(t1, DeleteNode tx node), (t2, Commit tx)] w0)))) []
      (written_log now [(t1, DeleteNode tx node), (t2, Commit tx)] w0) = (Inr (), [r], w) \<and>
    current_lsn w = 2"
proof -
  let ?d = "(t1, DeleteNode tx node)" and ?c = "(t2, Commit tx)"
  obtain w1 where w1: "new_WALManager now None True w0 = Inr w1" "log_contents w1 []" "current_lsn w1 = 1"
    using new_log_contents [of w0 now] assms(1) by (auto simp: initial_wal_def)
  obtain w2 r where r: "log_op t1 (DeleteNode tx node) w1 = (Inr 1, w2)" "log_contents w2 [r]"
    "current_lsn w2 = 2" "records_op t1 1 (DeleteNode tx node) r"
    using log_op_contents [OF w1(2), of "DeleteNode tx node" t1] w1(3) by auto
  obtain w3 q where q: "log_op t2 (Commit tx) w2 = (Inr 2, w3)" "log_contents w3 [r, q]"
    "records_op t2 2 (Commit tx) q"
    using log_op_contents [OF r(2), of "Commit tx" t2] r(3) by auto
  have run: "written_log now [?d, ?c] w0 = w3"
    using w1(1) r(1) q(1) by (simp add: written_log_def log_ops_def)
  let ?f = "fs_seek (word_of_nat sizeof_WALHeader) (fs_opened (fs_data (log_file w3)))"
  let ?zs = "le_bytes 4 (0 :: u32)"
  have a: "ahead ?f (record_bytes r @ record_bytes q)"
    using log_contents_reading [OF q(2)] by simp
  have "rec_type r = wal_type_code DELETE_NODE" "rec_data r = WalNode node []"
    using r(4) by (simp_all add: records_op_def)
  from read_delete_record [OF this a]
  have read: "read_record ?f = (Inr r, skip 37 ?f)" "ahead (skip 37 ?f) (?zs @ record_bytes q)"
    by simp_all
  let ?bs = "?zs @ record_bytes q"
  have "rec_data q = WalNone" "rec_tx_id q = tx" "rec_lsn q = 2"
    using q(3) by (simp_all add: records_op_def)
  then have bs: "?bs = ?zs @ le_bytes 8 (2 :: lsn) @ le_bytes 8 tx @ rec_type q #
      le_bytes 8 (rec_timestamp q) @ le_bytes 4 (rec_data_size q)"
    by (simp add: record_bytes_def record_chunks_def)
  have len: "length ?bs = 33" by (simp add: bs)
  have "le_bytes 8 tx ! 4 = 0" using assms(2) by (rule le_bytes_high_zero)
  then have b16: "take 29 ?bs ! 16 = 0" unfolding bs by (simp add: nth_append)
  have "read_record (skip 37 ?f) =
      (Inl (Error CORRUPTION ''Unknown WAL record type''), skip 29 (skip 37 ?f)) \<and>
      ahead (skip 29 (skip 37 ?f)) (drop 29 ?bs)"
  proof (rule read_record_unknown)
    show "ahead (skip 37 ?f) (take 29 ?bs @ drop 29 ?bs)" using read(2) by (simp only: append_take_drop_id)
    show "length (take 29 ?bs) = 29" using len by (simp only: length_take)
  qed (unfold b16, simp)
  then have second: "read_record (skip 37 ?f) =
      (Inl (Error CORRUPTION ''Unknown WAL record type''), skip 66 ?f)"
    and rest: "ahead (skip 66 ?f) (drop 29 ?bs)" by simp_all
  obtain g where third: "read_record (skip 66 ?f) =
      (Inl (Error IO_ERROR ''Failed to read record header''), g)" "fs_eofbit g"
    using read_record_end [OF rest] len by auto
  have good: "fs_good ?f" "fs_good (skip 37 ?f)" "fs_good (skip 66 ?f)"
    using a read(2) rest by (simp_all add: ahead_def)
  then have "\<not> fs_eofbit (skip 66 ?f)" by (simp add: fs_good_def)
  with good have "recover_loop (\<lambda>r rs. (Inr (), rs @ [r])) 0 ?f [] = (Inr (max 0 (rec_lsn r)), [r])"
    by (simp add: recover_loop.simps [where f = ?f] recover_loop.simps [where f = "skip 37 ?f"]
        recover_loop.simps [where f = "skip 66 ?f"] read(1) second third)
  then show ?thesis
    using r(4) by (intro exI [of _ r] exI [of _ "w3\<lparr>current_lsn := 2\<rparr>"])
      (simp add: run recover_from_log_def records_op_def)
qed

theorem delete_node_hides_commit_witness:
  "\<exists>r w. recover_from_log (\<lambda>r rs. (Inr (), rs @ [r]))
      (Some (fs_data (log_file (written_log 0 [(5, DeleteNode 1 7), (6, Commit 1)] example_wal)))) []
      (written_log 0 [(5, DeleteNode 1 7), (6, Commit 1)] example_wal) = (Inr (), [r], w)"
  using delete_node_hides_commit [OF example_log(1), of 1 5 7 0 6] by auto

end
