(* ===== verification/IndexManager.thy ===== *)
theory IndexManager
  imports LorePrelude "HOL-Library.Finite_Map"
begin

text \<open>
  \<open>storage/simple_index_manager.h\<close> and \<open>storage/simple_index_manager.cpp\<close>: the
  in-memory indexes from property values to nodes and edges, and the adjacency lists. The
  hash maps, whose sizes are reported, are finite maps; the vectors are lists. Every
  operation holds the lock of what it touches from its first access to its last, so it is one
  step of the model.
\<close>

section \<open>State\<close>

record PropertyKey =
  key_name :: string
  key_value :: string

record SimpleIndexManager =
  node_property_index :: "(PropertyKey, node_id list) fmap"
  edge_property_index :: "(PropertyKey, edge_id list) fmap"
  outgoing_adjacency :: "(node_id, edge_id list) fmap"
  incoming_adjacency :: "(node_id, edge_id list) fmap"
  edge_endpoints :: "(edge_id, node_id \<times> node_id) fmap"

definition new_SimpleIndexManager :: SimpleIndexManager where
  "new_SimpleIndexManager =
     \<lparr>node_property_index = fmempty, edge_property_index = fmempty, outgoing_adjacency = fmempty,
      incoming_adjacency = fmempty, edge_endpoints = fmempty\<rparr>"

text \<open>\<open>m[k]\<close> as a value, created empty where it is missing, and changed by \<open>f\<close>.\<close>

definition at_key :: "'k \<Rightarrow> ('k, 'v list) fmap \<Rightarrow> 'v list" where
  "at_key k m = (case fmlookup m k of None \<Rightarrow> [] | Some xs \<Rightarrow> xs)"

definition change_at :: "'k \<Rightarrow> ('v list \<Rightarrow> 'v list) \<Rightarrow> ('k, 'v list) fmap \<Rightarrow> ('k, 'v list) fmap" where
  "change_at k f m = fmupd k (f (at_key k m)) m"

lemma at_key_change_at [simp]:
  "at_key j (change_at k f m) = (if j = k then f (at_key k m) else at_key j m)"
  by (simp add: at_key_def change_at_def)

lemma at_key_empty [simp]: "at_key k fmempty = []"
  by (simp add: at_key_def)

section \<open>Properties of nodes and edges\<close>

definition index_node_property :: "node_id \<Rightarrow> string \<Rightarrow> string \<Rightarrow> SimpleIndexManager \<Rightarrow> SimpleIndexManager" where
  "index_node_property node k v m =
     m\<lparr>node_property_index :=
         change_at \<lparr>key_name = k, key_value = v\<rparr> (\<lambda>vec. vec @ [node]) (node_property_index m)\<rparr>"

definition remove_node_property_index ::
  "node_id \<Rightarrow> string \<Rightarrow> string \<Rightarrow> SimpleIndexManager \<Rightarrow> SimpleIndexManager" where
  "remove_node_property_index node k v m =
     (let prop_key = \<lparr>key_name = k, key_value = v\<rparr> in
      case fmlookup (node_property_index m) prop_key of
        None \<Rightarrow> m
      | Some vec \<Rightarrow>
          m\<lparr>node_property_index :=
              fmupd prop_key (filter (\<lambda>i. i \<noteq> node) vec) (node_property_index m)\<rparr>)"

definition find_nodes_by_property :: "string \<Rightarrow> string \<Rightarrow> SimpleIndexManager \<Rightarrow> node_id list" where
  "find_nodes_by_property k v m = at_key \<lparr>key_name = k, key_value = v\<rparr> (node_property_index m)"

definition index_edge_property :: "edge_id \<Rightarrow> string \<Rightarrow> string \<Rightarrow> SimpleIndexManager \<Rightarrow> SimpleIndexManager" where
  "index_edge_property edge k v m =
     m\<lparr>edge_property_index :=
         change_at \<lparr>key_name = k, key_value = v\<rparr> (\<lambda>vec. vec @ [edge]) (edge_property_index m)\<rparr>"

definition remove_edge_property_index ::
  "edge_id \<Rightarrow> string \<Rightarrow> string \<Rightarrow> SimpleIndexManager \<Rightarrow> SimpleIndexManager" where
  "remove_edge_property_index edge k v m =
     (let prop_key = \<lparr>key_name = k, key_value = v\<rparr> in
      case fmlookup (edge_property_index m) prop_key of
        None \<Rightarrow> m
      | Some vec \<Rightarrow>
          m\<lparr>edge_property_index :=
              fmupd prop_key (filter (\<lambda>i. i \<noteq> edge) vec) (edge_property_index m)\<rparr>)"

definition find_edges_by_property :: "string \<Rightarrow> string \<Rightarrow> SimpleIndexManager \<Rightarrow> edge_id list" where
  "find_edges_by_property k v m = at_key \<lparr>key_name = k, key_value = v\<rparr> (edge_property_index m)"

section \<open>Adjacency\<close>

definition add_edge_to_adjacency ::
  "node_id \<Rightarrow> node_id \<Rightarrow> edge_id \<Rightarrow> SimpleIndexManager \<Rightarrow> SimpleIndexManager" where
  "add_edge_to_adjacency src dst edge m =
     m\<lparr>outgoing_adjacency := change_at src (\<lambda>es. es @ [edge]) (outgoing_adjacency m),
       incoming_adjacency := change_at dst (\<lambda>es. es @ [edge]) (incoming_adjacency m),
       edge_endpoints := fmupd edge (src, dst) (edge_endpoints m)\<rparr>"

definition remove_edge_from_adjacency ::
  "node_id \<Rightarrow> node_id \<Rightarrow> edge_id \<Rightarrow> SimpleIndexManager \<Rightarrow> SimpleIndexManager" where
  "remove_edge_from_adjacency src dst edge m =
     m\<lparr>outgoing_adjacency := change_at src (filter (\<lambda>e. e \<noteq> edge)) (outgoing_adjacency m),
       incoming_adjacency := change_at dst (filter (\<lambda>e. e \<noteq> edge)) (incoming_adjacency m),
       edge_endpoints := fmdrop edge (edge_endpoints m)\<rparr>"

definition index_outgoing_edges :: "node_id \<Rightarrow> SimpleIndexManager \<Rightarrow> edge_id list" where
  "index_outgoing_edges node m = at_key node (outgoing_adjacency m)"

definition index_incoming_edges :: "node_id \<Rightarrow> SimpleIndexManager \<Rightarrow> edge_id list" where
  "index_incoming_edges node m = at_key node (incoming_adjacency m)"

text \<open>The lambda \<open>collect\<close>, then \<open>std::sort\<close> and \<open>std::unique\<close>.\<close>

definition other_end :: "node_id \<Rightarrow> (node_id \<times> node_id) option \<Rightarrow> node_id list" where
  "other_end node ends =
     (case ends of None \<Rightarrow> [] | Some (src, dst) \<Rightarrow> [if src = node then dst else src])"

definition collect_others :: "node_id \<Rightarrow> SimpleIndexManager \<Rightarrow> edge_id list \<Rightarrow> node_id list" where
  "collect_others node m es = concat (map (\<lambda>eid. other_end node (fmlookup (edge_endpoints m) eid)) es)"

definition index_adjacent_nodes :: "node_id \<Rightarrow> SimpleIndexManager \<Rightarrow> node_id list" where
  "index_adjacent_nodes node m =
     sort_unique (collect_others node m (index_outgoing_edges node m) @
                  collect_others node m (index_incoming_edges node m))"

section \<open>Statistics and maintenance\<close>

definition get_node_property_index_size :: "SimpleIndexManager \<Rightarrow> nat" where
  "get_node_property_index_size m = card (fmdom' (node_property_index m))"

definition get_edge_property_index_size :: "SimpleIndexManager \<Rightarrow> nat" where
  "get_edge_property_index_size m = card (fmdom' (edge_property_index m))"

definition get_adjacency_list_count :: "SimpleIndexManager \<Rightarrow> nat" where
  "get_adjacency_list_count m =
     card (fmdom' (outgoing_adjacency m)) + card (fmdom' (incoming_adjacency m))"

text \<open>The endpoints of the edges are not cleared.\<close>

definition clear_all_indexes :: "SimpleIndexManager \<Rightarrow> SimpleIndexManager" where
  "clear_all_indexes m =
     m\<lparr>node_property_index := fmempty, edge_property_index := fmempty,
       outgoing_adjacency := fmempty, incoming_adjacency := fmempty\<rparr>"

section \<open>An index from values to ids\<close>

text \<open>What a client of one of the two property indexes relies on.\<close>

datatype 'id index_op = Index 'id string string | Unindex 'id string string

locale value_index =
  fixes find :: "string \<Rightarrow> string \<Rightarrow> 's \<Rightarrow> 'id list"
    and add :: "'id \<Rightarrow> string \<Rightarrow> string \<Rightarrow> 's \<Rightarrow> 's"
    and remove :: "'id \<Rightarrow> string \<Rightarrow> string \<Rightarrow> 's \<Rightarrow> 's"
  assumes find_add: "find k v (add i k' v' s) = find k v s @ (if k = k' \<and> v = v' then [i] else [])"
    and find_remove: "find k v (remove i k' v' s) =
      (if k = k' \<and> v = v' then filter (\<lambda>j. j \<noteq> i) (find k v s) else find k v s)"
begin

fun apply_op :: "'id index_op \<Rightarrow> 's \<Rightarrow> 's" where
  "apply_op (Index i k v) s = add i k v s"
| "apply_op (Unindex i k v) s = remove i k v s"

text \<open>An id is listed as often as it was indexed since it was last removed.\<close>

lemma count_find:
  assumes "find k v s = []"
  shows "count_list (find k v (fold apply_op ops s)) i =
           length (filter ((=) (Index i k v)) (takeWhile ((\<noteq>) (Unindex i k v)) (rev ops)))"
proof (induction ops rule: rev_induct)
  case Nil
  then show ?case by (simp add: assms)
next
  case (snoc op ops)
  show ?case
  proof (cases op)
    case (Index j l w)
    then show ?thesis using snoc.IH by (auto simp: find_add)
  next
    case (Unindex j l w)
    have "count_list (filter (\<lambda>n. n \<noteq> j) xs) i = (if i = j then 0 else count_list xs i)" for xs
      by (induction xs) auto
    then show ?thesis using Unindex snoc.IH by (auto simp: find_remove)
  qed
qed

end

lemma node_index_laws:
  "find_nodes_by_property k v (index_node_property i k' v' m) =
     find_nodes_by_property k v m @ (if k = k' \<and> v = v' then [i] else [])"
  "find_nodes_by_property k v (remove_node_property_index i k' v' m) =
     (if k = k' \<and> v = v' then filter (\<lambda>j. j \<noteq> i) (find_nodes_by_property k v m)
      else find_nodes_by_property k v m)"
  by (auto simp: find_nodes_by_property_def index_node_property_def remove_node_property_index_def
      Let_def at_key_def split: option.splits)
    (auto simp: change_at_def at_key_def split: option.splits)

lemma edge_index_laws:
  "find_edges_by_property k v (index_edge_property i k' v' m) =
     find_edges_by_property k v m @ (if k = k' \<and> v = v' then [i] else [])"
  "find_edges_by_property k v (remove_edge_property_index i k' v' m) =
     (if k = k' \<and> v = v' then filter (\<lambda>j. j \<noteq> i) (find_edges_by_property k v m)
      else find_edges_by_property k v m)"
  by (auto simp: find_edges_by_property_def index_edge_property_def remove_edge_property_index_def
      Let_def at_key_def split: option.splits)
    (auto simp: change_at_def at_key_def split: option.splits)

interpretation node_index: value_index find_nodes_by_property index_node_property remove_node_property_index
  by unfold_locales (rule node_index_laws)+

interpretation edge_index: value_index find_edges_by_property index_edge_property remove_edge_property_index
  by unfold_locales (rule edge_index_laws)+

section \<open>The adjacency lists and the edges they stand for\<close>

text \<open>
  The edges as the client of the index sees them. It adds an edge under an id that is not in
  use, and removes it with the endpoints it has.
\<close>

type_synonym edge_set = "edge_id \<rightharpoonup> node_id \<times> node_id"

inductive index_step :: "edge_set \<times> SimpleIndexManager \<Rightarrow> edge_set \<times> SimpleIndexManager \<Rightarrow> bool" where
  add_edge: "es e = None \<Longrightarrow>
    index_step (es, m) (es(e \<mapsto> (src, dst)), add_edge_to_adjacency src dst e m)"
| remove_edge: "es e = Some (src, dst) \<Longrightarrow>
    index_step (es, m) (es(e := None), remove_edge_from_adjacency src dst e m)"
| index_node: "index_step (es, m) (es, index_node_property n k v m)"
| unindex_node: "index_step (es, m) (es, remove_node_property_index n k v m)"
| index_edge: "index_step (es, m) (es, index_edge_property n k v m)"
| unindex_edge: "index_step (es, m) (es, remove_edge_property_index n k v m)"
| clear: "index_step (es, m) (Map.empty, clear_all_indexes m)"

definition represents :: "SimpleIndexManager \<Rightarrow> edge_set \<Rightarrow> bool" where
  "represents m es \<longleftrightarrow>
     (\<forall>n. distinct (index_outgoing_edges n m) \<and> distinct (index_incoming_edges n m) \<and>
          set (index_outgoing_edges n m) = {e. \<exists>b. es e = Some (n, b)} \<and>
          set (index_incoming_edges n m) = {e. \<exists>a. es e = Some (a, n)}) \<and>
     (\<forall>e p. es e = Some p \<longrightarrow> fmlookup (edge_endpoints m) e = Some p)"

lemma representsI:
  assumes "\<And>n. distinct (index_outgoing_edges n m)" "\<And>n. distinct (index_incoming_edges n m)"
    and "\<And>n e. e \<in> set (index_outgoing_edges n m) \<longleftrightarrow> (\<exists>b. es e = Some (n, b))"
    and "\<And>n e. e \<in> set (index_incoming_edges n m) \<longleftrightarrow> (\<exists>a. es e = Some (a, n))"
    and "\<And>e p. es e = Some p \<Longrightarrow> fmlookup (edge_endpoints m) e = Some p"
  shows "represents m es"
  using assms unfolding represents_def by blast

lemma representsD:
  assumes "represents m es"
  shows "distinct (index_outgoing_edges n m)" "distinct (index_incoming_edges n m)"
    "e \<in> set (index_outgoing_edges n m) \<longleftrightarrow> (\<exists>b. es e = Some (n, b))"
    "e \<in> set (index_incoming_edges n m) \<longleftrightarrow> (\<exists>a. es e = Some (a, n))"
    "es e = Some p \<Longrightarrow> fmlookup (edge_endpoints m) e = Some p"
  using assms unfolding represents_def by blast+

lemmas adjacency_defs = index_outgoing_edges_def index_incoming_edges_def
  add_edge_to_adjacency_def remove_edge_from_adjacency_def

lemma represents_same_adjacency:
  assumes "represents m es" and "outgoing_adjacency m' = outgoing_adjacency m"
    and "incoming_adjacency m' = incoming_adjacency m" and "edge_endpoints m' = edge_endpoints m"
  shows "represents m' es"
  using assms by (simp add: represents_def adjacency_defs)

lemma represents_step: "index_step (es, m) (es', m') \<Longrightarrow> represents m es \<Longrightarrow> represents m' es'"
proof (induction "(es, m)" "(es', m')" arbitrary: es m es' m' rule: index_step.induct)
  case (add_edge es e m src dst)
  note r = representsD [OF add_edge(2)]
  have new: "e \<notin> set (index_outgoing_edges n m)" "e \<notin> set (index_incoming_edges n m)" for n
    using r(3,4) add_edge(1) by auto
  show ?case
  proof (rule representsI)
    show "distinct (index_outgoing_edges n (add_edge_to_adjacency src dst e m))"
      "distinct (index_incoming_edges n (add_edge_to_adjacency src dst e m))" for n
      using r(1,2) new by (simp_all add: adjacency_defs)
    show "f \<in> set (index_outgoing_edges n (add_edge_to_adjacency src dst e m)) \<longleftrightarrow>
        (\<exists>b. (es(e \<mapsto> (src, dst))) f = Some (n, b))"
      "f \<in> set (index_incoming_edges n (add_edge_to_adjacency src dst e m)) \<longleftrightarrow>
        (\<exists>a. (es(e \<mapsto> (src, dst))) f = Some (a, n))" for f n
      using r(3,4) new by (auto simp: adjacency_defs)
  qed (use r(5) in \<open>auto simp: adjacency_defs split: if_splits\<close>)
next
  case (remove_edge es e src dst m)
  note r = representsD [OF remove_edge(2)]
  show ?case
  proof (rule representsI)
    show "distinct (index_outgoing_edges n (remove_edge_from_adjacency src dst e m))"
      "distinct (index_incoming_edges n (remove_edge_from_adjacency src dst e m))" for n
      using r(1,2) by (simp_all add: adjacency_defs)
    show "f \<in> set (index_outgoing_edges n (remove_edge_from_adjacency src dst e m)) \<longleftrightarrow>
        (\<exists>b. (es(e := None)) f = Some (n, b))"
      "f \<in> set (index_incoming_edges n (remove_edge_from_adjacency src dst e m)) \<longleftrightarrow>
        (\<exists>a. (es(e := None)) f = Some (a, n))" for f n
      using r(3,4) remove_edge(1) by (auto simp: adjacency_defs)
  qed (use r(5) in \<open>auto simp: adjacency_defs split: if_splits\<close>)
next
  case (clear es m)
  then show ?case by (auto simp: represents_def clear_all_indexes_def adjacency_defs)
qed (erule represents_same_adjacency;
    simp add: index_node_property_def remove_node_property_index_def index_edge_property_def
      remove_edge_property_index_def Let_def split: option.splits)+

lemma represents_new: "represents new_SimpleIndexManager Map.empty"
  by (simp add: represents_def new_SimpleIndexManager_def adjacency_defs)

lemma represents_reachable:
  "index_step\<^sup>*\<^sup>* (Map.empty, new_SimpleIndexManager) (es, m) \<Longrightarrow> represents m es"
proof (induction "(es, m)" arbitrary: es m rule: rtranclp_induct)
  case base
  then show ?case by (simp add: represents_new)
next
  case (step y)
  then show ?case by (cases y) (auto dest: represents_step)
qed

lemma mem_other_end:
  "b \<in> set (other_end n x) \<longleftrightarrow>
     (\<exists>src dst. x = Some (src, dst) \<and> b = (if src = n then dst else src))"
  by (cases x) (auto simp: other_end_def split: if_splits)

lemma mem_collect_others:
  "b \<in> set (collect_others n m xs) \<longleftrightarrow>
     (\<exists>e \<in> set xs. \<exists>src dst. fmlookup (edge_endpoints m) e = Some (src, dst) \<and>
        b = (if src = n then dst else src))"
  by (simp only: collect_others_def set_concat set_map UN_iff Set.bex_simps mem_other_end)

lemma set_index_adjacent_nodes:
  assumes "represents m es"
  shows "set (index_adjacent_nodes n m) = {b. \<exists>e. es e = Some (n, b) \<or> es e = Some (b, n)}"
proof (intro set_eqI iffI)
  note r = representsD [OF assms]
  fix b
  {
    assume "b \<in> set (index_adjacent_nodes n m)"
    then obtain e src dst where e: "e \<in> set (index_outgoing_edges n m) \<or> e \<in> set (index_incoming_edges n m)"
      "fmlookup (edge_endpoints m) e = Some (src, dst)" "b = (if src = n then dst else src)"
      unfolding index_adjacent_nodes_def set_sort_unique set_append Un_iff mem_collect_others by blast
    then obtain c where c: "es e = Some (n, c) \<or> es e = Some (c, n)" using r(3,4) by blast
    then have "(src, dst) = (n, c) \<or> (src, dst) = (c, n)"
      using r(5) e(2) by (metis option.inject)
    with c e(3) show "b \<in> {b. \<exists>e. es e = Some (n, b) \<or> es e = Some (b, n)}"
      by (auto split: if_splits)
  next
    assume "b \<in> {b. \<exists>e. es e = Some (n, b) \<or> es e = Some (b, n)}"
    then obtain e where "es e = Some (n, b) \<or> es e = Some (b, n)" by blast
    then show "b \<in> set (index_adjacent_nodes n m)"
    proof
      assume "es e = Some (n, b)"
      then have "e \<in> set (index_outgoing_edges n m)" "fmlookup (edge_endpoints m) e = Some (n, b)"
        using r(3,5) by blast+
      then have "b \<in> set (collect_others n m (index_outgoing_edges n m))"
        unfolding mem_collect_others by auto
      then show ?thesis by (simp add: index_adjacent_nodes_def)
    next
      assume "es e = Some (b, n)"
      then have "e \<in> set (index_incoming_edges n m)" "fmlookup (edge_endpoints m) e = Some (b, n)"
        using r(4,5) by blast+
      then have "b \<in> set (collect_others n m (index_incoming_edges n m))"
        unfolding mem_collect_others by (intro bexI [of _ e] exI [of _ b] exI [of _ n]) auto
      then show ?thesis by (simp add: index_adjacent_nodes_def)
    qed
  }
qed

section \<open>Properties\<close>

text \<open>
  C29. Both property indexes are exact for every sequence of calls: a lookup lists an id as
  often as it was indexed under that key and value since it was last removed from it, and not
  at all otherwise; calls for other keys, values or ids make no difference.
\<close>

theorem property_index_exact:
  "count_list (find_nodes_by_property k v (fold node_index.apply_op ops new_SimpleIndexManager)) i =
     length (filter ((=) (Index i k v)) (takeWhile ((\<noteq>) (Unindex i k v)) (rev ops))) \<and>
   count_list (find_edges_by_property k v (fold edge_index.apply_op ops new_SimpleIndexManager)) i =
     length (filter ((=) (Index i k v)) (takeWhile ((\<noteq>) (Unindex i k v)) (rev ops)))"
  by (intro conjI node_index.count_find edge_index.count_find)
    (simp_all add: find_nodes_by_property_def find_edges_by_property_def new_SimpleIndexManager_def)

text \<open>
  C28. The adjacency lists represent the edges: after any sequence of calls in which edges are
  added under free ids and removed with their endpoints, and in which the indexes may be
  cleared, the outgoing and incoming lists of a node hold exactly the ids of its edges, each
  once, and \<open>get_adjacent_nodes\<close> is the strictly ascending list of its neighbours.
\<close>

theorem adjacency_index_correct:
  assumes "index_step\<^sup>*\<^sup>* (Map.empty, new_SimpleIndexManager) (es, m)"
  shows "distinct (index_outgoing_edges n m) \<and> distinct (index_incoming_edges n m) \<and>
    set (index_outgoing_edges n m) = {e. \<exists>b. es e = Some (n, b)} \<and>
    set (index_incoming_edges n m) = {e. \<exists>a. es e = Some (a, n)} \<and>
    sorted_wrt (<) (index_adjacent_nodes n m) \<and>
    set (index_adjacent_nodes n m) = {b. \<exists>e. es e = Some (n, b) \<or> es e = Some (b, n)}"
  using represents_reachable [OF assms] set_index_adjacent_nodes [of m es n]
  by (simp add: represents_def index_adjacent_nodes_def sort_unique_strict)

definition example_index :: SimpleIndexManager where
  "example_index =
     add_edge_to_adjacency 2 3 8 (add_edge_to_adjacency 1 2 7 new_SimpleIndexManager)"

definition example_edges :: edge_set where
  "example_edges = [7 \<mapsto> (1, 2), 8 \<mapsto> (2, 3)]"

theorem adjacency_index_correct_witness:
  "index_adjacent_nodes 2 example_index = [1, 3] \<and>
   set (index_adjacent_nodes 2 example_index) =
     {b. \<exists>e. example_edges e = Some (2, b) \<or> example_edges e = Some (b, 2)}"
proof
  show "index_adjacent_nodes 2 example_index = [1, 3]" by code_simp
  let ?m1 = "add_edge_to_adjacency 1 2 7 new_SimpleIndexManager"
    and ?e1 = "Map.empty(7 \<mapsto> (1, 2))"
  have a: "index_step (Map.empty, new_SimpleIndexManager) (?e1, ?m1)"
    by (rule index_step.add_edge) (rule refl)
  have b: "index_step (?e1, ?m1) (?e1(8 \<mapsto> (2, 3)), example_index)"
    unfolding example_index_def by (rule index_step.add_edge) simp
  from rtranclp.rtrancl_into_rtrancl [OF r_into_rtranclp [of index_step, OF a] b]
  have "index_step\<^sup>*\<^sup>* (Map.empty, new_SimpleIndexManager) (?e1(8 \<mapsto> (2, 3)), example_index)" .
  from adjacency_index_correct [OF this, of 2]
  show "set (index_adjacent_nodes 2 example_index) =
     {b. \<exists>e. example_edges e = Some (2, b) \<or> example_edges e = Some (b, 2)}"
    unfolding example_edges_def by blast
qed

end
