(* ===== verification/GraphStore.thy ===== *)
theory GraphStore
  imports RecordCodec FilePageStore MvccManager WalManager
begin

text \<open>
  \<open>storage/graph_store.h\<close> and \<open>storage/graph_store.cpp\<close>: nodes and edges, one record to a
  page, with the maps from ids to pages and the adjacency lists in memory, and optionally a
  version manager and a log. The overloads that take a transaction carry the suffix \<open>_tx\<close>.
  \<open>std::hash\<close> and the clock are the arguments \<open>hash\<close> and \<open>now\<close>.
\<close>

section \<open>State\<close>

record GraphStore =
  pages_store :: FilePageStore
  next_node_id :: node_id
  next_edge_id :: edge_id
  node_page_index :: "node_id \<rightharpoonup> page_id"
  edge_page_index :: "edge_id \<rightharpoonup> page_id"
  outgoing_edges :: "node_id \<rightharpoonup> edge_id list"
  incoming_edges :: "node_id \<rightharpoonup> edge_id list"
  node_count :: u64
  edge_count :: u64
  mvcc_manager :: "MVCCManager option"
  wal_manager :: "WALManager option"

definition new_GraphStore ::
  "FilePageStore \<Rightarrow> MVCCManager option \<Rightarrow> WALManager option \<Rightarrow> GraphStore" where
  "new_GraphStore ps mvcc wal =
     \<lparr>pages_store = ps, next_node_id = 1, next_edge_id = 1, node_page_index = Map.empty,
      edge_page_index = Map.empty, outgoing_edges = Map.empty, incoming_edges = Map.empty,
      node_count = 0, edge_count = 0, mvcc_manager = mvcc, wal_manager = wal\<rparr>"

definition has_mvcc :: "GraphStore \<Rightarrow> bool" where
  "has_mvcc gs \<longleftrightarrow> mvcc_manager gs \<noteq> None"

text \<open>
  An outcome that is not an error value leaves every caller: none of the functions below
  catches an exception.
\<close>

definition abrupt :: "error \<Rightarrow> bool" where
  "abrupt e = (case e of Error c m \<Rightarrow> False | _ \<Rightarrow> True)"

section \<open>Pages\<close>

text \<open>
  The page of a record: \<open>memcpy\<close> of the header and of the record into a page of zeros. A
  record that is larger than the rest of the page is written past the end of the buffer.
\<close>

definition record_page :: "page_id \<Rightarrow> page_type \<Rightarrow> u8 list \<Rightarrow> u8 list" where
  "record_page page type serialized =
     (let header = new_PageHeader
            \<lparr>header_page_id := page, page_type_field := page_type_code type, record_count := 1,
             next_free_offset := word_of_nat (sizeof_PageHeader + length serialized)\<rparr>
      in PageHeader_bytes header @ serialized @
         replicate (PAGE_SIZE - sizeof_PageHeader - length serialized) 0)"

definition store_record ::
  "page_type \<Rightarrow> u8 list \<Rightarrow> FilePageStore \<Rightarrow> page_id result \<times> FilePageStore" where
  "store_record type serialized ps =
     (case allocate_page ps of
        (Inl e, ps) \<Rightarrow> (Inl e, ps)
      | (Inr page, ps) \<Rightarrow>
          if PAGE_SIZE < sizeof_PageHeader + length serialized then (Inl UndefinedBehaviour, ps)
          else
            (case write_page page (record_page page type serialized) ps of
               (Inl e, ps) \<Rightarrow> (Inl e, ps)
             | (Inr _, ps) \<Rightarrow> (Inr page, ps)))"

definition store_node_record ::
  "node_id \<Rightarrow> NodeRecord \<Rightarrow> Property list \<Rightarrow> GraphStore \<Rightarrow> unit result \<times> GraphStore" where
  "store_node_record node_id node properties gs =
     (case store_record NODE (serialize_node node properties) (pages_store gs) of
        (Inl e, ps) \<Rightarrow> (Inl e, gs\<lparr>pages_store := ps\<rparr>)
      | (Inr page, ps) \<Rightarrow>
          (Inr (), gs\<lparr>pages_store := ps, node_page_index := (node_page_index gs)(node_id \<mapsto> page)\<rparr>))"

definition store_edge_record ::
  "edge_id \<Rightarrow> EdgeRecord \<Rightarrow> Property list \<Rightarrow> GraphStore \<Rightarrow> unit result \<times> GraphStore" where
  "store_edge_record edge_id edge properties gs =
     (case store_record EDGE (serialize_edge edge properties) (pages_store gs) of
        (Inl e, ps) \<Rightarrow> (Inl e, gs\<lparr>pages_store := ps\<rparr>)
      | (Inr page, ps) \<Rightarrow>
          (Inr (), gs\<lparr>pages_store := ps, edge_page_index := (edge_page_index gs)(edge_id \<mapsto> page)\<rparr>))"

text \<open>
  Looking a record up by its id. A page of less than \<open>PAGE_SIZE\<close> bytes is never returned by
  \<open>read_page\<close>, so the header and the rest of the page are always there.
\<close>

definition load_record ::
  "(u64 \<rightharpoonup> page_id) \<Rightarrow> u64 \<Rightarrow> page_type \<Rightarrow> error \<Rightarrow> error \<Rightarrow> (u8 list \<Rightarrow> 'r result) \<Rightarrow>
     FilePageStore \<Rightarrow> 'r result \<times> FilePageStore" where
  "load_record index i type not_found bad_type deserialize ps =
     (case index i of
        None \<Rightarrow> (Inl not_found, ps)
      | Some page \<Rightarrow>
          (case read_page page ps of
             (Inl e, ps) \<Rightarrow> (Inl e, ps)
           | (Inr page_data, ps) \<Rightarrow>
               if page_type_field (PageHeader_of_bytes page_data) \<noteq> page_type_code type
               then (Inl bad_type, ps)
               else (deserialize (drop sizeof_PageHeader page_data), ps)))"

definition get_node ::
  "node_id \<Rightarrow> GraphStore \<Rightarrow> (NodeRecord \<times> Property list) result \<times> GraphStore" where
  "get_node node_id gs =
     (case load_record (node_page_index gs) node_id NODE (Error NOT_FOUND ''Node not found'')
             (Error CORRUPTION ''Invalid page type for node'') deserialize_node (pages_store gs) of
        (r, ps) \<Rightarrow> (r, gs\<lparr>pages_store := ps\<rparr>))"

definition get_edge ::
  "edge_id \<Rightarrow> GraphStore \<Rightarrow> (EdgeRecord \<times> Property list) result \<times> GraphStore" where
  "get_edge edge_id gs =
     (case load_record (edge_page_index gs) edge_id EDGE (Error NOT_FOUND ''Edge not found'')
             (Error CORRUPTION ''Invalid page type for edge'') deserialize_edge (pages_store gs) of
        (r, ps) \<Rightarrow> (r, gs\<lparr>pages_store := ps\<rparr>))"

section \<open>Nodes\<close>

definition get_next_node_id :: "GraphStore \<Rightarrow> node_id \<times> GraphStore" where
  "get_next_node_id gs = (next_node_id gs, gs\<lparr>next_node_id := next_node_id gs + 1\<rparr>)"

definition get_next_edge_id :: "GraphStore \<Rightarrow> edge_id \<times> GraphStore" where
  "get_next_edge_id gs = (next_edge_id gs, gs\<lparr>next_edge_id := next_edge_id gs + 1\<rparr>)"

definition create_node :: "Property list \<Rightarrow> GraphStore \<Rightarrow> node_id result \<times> GraphStore" where
  "create_node properties gs =
     (let (node_id, gs) = get_next_node_id gs;
          node = new_NodeRecord
            \<lparr>n_id := node_id, n_property_count := word_of_nat (length properties),
             in_degree := 0, out_degree := 0\<rparr>
      in case store_node_record node_id node properties gs of
           (Inl e, gs) \<Rightarrow> (Inl e, gs)
         | (Inr _, gs) \<Rightarrow> (Inr node_id, gs\<lparr>node_count := node_count gs + 1\<rparr>))"

definition update_node :: "node_id \<Rightarrow> Property list \<Rightarrow> GraphStore \<Rightarrow> unit result \<times> GraphStore" where
  "update_node node_id properties gs =
     (case get_node node_id gs of
        (Inl e, gs) \<Rightarrow> (Inl e, gs)
      | (Inr (node, _), gs) \<Rightarrow>
          store_node_record node_id (node\<lparr>n_property_count := word_of_nat (length properties)\<rparr>)
            properties gs)"

text \<open>The adjacency lists; a node without an entry has none.\<close>

definition get_outgoing_edges :: "node_id \<Rightarrow> GraphStore \<Rightarrow> edge_id list" where
  "get_outgoing_edges node_id gs = (case outgoing_edges gs node_id of None \<Rightarrow> [] | Some es \<Rightarrow> es)"

definition get_incoming_edges :: "node_id \<Rightarrow> GraphStore \<Rightarrow> edge_id list" where
  "get_incoming_edges node_id gs = (case incoming_edges gs node_id of None \<Rightarrow> [] | Some es \<Rightarrow> es)"

definition delete_node :: "node_id \<Rightarrow> GraphStore \<Rightarrow> unit result \<times> GraphStore" where
  "delete_node node_id gs =
     (if get_outgoing_edges node_id gs \<noteq> []
      then (Inl (Error INVALID_ARGUMENT ''Cannot delete node with outgoing edges''), gs)
      else if get_incoming_edges node_id gs \<noteq> []
      then (Inl (Error INVALID_ARGUMENT ''Cannot delete node with incoming edges''), gs)
      else
        (Inr (), gs\<lparr>node_page_index := (node_page_index gs)(node_id := None),
                    outgoing_edges := (outgoing_edges gs)(node_id := None),
                    incoming_edges := (incoming_edges gs)(node_id := None),
                    node_count := node_count gs - 1\<rparr>))"

section \<open>Edges\<close>

definition update_adjacency_lists ::
  "node_id \<Rightarrow> node_id \<Rightarrow> edge_id \<Rightarrow> bool \<Rightarrow> GraphStore \<Rightarrow> GraphStore" where
  "update_adjacency_lists src dst edge_id add gs =
     (let change = (if add then (\<lambda>es. es @ [edge_id]) else filter (\<lambda>e. e \<noteq> edge_id))
      in gs\<lparr>outgoing_edges := (outgoing_edges gs)(src \<mapsto> change (get_outgoing_edges src gs)),
            incoming_edges := (incoming_edges gs)(dst \<mapsto> change (get_incoming_edges dst gs))\<rparr>)"

definition create_edge ::
  "(string \<Rightarrow> u64) \<Rightarrow> u64 \<Rightarrow> node_id \<Rightarrow> node_id \<Rightarrow> string \<Rightarrow> Property list \<Rightarrow> GraphStore \<Rightarrow>
     edge_id result \<times> GraphStore" where
  "create_edge hash now from to label properties gs =
     (let (edge_id, gs) = get_next_edge_id gs;
          edge = new_EdgeRecord
            \<lparr>e_id := edge_id, from_node := from, to_node := to, label_id := ucast (hash label),
             e_property_count := word_of_nat (length properties), timestamp := now\<rparr>
      in case store_edge_record edge_id edge properties gs of
           (Inl e, gs) \<Rightarrow> (Inl e, gs)
         | (Inr _, gs) \<Rightarrow>
             let gs = update_adjacency_lists from to edge_id True gs
             in (Inr edge_id, gs\<lparr>edge_count := edge_count gs + 1\<rparr>))"

definition update_edge :: "edge_id \<Rightarrow> Property list \<Rightarrow> GraphStore \<Rightarrow> unit result \<times> GraphStore" where
  "update_edge edge_id properties gs =
     (case get_edge edge_id gs of
        (Inl e, gs) \<Rightarrow> (Inl e, gs)
      | (Inr (edge, _), gs) \<Rightarrow>
          store_edge_record edge_id (edge\<lparr>e_property_count := word_of_nat (length properties)\<rparr>)
            properties gs)"

definition delete_edge :: "edge_id \<Rightarrow> GraphStore \<Rightarrow> unit result \<times> GraphStore" where
  "delete_edge edge_id gs =
     (case get_edge edge_id gs of
        (Inl e, gs) \<Rightarrow> (Inl e, gs)
      | (Inr (edge, _), gs) \<Rightarrow>
          let gs = update_adjacency_lists (from_node edge) (to_node edge) edge_id False gs
          in (Inr (), gs\<lparr>edge_page_index := (edge_page_index gs)(edge_id := None),
                         edge_count := edge_count gs - 1\<rparr>))"

section \<open>Traversal\<close>

text \<open>
  The loops over the edges of a node: an edge that cannot be loaded is skipped, an exception
  leaves the loop.
\<close>

fun collect_nodes ::
  "(EdgeRecord \<Rightarrow> node_id) \<Rightarrow> edge_id list \<Rightarrow> node_id list \<Rightarrow> GraphStore \<Rightarrow>
     node_id list result \<times> GraphStore" where
  "collect_nodes endpoint [] acc gs = (Inr acc, gs)"
| "collect_nodes endpoint (e # es) acc gs =
     (case get_edge e gs of
        (Inr (edge, _), gs) \<Rightarrow> collect_nodes endpoint es (acc @ [endpoint edge]) gs
      | (Inl err, gs) \<Rightarrow>
          if abrupt err then (Inl err, gs) else collect_nodes endpoint es acc gs)"

definition get_adjacent_nodes :: "node_id \<Rightarrow> GraphStore \<Rightarrow> node_id list result \<times> GraphStore" where
  "get_adjacent_nodes node_id gs =
     (case collect_nodes to_node (get_outgoing_edges node_id gs) [] gs of
        (Inl e, gs) \<Rightarrow> (Inl e, gs)
      | (Inr adjacent, gs) \<Rightarrow>
          (case collect_nodes from_node (get_incoming_edges node_id gs) adjacent gs of
             (Inl e, gs) \<Rightarrow> (Inl e, gs)
           | (Inr adjacent, gs) \<Rightarrow> (Inr (sort_unique adjacent), gs)))"

section \<open>Batches, statistics, maintenance\<close>

text \<open>The second argument of the batch functions is filled up to the first error.\<close>

fun batch_create_nodes ::
  "Property list list \<Rightarrow> node_id list \<Rightarrow> GraphStore \<Rightarrow> unit result \<times> node_id list \<times> GraphStore" where
  "batch_create_nodes [] created gs = (Inr (), created, gs)"
| "batch_create_nodes (properties # rest) created gs =
     (case create_node properties gs of
        (Inl e, gs) \<Rightarrow> (Inl e, created, gs)
      | (Inr n, gs) \<Rightarrow> batch_create_nodes rest (created @ [n]) gs)"

text \<open>Every edge of a batch reads the clock: \<open>clock\<close> lists the times.\<close>

fun batch_create_edges ::
  "(string \<Rightarrow> u64) \<Rightarrow> (u64 \<times> node_id \<times> node_id \<times> string \<times> Property list) list \<Rightarrow>
     edge_id list \<Rightarrow> GraphStore \<Rightarrow> unit result \<times> edge_id list \<times> GraphStore" where
  "batch_create_edges hash [] created gs = (Inr (), created, gs)"
| "batch_create_edges hash ((now, from, to, label, properties) # rest) created gs =
     (case create_edge hash now from to label properties gs of
        (Inl e, gs) \<Rightarrow> (Inl e, created, gs)
      | (Inr n, gs) \<Rightarrow> batch_create_edges hash rest (created @ [n]) gs)"

definition get_node_count :: "GraphStore \<Rightarrow> u64" where
  "get_node_count gs = node_count gs"

definition get_edge_count :: "GraphStore \<Rightarrow> u64" where
  "get_edge_count gs = edge_count gs"

definition sync_graph :: "GraphStore \<Rightarrow> unit result \<times> GraphStore" where
  "sync_graph gs = (case sync_store (pages_store gs) of (r, ps) \<Rightarrow> (r, gs\<lparr>pages_store := ps\<rparr>))"

definition compact :: "GraphStore \<Rightarrow> unit result" where
  "compact gs = Inr ()"

section \<open>Operations in a transaction\<close>

text \<open>\<open>log_operation\<close> of a line of JSON, its result ignored, if there is a log.\<close>

definition wal_line :: "string \<Rightarrow> u64 \<Rightarrow> GraphStore \<Rightarrow> GraphStore" where
  \<open>wal_line op i gs =
     (case wal_manager gs of
        None \<Rightarrow> gs
      | Some w \<Rightarrow>
          gs\<lparr>wal_manager :=
               Some (snd (log_operation
                 (''{"op":"'' @ op @ ''","id":'' @ u64_string i @ ''}'') w))\<rparr>)\<close>

text \<open>\<open>write_version\<close>, if there is a version manager; \<open>failure\<close> is the caller's error.\<close>

definition put_version :: "u64 \<Rightarrow> Version \<Rightarrow> error \<Rightarrow> GraphStore \<Rightarrow> unit result \<times> GraphStore" where
  "put_version key ver failure gs =
     (case mvcc_manager gs of
        None \<Rightarrow> (Inr (), gs)
      | Some m \<Rightarrow>
          (case write_version key ver m of
             (Inr _, m) \<Rightarrow> (Inr (), gs\<lparr>mvcc_manager := Some m\<rparr>)
           | (Inl MVCCBlocked, m) \<Rightarrow> (Inl Blocked, gs\<lparr>mvcc_manager := Some m\<rparr>)
           | (Inl (MVCCError c msg), m) \<Rightarrow> (Inl failure, gs\<lparr>mvcc_manager := Some m\<rparr>)))"

text \<open>The edge operations ignore the result: only a wait is passed on.\<close>

definition put_version_ignored :: "u64 \<Rightarrow> Version \<Rightarrow> GraphStore \<Rightarrow> unit result \<times> GraphStore" where
  "put_version_ignored key ver gs =
     (case put_version key ver (Error CORRUPTION []) gs of
        (Inl e, gs) \<Rightarrow> if abrupt e then (Inl e, gs) else (Inr (), gs)
      | (Inr _, gs) \<Rightarrow> (Inr (), gs))"

text \<open>Only \<open>create_node\<close> leaves the log alone when there is no version manager.\<close>

definition create_node_tx ::
  "transaction_id \<Rightarrow> Property list \<Rightarrow> GraphStore \<Rightarrow> node_id result \<times> GraphStore" where
  "create_node_tx tx_id properties gs =
     (case create_node properties gs of
        (Inl e, gs) \<Rightarrow> (Inl e, gs)
      | (Inr node_id, gs) \<Rightarrow>
          if has_mvcc gs then
            let nr = new_NodeRecord
                  \<lparr>n_id := node_id, n_property_count := word_of_nat (length properties)\<rparr>;
                ver = \<lparr>created_tx_id = tx_id, deleted_tx_id = 0, ver_data = NodeData nr,
                       ver_properties = properties\<rparr>
            in (case put_version node_id ver (Error CORRUPTION ''MVCC write failed'') gs of
                  (Inl e, gs) \<Rightarrow> (Inl e, gs)
                | (Inr _, gs) \<Rightarrow> (Inr node_id, wal_line ''create_node'' node_id gs))
          else (Inr node_id, gs))"

definition update_node_tx ::
  "transaction_id \<Rightarrow> node_id \<Rightarrow> Property list \<Rightarrow> GraphStore \<Rightarrow> unit result \<times> GraphStore" where
  "update_node_tx tx_id node_id properties gs =
     (case update_node node_id properties gs of
        (Inl e, gs) \<Rightarrow> (Inl e, gs)
      | (Inr _, gs) \<Rightarrow>
          let nr = new_NodeRecord
                \<lparr>n_id := node_id, n_property_count := word_of_nat (length properties)\<rparr>;
              ver = \<lparr>created_tx_id = tx_id, deleted_tx_id = 0, ver_data = NodeData nr,
                     ver_properties = properties\<rparr>
          in (case put_version node_id ver (Error CORRUPTION ''MVCC write failed'') gs of
                (Inl e, gs) \<Rightarrow> (Inl e, gs)
              | (Inr _, gs) \<Rightarrow> (Inr (), wal_line ''update_node'' node_id gs)))"

definition delete_node_tx ::
  "transaction_id \<Rightarrow> node_id \<Rightarrow> GraphStore \<Rightarrow> unit result \<times> GraphStore" where
  "delete_node_tx tx_id node_id gs =
     (case get_node node_id gs of
        (Inl e, gs) \<Rightarrow> (Inl e, gs)
      | (Inr _, gs) \<Rightarrow>
          (case
             (if has_mvcc gs then
                let ver = \<lparr>created_tx_id = tx_id, deleted_tx_id = tx_id,
                           ver_data = NodeData (new_NodeRecord\<lparr>n_id := node_id\<rparr>),
                           ver_properties = []\<rparr>
                in put_version node_id ver (Error CORRUPTION ''Failed to write tombstone version'') gs
              else delete_node node_id gs)
           of (Inl e, gs) \<Rightarrow> (Inl e, gs)
            | (Inr _, gs) \<Rightarrow> (Inr (), wal_line ''delete_node'' node_id gs)))"

definition get_node_tx ::
  "transaction_id \<Rightarrow> node_id \<Rightarrow> GraphStore \<Rightarrow> (NodeRecord \<times> Property list) result \<times> GraphStore" where
  "get_node_tx tx_id node_id gs =
     (case mvcc_manager gs of
        None \<Rightarrow> get_node node_id gs
      | Some m \<Rightarrow>
          (case read_version node_id tx_id m of
             Inr ver \<Rightarrow>
               (case ver_data ver of
                  NodeData nr \<Rightarrow> (Inr (nr, ver_properties ver), gs)
                | EdgeData er \<Rightarrow> get_node node_id gs)
           | Inl (MVCCError MVCC_NOT_FOUND msg) \<Rightarrow> (Inl (Error NOT_FOUND ''Node not visible''), gs)
           | Inl e \<Rightarrow> get_node node_id gs))"

definition create_edge_tx ::
  "(string \<Rightarrow> u64) \<Rightarrow> u64 \<Rightarrow> transaction_id \<Rightarrow> node_id \<Rightarrow> node_id \<Rightarrow> string \<Rightarrow> Property list \<Rightarrow>
     GraphStore \<Rightarrow> edge_id result \<times> GraphStore" where
  "create_edge_tx hash now tx_id from to label properties gs =
     (case create_edge hash now from to label properties gs of
        (Inl e, gs) \<Rightarrow> (Inl e, gs)
      | (Inr eid, gs) \<Rightarrow>
          let er = new_EdgeRecord
                \<lparr>e_id := eid, from_node := from, to_node := to, label_id := ucast (hash label),
                 e_property_count := word_of_nat (length properties)\<rparr>;
              ver = \<lparr>created_tx_id = tx_id, deleted_tx_id = 0, ver_data = EdgeData er,
                     ver_properties = properties\<rparr>
          in (case put_version_ignored eid ver gs of
                (Inl e, gs) \<Rightarrow> (Inl e, gs)
              | (Inr _, gs) \<Rightarrow> (Inr eid, wal_line ''create_edge'' eid gs)))"

definition update_edge_tx ::
  "transaction_id \<Rightarrow> edge_id \<Rightarrow> Property list \<Rightarrow> GraphStore \<Rightarrow> unit result \<times> GraphStore" where
  "update_edge_tx tx_id edge_id properties gs =
     (case update_edge edge_id properties gs of
        (Inl e, gs) \<Rightarrow> (Inl e, gs)
      | (Inr _, gs) \<Rightarrow>
          let er = new_EdgeRecord
                \<lparr>e_id := edge_id, e_property_count := word_of_nat (length properties)\<rparr>;
              ver = \<lparr>created_tx_id = tx_id, deleted_tx_id = 0, ver_data = EdgeData er,
                     ver_properties = properties\<rparr>
          in (case put_version_ignored edge_id ver gs of
                (Inl e, gs) \<Rightarrow> (Inl e, gs)
              | (Inr _, gs) \<Rightarrow> (Inr (), wal_line ''update_edge'' edge_id gs)))"

definition delete_edge_tx ::
  "transaction_id \<Rightarrow> edge_id \<Rightarrow> GraphStore \<Rightarrow> unit result \<times> GraphStore" where
  "delete_edge_tx tx_id edge_id gs =
     (case delete_edge edge_id gs of
        (Inl e, gs) \<Rightarrow> (Inl e, gs)
      | (Inr _, gs) \<Rightarrow>
          let ver = \<lparr>created_tx_id = tx_id, deleted_tx_id = tx_id,
                     ver_data = EdgeData (new_EdgeRecord\<lparr>e_id := edge_id\<rparr>), ver_properties = []\<rparr>
          in (case put_version_ignored edge_id ver gs of
                (Inl e, gs) \<Rightarrow> (Inl e, gs)
              | (Inr _, gs) \<Rightarrow> (Inr (), wal_line ''delete_edge'' edge_id gs)))"

definition get_edge_tx ::
  "transaction_id \<Rightarrow> edge_id \<Rightarrow> GraphStore \<Rightarrow> (EdgeRecord \<times> Property list) result \<times> GraphStore" where
  "get_edge_tx tx_id edge_id gs =
     (case mvcc_manager gs of
        None \<Rightarrow> get_edge edge_id gs
      | Some m \<Rightarrow>
          (case read_version edge_id tx_id m of
             Inr ver \<Rightarrow>
               (case ver_data ver of
                  EdgeData er \<Rightarrow> (Inr (er, ver_properties ver), gs)
                | NodeData nr \<Rightarrow> get_edge edge_id gs)
           | Inl (MVCCError MVCC_NOT_FOUND msg) \<Rightarrow> (Inl (Error NOT_FOUND ''Edge not visible''), gs)
           | Inl e \<Rightarrow> get_edge edge_id gs))"

end
