(* ===== verification/GraphRefinement.thy ===== *)
theory GraphRefinement
  imports GraphStore
begin

text \<open>
  The graph store is a property graph: which records a state holds, the invariant that every
  operation keeps, the effect of each operation, the refinement of the abstract graph by
  sequences of calls, and the answers of the queries.
\<close>

section \<open>The records a state holds\<close>

text \<open>What loading a page gives, without the state of the stream.\<close>

definition loaded ::
  "page_type \<Rightarrow> (u8 list \<Rightarrow> 'r result) \<Rightarrow> FilePageStore \<Rightarrow> page_id \<Rightarrow> 'r option" where
  "loaded type deserialize ps page =
     (case store_pages ps page of
        None \<Rightarrow> None
      | Some (t, body) \<Rightarrow>
          if t = page_type_code type then
            (case deserialize body of Inl e \<Rightarrow> None | Inr r \<Rightarrow> Some r)
          else None)"

definition records ::
  "page_type \<Rightarrow> (u8 list \<Rightarrow> 'r result) \<Rightarrow> (u64 \<rightharpoonup> page_id) \<Rightarrow> FilePageStore \<Rightarrow> u64 \<rightharpoonup> 'r" where
  "records type deserialize index ps i = Option.bind (index i) (loaded type deserialize ps)"

definition node_at :: "GraphStore \<Rightarrow> node_id \<rightharpoonup> NodeRecord \<times> Property list" where
  "node_at gs = records NODE deserialize_node (node_page_index gs) (pages_store gs)"

definition edge_at :: "GraphStore \<Rightarrow> edge_id \<rightharpoonup> EdgeRecord \<times> Property list" where
  "edge_at gs = records EDGE deserialize_edge (edge_page_index gs) (pages_store gs)"

text \<open>Every indexed page holds a record with the id it is indexed under.\<close>

definition valid_index ::
  "page_type \<Rightarrow> (u8 list \<Rightarrow> 'r result) \<Rightarrow> ('r \<Rightarrow> u64) \<Rightarrow> (u64 \<rightharpoonup> page_id) \<Rightarrow> FilePageStore \<Rightarrow> bool" where
  "valid_index type deserialize key index ps \<longleftrightarrow>
     (\<forall>i page. index i = Some page \<longrightarrow> (\<exists>r. loaded type deserialize ps page = Some r \<and> key r = i))"

lemma loaded_dom: "loaded type des ps page = Some r \<Longrightarrow> page \<in> dom (store_pages ps)"
  by (auto simp: loaded_def split: option.splits)

lemma loaded_fresh:
  "store_pages ps page = None \<Longrightarrow> store_pages ps' = (store_pages ps)(page \<mapsto> x) \<Longrightarrow>
     loaded type des ps q = Some r \<Longrightarrow> loaded type des ps' q = Some r"
  by (auto simp: loaded_def split: option.splits)

lemma loaded_same: "store_pages ps' = store_pages ps \<Longrightarrow> loaded type des ps' = loaded type des ps"
  by (simp add: fun_eq_iff loaded_def)

lemma records_same: "store_pages ps' = store_pages ps \<Longrightarrow> records t d ix ps' = records t d ix ps"
  using loaded_same [of ps' ps t d] by (auto simp: records_def)

lemma valid_index_same:
  "store_pages ps' = store_pages ps \<Longrightarrow> valid_index t d k ix ps' = valid_index t d k ix ps"
  using loaded_same [of ps' ps t d] by (simp add: valid_index_def)

lemma dom_records: "valid_index t d k ix ps \<Longrightarrow> dom (records t d ix ps) = dom ix"
  by (fastforce simp: records_def valid_index_def bind_eq_Some_conv)

lemma valid_index_key: "valid_index t d k ix ps \<Longrightarrow> records t d ix ps i = Some r \<Longrightarrow> k r = i"
  by (fastforce simp: records_def valid_index_def bind_eq_Some_conv)

text \<open>Writing a fresh page changes nothing that is indexed.\<close>

lemma records_fresh:
  assumes "valid_index t d k ix ps" and "store_pages ps page = None"
    and "store_pages ps' = (store_pages ps)(page \<mapsto> x)"
  shows "records t d ix ps' = records t d ix ps" "valid_index t d k ix ps'"
proof -
  have kept: "\<exists>r. loaded t d ps q = Some r \<and> loaded t d ps' q = Some r \<and> k r = i"
    if "ix i = Some q" for i q
  proof -
    obtain r where "loaded t d ps q = Some r" "k r = i"
      using assms(1) \<open>ix i = Some q\<close> unfolding valid_index_def by blast
    with loaded_fresh [OF assms(2,3) this(1)] show ?thesis by blast
  qed
  then show "valid_index t d k ix ps'" unfolding valid_index_def by blast
  show "records t d ix ps' = records t d ix ps"
  proof
    fix i
    show "records t d ix ps' i = records t d ix ps i"
    proof (cases "ix i")
      case (Some q)
      from kept [OF this] obtain r where "loaded t d ps q = Some r" "loaded t d ps' q = Some r" by blast
      then show ?thesis by (simp add: records_def Some)
    qed (simp add: records_def)
  qed
qed

lemma records_insert:
  assumes v: "valid_index t d k ix ps" and fresh: "store_pages ps page = None"
    and new: "store_pages ps' = (store_pages ps)(page \<mapsto> (page_type_code t, body))"
    and body: "d body = Inr r" "k r = i"
  shows "records t d (ix(i \<mapsto> page)) ps' = (records t d ix ps)(i \<mapsto> r)"
    "valid_index t d k (ix(i \<mapsto> page)) ps'"
proof -
  have here: "loaded t d ps' page = Some r" by (simp add: loaded_def new body)
  note old = records_fresh [OF v fresh new]
  show "records t d (ix(i \<mapsto> page)) ps' = (records t d ix ps)(i \<mapsto> r)"
    using here fun_cong [OF old(1)] by (auto simp: fun_eq_iff records_def)
  show "valid_index t d k (ix(i \<mapsto> page)) ps'"
    using old(2) here body(2) by (auto simp: valid_index_def)
qed

lemma records_remove:
  "records t d (ix(i := None)) ps = (records t d ix ps)(i := None)"
  by (auto simp: fun_eq_iff records_def)

lemma valid_index_remove: "valid_index t d k ix ps \<Longrightarrow> valid_index t d k (ix(i := None)) ps"
  by (simp add: valid_index_def)

section \<open>Storing and loading one record\<close>

lemma load_record_found:
  assumes "wf_store ps" and "records type des index ps i = Some r"
  shows "\<exists>ps'. load_record index i type nf bt des ps = (Inr r, ps') \<and> wf_store ps' \<and>
           store_pages ps' = store_pages ps \<and> store_room ps' = store_room ps"
proof -
  obtain page where page: "index i = Some page" "loaded type des ps page = Some r"
    using assms(2) by (auto simp: records_def bind_eq_Some_conv)
  then obtain body where body: "store_pages ps page = Some (page_type_code type, body)"
    "des body = Inr r"
    by (auto simp: loaded_def split: option.splits if_splits sum.splits)
  from fps.read_ok [OF assms(1) body(1)] obtain ps' page_data where
    "read_page page ps = (Inr page_data, ps')" "wf_store ps'" "store_room ps' = store_room ps"
    "store_pages ps' = store_pages ps" "page_view page_data = (page_type_code type, body)"
    by blast
  then show ?thesis using page(1) body(2) by (simp add: load_record_def page_view_def)
qed

lemma load_record_missing:
  "index i = None \<Longrightarrow> load_record index i type nf bt des ps = (Inl nf, ps)"
  by (simp add: load_record_def)

lemma length_record_page:
  "sizeof_PageHeader + length serialized \<le> PAGE_SIZE \<Longrightarrow>
     length (record_page page type serialized) = PAGE_SIZE"
  by (simp add: record_page_def Let_def sizeof_PageHeader_def)

lemma page_view_record_page:
  "page_view (record_page page type serialized) =
     (page_type_code type,
      serialized @ replicate (PAGE_SIZE - sizeof_PageHeader - length serialized) 0)"
  by (simp add: page_view_def record_page_def Let_def drop_image sizeof_PageHeader_def)

lemma store_record_ok:
  assumes "wf_store ps" and "0 < store_room ps"
    and "sizeof_PageHeader + length serialized \<le> PAGE_SIZE"
  shows "\<exists>page ps' zeros. store_record type serialized ps = (Inr page, ps') \<and> wf_store ps' \<and>
           store_pages ps page = None \<and> Suc (store_room ps') = store_room ps \<and>
           store_pages ps' = (store_pages ps)(page \<mapsto> (page_type_code type, serialized @ zeros))"
proof -
  from fps.allocate_write [OF assms(1,2), of "\<lambda>page. record_page page type serialized"]
    length_record_page [OF assms(3)]
  obtain page ps1 ps2 where "allocate_page ps = (Inr page, ps1)"
    "write_page page (record_page page type serialized) ps1 = (Inr (), ps2)" "wf_store ps2"
    "store_pages ps page = None" "Suc (store_room ps2) = store_room ps"
    "store_pages ps2 = (store_pages ps)(page \<mapsto> page_view (record_page page type serialized))"
    by blast
  moreover have "\<not> PAGE_SIZE < sizeof_PageHeader + length serialized" using assms(3) by simp
  ultimately have "store_record type serialized ps = (Inr page, ps2)"
    by (simp add: store_record_def)
  with \<open>wf_store ps2\<close> \<open>store_pages ps page = None\<close> \<open>Suc (store_room ps2) = store_room ps\<close>
    \<open>store_pages ps2 = _\<close> show ?thesis
    by (auto simp: page_view_record_page)
qed

lemma store_record_overflow:
  assumes "wf_store ps" and "0 < store_room ps"
    and "PAGE_SIZE < sizeof_PageHeader + length serialized"
  shows "fst (store_record type serialized ps) = Inl UndefinedBehaviour"
  using fps.allocate_ok [OF assms(1,2)] assms(3) by (auto simp: store_record_def)

section \<open>The invariant\<close>

definition adjacency_ok ::
  "(node_id \<Rightarrow> edge_id list) \<Rightarrow> (EdgeRecord \<Rightarrow> node_id) \<Rightarrow>
     (edge_id \<rightharpoonup> EdgeRecord \<times> Property list) \<Rightarrow> bool" where
  "adjacency_ok adj endpoint es \<longleftrightarrow>
     (\<forall>n. distinct (adj n) \<and>
          (\<forall>e. e \<in> set (adj n) \<longleftrightarrow> (\<exists>r ps. es e = Some (r, ps) \<and> endpoint r = n)))"

definition graph_room :: "GraphStore \<Rightarrow> nat" where
  "graph_room gs = store_room (pages_store gs)"

text \<open>The ids handed out and the pages still free stay below a bound together.\<close>

definition ID_LIMIT :: nat where
  "ID_LIMIT = 2 ^ 52"

definition ids_ok :: "u64 \<Rightarrow> u64 \<Rightarrow> (u64 \<rightharpoonup> page_id) \<Rightarrow> nat \<Rightarrow> bool" where
  "ids_ok next_id cnt index room \<longleftrightarrow>
     0 < next_id \<and> unat next_id + room \<le> ID_LIMIT \<and> dom index \<subseteq> {i. 0 < i \<and> i < next_id} \<and>
     unat cnt = card (dom index)"

definition wf_graph :: "GraphStore \<Rightarrow> bool" where
  "wf_graph gs \<longleftrightarrow>
     wf_store (pages_store gs) \<and>
     valid_index NODE deserialize_node (n_id \<circ> fst) (node_page_index gs) (pages_store gs) \<and>
     valid_index EDGE deserialize_edge (e_id \<circ> fst) (edge_page_index gs) (pages_store gs) \<and>
     ids_ok (next_node_id gs) (node_count gs) (node_page_index gs) (graph_room gs) \<and>
     ids_ok (next_edge_id gs) (edge_count gs) (edge_page_index gs) (graph_room gs) \<and>
     adjacency_ok (\<lambda>n. get_outgoing_edges n gs) from_node (edge_at gs) \<and>
     adjacency_ok (\<lambda>n. get_incoming_edges n gs) to_node (edge_at gs)"

lemma wf_graphI:
  assumes "wf_store (pages_store gs)"
    and "valid_index NODE deserialize_node (n_id \<circ> fst) (node_page_index gs) (pages_store gs)"
    and "valid_index EDGE deserialize_edge (e_id \<circ> fst) (edge_page_index gs) (pages_store gs)"
    and "ids_ok (next_node_id gs) (node_count gs) (node_page_index gs) (graph_room gs)"
    and "ids_ok (next_edge_id gs) (edge_count gs) (edge_page_index gs) (graph_room gs)"
    and "adjacency_ok (\<lambda>n. get_outgoing_edges n gs) from_node (edge_at gs)"
    and "adjacency_ok (\<lambda>n. get_incoming_edges n gs) to_node (edge_at gs)"
  shows "wf_graph gs"
  using assms unfolding wf_graph_def by blast

lemma wf_graphD:
  assumes "wf_graph gs"
  shows "wf_store (pages_store gs)"
    "valid_index NODE deserialize_node (n_id \<circ> fst) (node_page_index gs) (pages_store gs)"
    "valid_index EDGE deserialize_edge (e_id \<circ> fst) (edge_page_index gs) (pages_store gs)"
    "ids_ok (next_node_id gs) (node_count gs) (node_page_index gs) (graph_room gs)"
    "ids_ok (next_edge_id gs) (edge_count gs) (edge_page_index gs) (graph_room gs)"
    "adjacency_ok (\<lambda>n. get_outgoing_edges n gs) from_node (edge_at gs)"
    "adjacency_ok (\<lambda>n. get_incoming_edges n gs) to_node (edge_at gs)"
  using assms unfolding wf_graph_def by blast+

lemma adjacency_at_cong:
  "outgoing_edges gs' = outgoing_edges gs \<Longrightarrow> get_outgoing_edges n gs' = get_outgoing_edges n gs"
  "incoming_edges gs' = incoming_edges gs \<Longrightarrow> get_incoming_edges n gs' = get_incoming_edges n gs"
  by (simp_all add: get_outgoing_edges_def get_incoming_edges_def)

lemma ids_ok_smaller: "ids_ok next_id cnt index room \<Longrightarrow> room' \<le> room \<Longrightarrow> ids_ok next_id cnt index room'"
  by (auto simp: ids_ok_def)

lemma ids_ok_same_dom:
  "ids_ok next_id cnt index room \<Longrightarrow> dom index' = dom index \<Longrightarrow> ids_ok next_id cnt index' room"
  by (simp add: ids_ok_def)

lemma finite_u64 [simp]: "finite (S :: u64 set)"
  by (rule finite_subset [OF subset_UNIV finite])

lemma card_ids: "ids_ok next_id cnt index room \<Longrightarrow> card (dom index) < unat next_id"
proof -
  assume ok: "ids_ok next_id cnt index room"
  have inj: "inj_on unat (dom index)" by (rule inj_onI) (simp add: word_unat_eq_iff)
  have "unat ` dom index \<subseteq> {1..<unat next_id}"
    using ok by (auto simp: ids_ok_def word_less_nat_alt Suc_le_eq)
  from card_mono [OF _ this] have "card (dom index) \<le> unat next_id - 1"
    by (simp add: card_image [OF inj])
  then show ?thesis using ok by (auto simp: ids_ok_def word_less_nat_alt)
qed

text \<open>A new id, with a page for it.\<close>

lemma ids_ok_insert:
  assumes ok: "ids_ok next_id cnt index (Suc room)"
  shows "ids_ok (next_id + 1) (cnt + 1) (index(next_id \<mapsto> page)) room" "next_id \<notin> dom index"
proof -
  have lim: "unat next_id + Suc room \<le> ID_LIMIT" using ok by (simp add: ids_ok_def)
  then have "next_id \<noteq> - 1"
    by (auto simp: ID_LIMIT_def unsigned_minus_1_eq_mask mask_eq_exp_minus_1)
  then have suc: "unat (next_id + 1) = unat next_id + 1" by (rule unat_plus1)
  show fresh: "next_id \<notin> dom index" using ok by (auto simp: ids_ok_def)
  have "unat cnt + 1 < 2 ^ 64"
    using card_ids [OF ok] lim ok by (simp add: ids_ok_def ID_LIMIT_def)
  then have "unat (cnt + 1) = unat cnt + 1" by (simp add: unat_word_ariths)
  then show "ids_ok (next_id + 1) (cnt + 1) (index(next_id \<mapsto> page)) room"
    using ok lim suc fresh by (auto simp: ids_ok_def word_less_nat_alt)
qed

lemma ids_ok_remove:
  assumes ok: "ids_ok next_id cnt index room" and "i \<in> dom index"
  shows "ids_ok next_id (cnt - 1) (index(i := None)) room"
proof -
  have "0 < unat cnt" using ok assms(2) by (auto simp: ids_ok_def card_gt_0_iff)
  then have "unat (cnt - 1) = unat cnt - 1" by (intro unat_minus_one) auto
  then show ?thesis using ok assms(2) by (auto simp: ids_ok_def)
qed

section \<open>Loading keeps the graph\<close>

text \<open>A state that differs in the stream only.\<close>

definition same_graph :: "GraphStore \<Rightarrow> GraphStore \<Rightarrow> bool" where
  "same_graph gs gs' \<longleftrightarrow>
     (\<exists>ps. gs' = gs\<lparr>pages_store := ps\<rparr> \<and> wf_store ps \<and> store_pages ps = store_pages (pages_store gs) \<and>
           store_room ps = graph_room gs)"

lemma same_graphD:
  assumes "same_graph gs gs'"
  shows "node_at gs' = node_at gs" "edge_at gs' = edge_at gs"
    "outgoing_edges gs' = outgoing_edges gs" "incoming_edges gs' = incoming_edges gs"
    "graph_room gs' = graph_room gs" "node_page_index gs' = node_page_index gs"
    "edge_page_index gs' = edge_page_index gs" "next_node_id gs' = next_node_id gs"
    "next_edge_id gs' = next_edge_id gs" "mvcc_manager gs' = mvcc_manager gs"
    "wal_manager gs' = wal_manager gs" "node_count gs' = node_count gs" "edge_count gs' = edge_count gs"
proof -
  obtain ps where ps: "gs' = gs\<lparr>pages_store := ps\<rparr>" "store_pages ps = store_pages (pages_store gs)"
    "store_room ps = graph_room gs"
    using assms by (auto simp: same_graph_def)
  note r = records_same [OF ps(2)]
  show "node_at gs' = node_at gs" "edge_at gs' = edge_at gs"
    by (simp_all add: node_at_def edge_at_def ps(1) r)
qed (use assms in \<open>auto simp: same_graph_def graph_room_def\<close>)

lemma same_graph_refl: "wf_graph gs \<Longrightarrow> same_graph gs gs"
  by (auto simp: same_graph_def wf_graph_def graph_room_def intro!: exI [of _ "pages_store gs"])

lemma same_graph_trans: "same_graph a b \<Longrightarrow> same_graph b c \<Longrightarrow> same_graph a c"
  by (auto simp: same_graph_def graph_room_def)

lemma same_graph_wf: "same_graph gs gs' \<Longrightarrow> wf_graph gs \<Longrightarrow> wf_graph gs'"
proof (rule wf_graphI)
  assume same: "same_graph gs gs'" and wf: "wf_graph gs"
  note d = same_graphD [OF same] wf_graphD [OF wf]
  obtain ps where ps: "pages_store gs' = ps" "wf_store ps" "store_pages ps = store_pages (pages_store gs)"
    using same by (auto simp: same_graph_def)
  note v = valid_index_same [OF ps(3)]
  show "wf_store (pages_store gs')" using ps by simp
  show "valid_index NODE deserialize_node (n_id \<circ> fst) (node_page_index gs') (pages_store gs')"
    "valid_index EDGE deserialize_edge (e_id \<circ> fst) (edge_page_index gs') (pages_store gs')"
    by (simp_all add: d ps(1) v)
  show "ids_ok (next_node_id gs') (node_count gs') (node_page_index gs') (graph_room gs')"
    "ids_ok (next_edge_id gs') (edge_count gs') (edge_page_index gs') (graph_room gs')"
    using d by simp_all
  show "adjacency_ok (\<lambda>n. get_outgoing_edges n gs') from_node (edge_at gs')"
    "adjacency_ok (\<lambda>n. get_incoming_edges n gs') to_node (edge_at gs')"
    using d adjacency_at_cong [of gs' gs] by simp_all
qed

lemma get_node_found:
  assumes "wf_graph gs" and "node_at gs n = Some r"
  shows "\<exists>gs'. get_node n gs = (Inr r, gs') \<and> same_graph gs gs'"
proof -
  note load = load_record_found [OF wf_graphD(1) [OF assms(1)] assms(2) [unfolded node_at_def],
      of "Error NOT_FOUND ''Node not found''" "Error CORRUPTION ''Invalid page type for node''"]
  obtain ps where "load_record (node_page_index gs) n NODE (Error NOT_FOUND ''Node not found'')
      (Error CORRUPTION ''Invalid page type for node'') deserialize_node (pages_store gs) = (Inr r, ps)"
    "wf_store ps" "store_pages ps = store_pages (pages_store gs)"
    "store_room ps = store_room (pages_store gs)"
    using load by (elim exE conjE)
  then show ?thesis by (auto simp: get_node_def same_graph_def graph_room_def)
qed

lemma get_edge_found:
  assumes "wf_graph gs" and "edge_at gs e = Some r"
  shows "\<exists>gs'. get_edge e gs = (Inr r, gs') \<and> same_graph gs gs'"
proof -
  note load = load_record_found [OF wf_graphD(1) [OF assms(1)] assms(2) [unfolded edge_at_def],
      of "Error NOT_FOUND ''Edge not found''" "Error CORRUPTION ''Invalid page type for edge''"]
  obtain ps where "load_record (edge_page_index gs) e EDGE (Error NOT_FOUND ''Edge not found'')
      (Error CORRUPTION ''Invalid page type for edge'') deserialize_edge (pages_store gs) = (Inr r, ps)"
    "wf_store ps" "store_pages ps = store_pages (pages_store gs)"
    "store_room ps = store_room (pages_store gs)"
    using load by (elim exE conjE)
  then show ?thesis by (auto simp: get_edge_def same_graph_def graph_room_def)
qed

lemma node_at_iff: "wf_graph gs \<Longrightarrow> node_at gs n = None \<longleftrightarrow> node_page_index gs n = None"
  using dom_records [OF wf_graphD(2)] by (auto simp: node_at_def domIff)

lemma edge_at_iff: "wf_graph gs \<Longrightarrow> edge_at gs e = None \<longleftrightarrow> edge_page_index gs e = None"
  using dom_records [OF wf_graphD(3)] by (auto simp: edge_at_def domIff)

lemma get_node_missing:
  "wf_graph gs \<Longrightarrow> node_at gs n = None \<Longrightarrow> get_node n gs = (Inl (Error NOT_FOUND ''Node not found''), gs)"
  by (simp add: node_at_iff get_node_def load_record_missing)

lemma get_edge_missing:
  "wf_graph gs \<Longrightarrow> edge_at gs e = None \<Longrightarrow> get_edge e gs = (Inl (Error NOT_FOUND ''Edge not found''), gs)"
  by (simp add: edge_at_iff get_edge_def load_record_missing)

section \<open>Storing a record\<close>

text \<open>Properties that the serializer can write and that fit the page of a record.\<close>

definition storable :: "Property list \<Rightarrow> bool" where
  "storable ps \<longleftrightarrow>
     wf_properties ps \<and>
     sizeof_PageHeader + sizeof_NodeRecord + length (serialize_properties ps) \<le> PAGE_SIZE"

lemma storable_sizes:
  assumes "storable ps"
  shows "wf_properties ps" "sizeof_PageHeader + length (serialize_node n ps) \<le> PAGE_SIZE"
    "sizeof_PageHeader + length (serialize_edge r ps) \<le> PAGE_SIZE"
  using assms
  by (simp_all add: storable_def length_serialize_node length_serialize_edge sizeof_NodeRecord_def
      sizeof_EdgeRecord_def)

lemma store_node_record_ok:
  assumes wf: "wf_graph gs" and room: "0 < graph_room gs" and fits: "storable properties"
    and key: "n_id node = n"
  shows "\<exists>page ps. store_node_record n node properties gs =
      (Inr (), gs\<lparr>pages_store := ps, node_page_index := (node_page_index gs)(n \<mapsto> page)\<rparr>) \<and>
    wf_store ps \<and> Suc (store_room ps) = graph_room gs \<and>
    records NODE deserialize_node ((node_page_index gs)(n \<mapsto> page)) ps =
      (node_at gs)(n \<mapsto> (node, properties)) \<and>
    valid_index NODE deserialize_node (n_id \<circ> fst) ((node_page_index gs)(n \<mapsto> page)) ps \<and>
    records EDGE deserialize_edge (edge_page_index gs) ps = edge_at gs \<and>
    valid_index EDGE deserialize_edge (e_id \<circ> fst) (edge_page_index gs) ps"
proof -
  obtain page ps zeros where st:
    "store_record NODE (serialize_node node properties) (pages_store gs) = (Inr page, ps)"
    "wf_store ps" "store_pages (pages_store gs) page = None"
    "Suc (store_room ps) = store_room (pages_store gs)"
    "store_pages ps = (store_pages (pages_store gs))
       (page \<mapsto> (page_type_code NODE, serialize_node node properties @ zeros))"
    using store_record_ok [OF wf_graphD(1) [OF wf] room [unfolded graph_room_def]
        storable_sizes(2) [OF fits], of NODE node] by (elim exE conjE)
  have des: "deserialize_node (serialize_node node properties @ zeros) = Inr (node, properties)"
    by (rule deserialize_node_serialize [OF storable_sizes(1) [OF fits]])
  have k: "(n_id \<circ> fst) (node, properties) = n" using key by simp
  note ins = records_insert [OF wf_graphD(2) [OF wf] st(3,5) des k]
  note old = records_fresh [OF wf_graphD(3) [OF wf] st(3,5)]
  have "store_node_record n node properties gs =
      (Inr (), gs\<lparr>pages_store := ps, node_page_index := (node_page_index gs)(n \<mapsto> page)\<rparr>)"
    by (simp add: store_node_record_def st(1))
  then show ?thesis
    using ins old st(2,4) unfolding graph_room_def node_at_def edge_at_def by blast
qed

lemma store_edge_record_ok:
  assumes wf: "wf_graph gs" and room: "0 < graph_room gs" and fits: "storable properties"
    and key: "e_id edge = e"
  shows "\<exists>page ps. store_edge_record e edge properties gs =
      (Inr (), gs\<lparr>pages_store := ps, edge_page_index := (edge_page_index gs)(e \<mapsto> page)\<rparr>) \<and>
    wf_store ps \<and> Suc (store_room ps) = graph_room gs \<and>
    records EDGE deserialize_edge ((edge_page_index gs)(e \<mapsto> page)) ps =
      (edge_at gs)(e \<mapsto> (edge, properties)) \<and>
    valid_index EDGE deserialize_edge (e_id \<circ> fst) ((edge_page_index gs)(e \<mapsto> page)) ps \<and>
    records NODE deserialize_node (node_page_index gs) ps = node_at gs \<and>
    valid_index NODE deserialize_node (n_id \<circ> fst) (node_page_index gs) ps"
proof -
  obtain page ps zeros where st:
    "store_record EDGE (serialize_edge edge properties) (pages_store gs) = (Inr page, ps)"
    "wf_store ps" "store_pages (pages_store gs) page = None"
    "Suc (store_room ps) = store_room (pages_store gs)"
    "store_pages ps = (store_pages (pages_store gs))
       (page \<mapsto> (page_type_code EDGE, serialize_edge edge properties @ zeros))"
    using store_record_ok [OF wf_graphD(1) [OF wf] room [unfolded graph_room_def]
        storable_sizes(3) [OF fits], of EDGE edge] by (elim exE conjE)
  have des: "deserialize_edge (serialize_edge edge properties @ zeros) = Inr (edge, properties)"
    by (rule deserialize_edge_serialize [OF storable_sizes(1) [OF fits]])
  have k: "(e_id \<circ> fst) (edge, properties) = e" using key by simp
  note ins = records_insert [OF wf_graphD(3) [OF wf] st(3,5) des k]
  note old = records_fresh [OF wf_graphD(2) [OF wf] st(3,5)]
  have "store_edge_record e edge properties gs =
      (Inr (), gs\<lparr>pages_store := ps, edge_page_index := (edge_page_index gs)(e \<mapsto> page)\<rparr>)"
    by (simp add: store_edge_record_def st(1))
  then show ?thesis
    using ins old st(2,4) unfolding graph_room_def node_at_def edge_at_def by blast
qed

text \<open>A record that does not fit is written past the end of the page buffer.\<close>

lemma store_node_record_overflow:
  assumes "wf_graph gs" and "0 < graph_room gs"
    and "PAGE_SIZE < sizeof_PageHeader + length (serialize_node node properties)"
  shows "fst (store_node_record n node properties gs) = Inl UndefinedBehaviour"
  using store_record_overflow [OF wf_graphD(1) [OF assms(1)] assms(2) [unfolded graph_room_def] assms(3), of NODE]
  by (simp add: store_node_record_def split: prod.splits sum.splits) auto

lemma store_record_next_id:
  "store_node_record n node properties (gs\<lparr>next_node_id := k\<rparr>) =
     (case store_node_record n node properties gs of (r, gs) \<Rightarrow> (r, gs\<lparr>next_node_id := k\<rparr>))"
  "store_edge_record e edge properties (gs\<lparr>next_edge_id := k\<rparr>) =
     (case store_edge_record e edge properties gs of (r, gs) \<Rightarrow> (r, gs\<lparr>next_edge_id := k\<rparr>))"
  by (simp_all add: store_node_record_def store_edge_record_def split: prod.splits sum.splits)

section \<open>The operations on nodes\<close>

definition created_node :: "node_id \<Rightarrow> Property list \<Rightarrow> NodeRecord" where
  "created_node n properties =
     new_NodeRecord\<lparr>n_id := n, n_property_count := word_of_nat (length properties)\<rparr>"

lemma create_node_ok:
  assumes wf: "wf_graph gs" and room: "0 < graph_room gs" and fits: "storable properties"
  shows "\<exists>gs'. create_node properties gs = (Inr (next_node_id gs), gs') \<and> wf_graph gs' \<and>
    node_at gs (next_node_id gs) = None \<and>
    node_at gs' = (node_at gs)(next_node_id gs \<mapsto> (created_node (next_node_id gs) properties, properties)) \<and>
    edge_at gs' = edge_at gs \<and> Suc (graph_room gs') = graph_room gs \<and>
    mvcc_manager gs' = mvcc_manager gs \<and> wal_manager gs' = wal_manager gs"
proof -
  let ?n = "next_node_id gs" and ?g = "gs\<lparr>next_node_id := next_node_id gs + 1\<rparr>"
  let ?node = "created_node ?n properties"
  have rec_eq: "new_NodeRecord\<lparr>n_id := ?n, n_property_count := word_of_nat (length properties),
      in_degree := 0, out_degree := 0\<rparr> = ?node"
    by (simp add: created_node_def new_NodeRecord_def)
  have key: "n_id ?node = ?n" by (simp add: created_node_def)
  from store_node_record_ok [OF wf room fits key] obtain page ps where st:
    "store_node_record ?n ?node properties gs =
      (Inr (), gs\<lparr>pages_store := ps, node_page_index := (node_page_index gs)(?n \<mapsto> page)\<rparr>)"
    "wf_store ps" "Suc (store_room ps) = graph_room gs"
    "records NODE deserialize_node ((node_page_index gs)(?n \<mapsto> page)) ps =
      (node_at gs)(?n \<mapsto> (?node, properties))"
    "valid_index NODE deserialize_node (n_id \<circ> fst) ((node_page_index gs)(?n \<mapsto> page)) ps"
    "records EDGE deserialize_edge (edge_page_index gs) ps = edge_at gs"
    "valid_index EDGE deserialize_edge (e_id \<circ> fst) (edge_page_index gs) ps"
    by (elim exE conjE)
  have st': "store_node_record ?n ?node properties ?g =
      (Inr (), ?g\<lparr>pages_store := ps, node_page_index := (node_page_index gs)(?n \<mapsto> page)\<rparr>)"
    by (simp add: store_record_next_id st(1))
  let ?h = "?g\<lparr>pages_store := ps, node_page_index := (node_page_index gs)(?n \<mapsto> page),
      node_count := node_count gs + 1\<rparr>"
  have run: "create_node properties gs = (Inr ?n, ?h)"
    by (simp add: create_node_def get_next_node_id_def rec_eq st')
  have maps: "node_at ?h = (node_at gs)(?n \<mapsto> (?node, properties))" "edge_at ?h = edge_at gs"
    using st(4,6) by (simp_all add: node_at_def edge_at_def)
  note ids = ids_ok_insert [of ?n "node_count gs" "node_page_index gs" "store_room ps"]
  have ok: "ids_ok ?n (node_count gs) (node_page_index gs) (Suc (store_room ps))"
    using wf_graphD(4) [OF wf] st(3) by simp
  have "wf_graph ?h"
  proof (rule wf_graphI)
    show "ids_ok (next_node_id ?h) (node_count ?h) (node_page_index ?h) (graph_room ?h)"
      using ids(1) [OF ok] by (simp add: graph_room_def)
    show "ids_ok (next_edge_id ?h) (edge_count ?h) (edge_page_index ?h) (graph_room ?h)"
      using ids_ok_smaller [OF wf_graphD(5) [OF wf], of "store_room ps"] st(3) by (simp add: graph_room_def)
    show "adjacency_ok (\<lambda>n. get_outgoing_edges n ?h) from_node (edge_at ?h)"
      "adjacency_ok (\<lambda>n. get_incoming_edges n ?h) to_node (edge_at ?h)"
      using wf_graphD(6,7) [OF wf] adjacency_at_cong [of ?h gs] maps(2) by simp_all
  qed (use st in simp_all)
  moreover have "node_at gs ?n = None" using ids(2) [OF ok] node_at_iff [OF wf] by (simp add: domIff)
  moreover have "Suc (graph_room ?h) = graph_room gs" using st(3) by (simp add: graph_room_def)
  ultimately show ?thesis using run maps by auto
qed

lemma create_node_overflow:
  assumes "wf_graph gs" and "0 < graph_room gs"
    and "PAGE_SIZE < sizeof_PageHeader + sizeof_NodeRecord + length (serialize_properties properties)"
  shows "fst (create_node properties gs) = Inl UndefinedBehaviour"
proof -
  have "fst (store_node_record n node properties gs) = Inl UndefinedBehaviour" for n node
    using store_node_record_overflow [OF assms(1,2), of node properties n] assms(3)
    by (simp add: length_serialize_node)
  then have "\<exists>g. store_node_record n node properties gs = (Inl UndefinedBehaviour, g)" for n node
    by (metis prod.collapse)
  then obtain g where g: "store_node_record (next_node_id gs) (new_NodeRecord
      \<lparr>n_id := next_node_id gs, n_property_count := word_of_nat (length properties),
       in_degree := 0, out_degree := 0\<rparr>) properties gs = (Inl UndefinedBehaviour, g)" by blast
  show ?thesis
    by (simp add: create_node_def get_next_node_id_def store_record_next_id g)
qed

lemma update_node_ok:
  assumes wf: "wf_graph gs" and room: "0 < graph_room gs" and fits: "storable properties"
    and old: "node_at gs n = Some (node, props)"
  shows "\<exists>gs'. update_node n properties gs = (Inr (), gs') \<and> wf_graph gs' \<and>
    node_at gs' = (node_at gs)
      (n \<mapsto> (node\<lparr>n_property_count := word_of_nat (length properties)\<rparr>, properties)) \<and>
    edge_at gs' = edge_at gs \<and> Suc (graph_room gs') = graph_room gs \<and>
    mvcc_manager gs' = mvcc_manager gs \<and> wal_manager gs' = wal_manager gs"
proof -
  let ?node = "node\<lparr>n_property_count := word_of_nat (length properties)\<rparr>"
  obtain g where g: "get_node n gs = (Inr (node, props), g)" "same_graph gs g"
    using get_node_found [OF wf old] by blast
  note same = same_graphD [OF g(2)] and wfg = same_graph_wf [OF g(2) wf]
  have "n_id node = n"
    using valid_index_key [OF wf_graphD(2) [OF wf], of n "(node, props)"] old
    by (simp add: node_at_def)
  then have key: "n_id ?node = n" by simp
  have roomg: "0 < graph_room g" using room same by simp
  from store_node_record_ok [OF wfg roomg fits key] obtain page ps where st:
    "store_node_record n ?node properties g =
      (Inr (), g\<lparr>pages_store := ps, node_page_index := (node_page_index g)(n \<mapsto> page)\<rparr>)"
    "wf_store ps" "Suc (store_room ps) = graph_room g"
    "records NODE deserialize_node ((node_page_index g)(n \<mapsto> page)) ps =
      (node_at g)(n \<mapsto> (?node, properties))"
    "valid_index NODE deserialize_node (n_id \<circ> fst) ((node_page_index g)(n \<mapsto> page)) ps"
    "records EDGE deserialize_edge (edge_page_index g) ps = edge_at g"
    "valid_index EDGE deserialize_edge (e_id \<circ> fst) (edge_page_index g) ps"
    by (elim exE conjE)
  let ?h = "g\<lparr>pages_store := ps, node_page_index := (node_page_index g)(n \<mapsto> page)\<rparr>"
  have maps: "node_at ?h = (node_at gs)(n \<mapsto> (?node, properties))" "edge_at ?h = edge_at g"
    using st(4,6) same(1) by (simp_all add: node_at_def edge_at_def)
  have "n \<in> dom (node_page_index g)"
    using old node_at_iff [OF wf, of n] same by (auto simp: domIff)
  then have dom: "dom ((node_page_index g)(n \<mapsto> page)) = dom (node_page_index g)" by auto
  have le: "store_room ps \<le> graph_room g" using st(3) by simp
  have "wf_graph ?h"
  proof (rule wf_graphI)
    show "ids_ok (next_node_id ?h) (node_count ?h) (node_page_index ?h) (graph_room ?h)"
      using ids_ok_same_dom [OF ids_ok_smaller [OF wf_graphD(4) [OF wfg] le] dom]
      by (simp add: graph_room_def)
    show "ids_ok (next_edge_id ?h) (edge_count ?h) (edge_page_index ?h) (graph_room ?h)"
      using ids_ok_smaller [OF wf_graphD(5) [OF wfg] le] by (simp add: graph_room_def)
    show "adjacency_ok (\<lambda>n. get_outgoing_edges n ?h) from_node (edge_at ?h)"
      "adjacency_ok (\<lambda>n. get_incoming_edges n ?h) to_node (edge_at ?h)"
      using wf_graphD(6,7) [OF wfg] adjacency_at_cong [of ?h g] maps(2) by simp_all
  qed (use st in simp_all)
  moreover have "update_node n properties gs = (Inr (), ?h)"
    by (simp add: update_node_def g(1) st(1))
  moreover have "Suc (graph_room ?h) = graph_room gs" using st(3) same by (simp add: graph_room_def)
  ultimately show ?thesis using maps same by auto
qed

lemma adjacency_okD:
  "adjacency_ok adj f es \<Longrightarrow> distinct (adj n)"
  "adjacency_ok adj f es \<Longrightarrow> e \<in> set (adj n) \<longleftrightarrow> (\<exists>r ps. es e = Some (r, ps) \<and> f r = n)"
  by (simp_all add: adjacency_ok_def)

lemma delete_node_refused:
  assumes wf: "wf_graph gs" and edge: "edge_at gs e = Some (r, ps)"
    and ends: "from_node r = n \<or> to_node r = n"
  shows "\<exists>m. delete_node n gs = (Inl (Error INVALID_ARGUMENT m), gs)"
proof -
  have "get_outgoing_edges n gs \<noteq> [] \<or> get_incoming_edges n gs \<noteq> []"
    using ends edge adjacency_okD(2) [OF wf_graphD(6) [OF wf], of e n]
      adjacency_okD(2) [OF wf_graphD(7) [OF wf], of e n] by auto
  then show ?thesis by (auto simp: delete_node_def)
qed

lemma delete_node_ok:
  assumes wf: "wf_graph gs" and old: "node_at gs n \<noteq> None"
    and free: "\<And>e r ps. edge_at gs e = Some (r, ps) \<Longrightarrow> from_node r \<noteq> n \<and> to_node r \<noteq> n"
  shows "\<exists>gs'. delete_node n gs = (Inr (), gs') \<and> wf_graph gs' \<and>
    node_at gs' = (node_at gs)(n := None) \<and> edge_at gs' = edge_at gs \<and>
    graph_room gs' = graph_room gs \<and> mvcc_manager gs' = mvcc_manager gs \<and>
    wal_manager gs' = wal_manager gs"
proof -
  have none: "get_outgoing_edges n gs = []" "get_incoming_edges n gs = []"
    using adjacency_okD(2) [OF wf_graphD(6) [OF wf]] adjacency_okD(2) [OF wf_graphD(7) [OF wf]] free
    by (metis equals0I set_empty)+
  let ?h = "gs\<lparr>node_page_index := (node_page_index gs)(n := None),
      outgoing_edges := (outgoing_edges gs)(n := None),
      incoming_edges := (incoming_edges gs)(n := None), node_count := node_count gs - 1\<rparr>"
  have run: "delete_node n gs = (Inr (), ?h)" by (simp add: delete_node_def none)
  have adj: "get_outgoing_edges m ?h = get_outgoing_edges m gs"
    "get_incoming_edges m ?h = get_incoming_edges m gs" for m
    using none by (simp_all add: get_outgoing_edges_def get_incoming_edges_def)
  have maps: "node_at ?h = (node_at gs)(n := None)" "edge_at ?h = edge_at gs"
    by (simp_all add: node_at_def edge_at_def records_remove)
  have "n \<in> dom (node_page_index gs)" using old node_at_iff [OF wf, of n] by auto
  note ids = ids_ok_remove [OF wf_graphD(4) [OF wf] this]
  have "wf_graph ?h"
  proof (rule wf_graphI)
    show "ids_ok (next_node_id ?h) (node_count ?h) (node_page_index ?h) (graph_room ?h)"
      using ids by (simp add: graph_room_def)
    show "ids_ok (next_edge_id ?h) (edge_count ?h) (edge_page_index ?h) (graph_room ?h)"
      using wf_graphD(5) [OF wf] by (simp add: graph_room_def)
    show "adjacency_ok (\<lambda>n. get_outgoing_edges n ?h) from_node (edge_at ?h)"
      "adjacency_ok (\<lambda>n. get_incoming_edges n ?h) to_node (edge_at ?h)"
      using wf_graphD(6,7) [OF wf] by (simp_all only: adj maps)
  qed (use wf_graphD(1-3) [OF wf] valid_index_remove in simp_all)
  then show ?thesis using run maps by (auto simp: graph_room_def)
qed

text \<open>
  Deleting a node that is not there succeeds and counts it: with no node left the counter
  wraps around.
\<close>

lemma delete_node_missing:
  assumes wf: "wf_graph gs" and "node_at gs n = None"
    and free: "\<And>e r ps. edge_at gs e = Some (r, ps) \<Longrightarrow> from_node r \<noteq> n \<and> to_node r \<noteq> n"
  shows "fst (delete_node n gs) = Inr () \<and>
    get_node_count (snd (delete_node n gs)) = get_node_count gs - 1 \<and>
    node_at (snd (delete_node n gs)) = node_at gs"
proof -
  have none: "get_outgoing_edges n gs = []" "get_incoming_edges n gs = []"
    using adjacency_okD(2) [OF wf_graphD(6) [OF wf]] adjacency_okD(2) [OF wf_graphD(7) [OF wf]] free
    by (metis equals0I set_empty)+
  have "node_page_index gs n = None" using assms(2) node_at_iff [OF wf] by simp
  then have "(node_page_index gs)(n := None) = node_page_index gs" by auto
  then show ?thesis by (simp add: delete_node_def none get_node_count_def node_at_def)
qed

section \<open>The operations on edges\<close>

lemma adjacency_ok_add:
  assumes "adjacency_ok adj f es" and "es e = None" and "f r = n"
  shows "adjacency_ok (\<lambda>m. if m = n then adj m @ [e] else adj m) f (es(e \<mapsto> (r, ps)))"
  using assms by (auto simp: adjacency_ok_def)

lemma adjacency_ok_remove:
  assumes "adjacency_ok adj f es" and "es e = Some (r, ps)" and "f r = n"
  shows "adjacency_ok (\<lambda>m. if m = n then filter (\<lambda>x. x \<noteq> e) (adj m) else adj m) f (es(e := None))"
  using assms by (auto simp: adjacency_ok_def)

lemma adjacency_ok_update:
  assumes "adjacency_ok adj f es" and "es e = Some (r, ps)" and "f r' = f r"
  shows "adjacency_ok adj f (es(e \<mapsto> (r', ps')))"
  using assms by (auto simp: adjacency_ok_def)

lemma adjacency_updates [simp]:
  "get_outgoing_edges n (gs\<lparr>pages_store := x0\<rparr>) = get_outgoing_edges n gs"
  "get_outgoing_edges n (gs\<lparr>next_node_id := x1\<rparr>) = get_outgoing_edges n gs"
  "get_outgoing_edges n (gs\<lparr>next_edge_id := x2\<rparr>) = get_outgoing_edges n gs"
  "get_outgoing_edges n (gs\<lparr>node_page_index := x3\<rparr>) = get_outgoing_edges n gs"
  "get_outgoing_edges n (gs\<lparr>edge_page_index := x4\<rparr>) = get_outgoing_edges n gs"
  "get_outgoing_edges n (gs\<lparr>node_count := x5\<rparr>) = get_outgoing_edges n gs"
  "get_outgoing_edges n (gs\<lparr>edge_count := x6\<rparr>) = get_outgoing_edges n gs"
  "get_outgoing_edges n (gs\<lparr>mvcc_manager := x7\<rparr>) = get_outgoing_edges n gs"
  "get_outgoing_edges n (gs\<lparr>wal_manager := x8\<rparr>) = get_outgoing_edges n gs"
  "get_incoming_edges n (gs\<lparr>pages_store := x0\<rparr>) = get_incoming_edges n gs"
  "get_incoming_edges n (gs\<lparr>next_node_id := x1\<rparr>) = get_incoming_edges n gs"
  "get_incoming_edges n (gs\<lparr>next_edge_id := x2\<rparr>) = get_incoming_edges n gs"
  "get_incoming_edges n (gs\<lparr>node_page_index := x3\<rparr>) = get_incoming_edges n gs"
  "get_incoming_edges n (gs\<lparr>edge_page_index := x4\<rparr>) = get_incoming_edges n gs"
  "get_incoming_edges n (gs\<lparr>node_count := x5\<rparr>) = get_incoming_edges n gs"
  "get_incoming_edges n (gs\<lparr>edge_count := x6\<rparr>) = get_incoming_edges n gs"
  "get_incoming_edges n (gs\<lparr>mvcc_manager := x7\<rparr>) = get_incoming_edges n gs"
  "get_incoming_edges n (gs\<lparr>wal_manager := x8\<rparr>) = get_incoming_edges n gs"
  by (simp_all add: get_outgoing_edges_def get_incoming_edges_def)

lemma update_adjacency_lists_at:
  "get_outgoing_edges m (update_adjacency_lists src dst e True gs) =
     (if m = src then get_outgoing_edges m gs @ [e] else get_outgoing_edges m gs)"
  "get_incoming_edges m (update_adjacency_lists src dst e True gs) =
     (if m = dst then get_incoming_edges m gs @ [e] else get_incoming_edges m gs)"
  "get_outgoing_edges m (update_adjacency_lists src dst e False gs) =
     (if m = src then filter (\<lambda>x. x \<noteq> e) (get_outgoing_edges m gs) else get_outgoing_edges m gs)"
  "get_incoming_edges m (update_adjacency_lists src dst e False gs) =
     (if m = dst then filter (\<lambda>x. x \<noteq> e) (get_incoming_edges m gs) else get_incoming_edges m gs)"
  by (simp_all add: update_adjacency_lists_def get_outgoing_edges_def get_incoming_edges_def Let_def)

lemma update_adjacency_lists_other:
  "pages_store (update_adjacency_lists src dst e a gs) = pages_store gs"
  "node_page_index (update_adjacency_lists src dst e a gs) = node_page_index gs"
  "edge_page_index (update_adjacency_lists src dst e a gs) = edge_page_index gs"
  "next_node_id (update_adjacency_lists src dst e a gs) = next_node_id gs"
  "next_edge_id (update_adjacency_lists src dst e a gs) = next_edge_id gs"
  "node_count (update_adjacency_lists src dst e a gs) = node_count gs"
  "edge_count (update_adjacency_lists src dst e a gs) = edge_count gs"
  "mvcc_manager (update_adjacency_lists src dst e a gs) = mvcc_manager gs"
  "wal_manager (update_adjacency_lists src dst e a gs) = wal_manager gs"
  by (simp_all add: update_adjacency_lists_def Let_def)

definition created_edge ::
  "(string \<Rightarrow> u64) \<Rightarrow> u64 \<Rightarrow> edge_id \<Rightarrow> node_id \<Rightarrow> node_id \<Rightarrow> string \<Rightarrow> Property list \<Rightarrow> EdgeRecord" where
  "created_edge hash now e src dst label properties =
     new_EdgeRecord\<lparr>e_id := e, from_node := src, to_node := dst, label_id := ucast (hash label),
       e_property_count := word_of_nat (length properties), timestamp := now\<rparr>"

lemma create_edge_ok:
  assumes wf: "wf_graph gs" and room: "0 < graph_room gs" and fits: "storable properties"
  shows "\<exists>gs'. create_edge hash now src dst label properties gs = (Inr (next_edge_id gs), gs') \<and>
    wf_graph gs' \<and> edge_at gs (next_edge_id gs) = None \<and> node_at gs' = node_at gs \<and>
    edge_at gs' = (edge_at gs)(next_edge_id gs \<mapsto>
      (created_edge hash now (next_edge_id gs) src dst label properties, properties)) \<and>
    Suc (graph_room gs') = graph_room gs \<and>
    mvcc_manager gs' = mvcc_manager gs \<and> wal_manager gs' = wal_manager gs"
proof -
  let ?e = "next_edge_id gs" and ?g = "gs\<lparr>next_edge_id := next_edge_id gs + 1\<rparr>"
  let ?edge = "created_edge hash now ?e src dst label properties"
  have key: "e_id ?edge = ?e" and ends: "from_node ?edge = src" "to_node ?edge = dst"
    by (simp_all add: created_edge_def)
  from store_edge_record_ok [OF wf room fits key] obtain page ps where st:
    "store_edge_record ?e ?edge properties gs =
      (Inr (), gs\<lparr>pages_store := ps, edge_page_index := (edge_page_index gs)(?e \<mapsto> page)\<rparr>)"
    "wf_store ps" "Suc (store_room ps) = graph_room gs"
    "records EDGE deserialize_edge ((edge_page_index gs)(?e \<mapsto> page)) ps =
      (edge_at gs)(?e \<mapsto> (?edge, properties))"
    "valid_index EDGE deserialize_edge (e_id \<circ> fst) ((edge_page_index gs)(?e \<mapsto> page)) ps"
    "records NODE deserialize_node (node_page_index gs) ps = node_at gs"
    "valid_index NODE deserialize_node (n_id \<circ> fst) (node_page_index gs) ps"
    by (elim exE conjE)
  let ?k = "?g\<lparr>pages_store := ps, edge_page_index := (edge_page_index gs)(?e \<mapsto> page)\<rparr>"
  have st': "store_edge_record ?e ?edge properties ?g = (Inr (), ?k)"
    by (simp add: store_record_next_id st(1))
  let ?u = "update_adjacency_lists src dst ?e True ?k"
  let ?h = "?u\<lparr>edge_count := edge_count ?u + 1\<rparr>"
  have run: "create_edge hash now src dst label properties gs = (Inr ?e, ?h)"
    using st' by (simp add: create_edge_def get_next_edge_id_def created_edge_def Let_def)
  have maps: "edge_at ?h = (edge_at gs)(?e \<mapsto> (?edge, properties))" "node_at ?h = node_at gs"
    using st(4,6) by (simp_all add: node_at_def edge_at_def update_adjacency_lists_other)
  have ok: "ids_ok ?e (edge_count gs) (edge_page_index gs) (Suc (store_room ps))"
    using wf_graphD(5) [OF wf] st(3) by simp
  note ids = ids_ok_insert [OF ok]
  have new: "edge_at gs ?e = None" using ids(2) edge_at_iff [OF wf] by (simp add: domIff)
  have adj: "get_outgoing_edges m ?h = (if m = src then get_outgoing_edges m gs @ [?e] else get_outgoing_edges m gs)"
    "get_incoming_edges m ?h = (if m = dst then get_incoming_edges m gs @ [?e] else get_incoming_edges m gs)" for m
    by (simp_all add: update_adjacency_lists_at)
  have "wf_graph ?h"
  proof (rule wf_graphI)
    show "ids_ok (next_edge_id ?h) (edge_count ?h) (edge_page_index ?h) (graph_room ?h)"
      using ids(1) [of page] by (simp add: graph_room_def update_adjacency_lists_other)
    show "ids_ok (next_node_id ?h) (node_count ?h) (node_page_index ?h) (graph_room ?h)"
      using ids_ok_smaller [OF wf_graphD(4) [OF wf], of "store_room ps"] st(3)
      by (simp add: graph_room_def update_adjacency_lists_other)
    show "adjacency_ok (\<lambda>n. get_outgoing_edges n ?h) from_node (edge_at ?h)"
      unfolding adj maps by (rule adjacency_ok_add [OF wf_graphD(6) [OF wf] new ends(1)])
    show "adjacency_ok (\<lambda>n. get_incoming_edges n ?h) to_node (edge_at ?h)"
      unfolding adj maps by (rule adjacency_ok_add [OF wf_graphD(7) [OF wf] new ends(2)])
  qed (use st in \<open>simp_all add: update_adjacency_lists_other\<close>)
  moreover have "Suc (graph_room ?h) = graph_room gs"
    using st(3) by (simp add: graph_room_def update_adjacency_lists_other)
  moreover have "mvcc_manager ?h = mvcc_manager gs" "wal_manager ?h = wal_manager gs"
    by (simp_all add: update_adjacency_lists_other)
  ultimately show ?thesis using run maps new by blast
qed

lemma update_edge_ok:
  assumes wf: "wf_graph gs" and room: "0 < graph_room gs" and fits: "storable properties"
    and old: "edge_at gs e = Some (edge, props)"
  shows "\<exists>gs'. update_edge e properties gs = (Inr (), gs') \<and> wf_graph gs' \<and>
    edge_at gs' = (edge_at gs)
      (e \<mapsto> (edge\<lparr>e_property_count := word_of_nat (length properties)\<rparr>, properties)) \<and>
    node_at gs' = node_at gs \<and> Suc (graph_room gs') = graph_room gs \<and>
    mvcc_manager gs' = mvcc_manager gs \<and> wal_manager gs' = wal_manager gs"
proof -
  let ?edge = "edge\<lparr>e_property_count := word_of_nat (length properties)\<rparr>"
  obtain g where g: "get_edge e gs = (Inr (edge, props), g)" "same_graph gs g"
    using get_edge_found [OF wf old] by blast
  note same = same_graphD [OF g(2)] and wfg = same_graph_wf [OF g(2) wf]
  have "e_id edge = e"
    using valid_index_key [OF wf_graphD(3) [OF wf], of e "(edge, props)"] old
    by (simp add: edge_at_def)
  then have key: "e_id ?edge = e" by simp
  have roomg: "0 < graph_room g" using room same by simp
  from store_edge_record_ok [OF wfg roomg fits key] obtain page ps where st:
    "store_edge_record e ?edge properties g =
      (Inr (), g\<lparr>pages_store := ps, edge_page_index := (edge_page_index g)(e \<mapsto> page)\<rparr>)"
    "wf_store ps" "Suc (store_room ps) = graph_room g"
    "records EDGE deserialize_edge ((edge_page_index g)(e \<mapsto> page)) ps =
      (edge_at g)(e \<mapsto> (?edge, properties))"
    "valid_index EDGE deserialize_edge (e_id \<circ> fst) ((edge_page_index g)(e \<mapsto> page)) ps"
    "records NODE deserialize_node (node_page_index g) ps = node_at g"
    "valid_index NODE deserialize_node (n_id \<circ> fst) (node_page_index g) ps"
    by (elim exE conjE)
  let ?h = "g\<lparr>pages_store := ps, edge_page_index := (edge_page_index g)(e \<mapsto> page)\<rparr>"
  have maps: "edge_at ?h = (edge_at g)(e \<mapsto> (?edge, properties))" "node_at ?h = node_at g"
    using st(4,6) by (simp_all add: node_at_def edge_at_def)
  have "e \<in> dom (edge_page_index g)"
    using old edge_at_iff [OF wf, of e] same by (auto simp: domIff)
  then have dom: "dom ((edge_page_index g)(e \<mapsto> page)) = dom (edge_page_index g)" by auto
  have le: "store_room ps \<le> graph_room g" using st(3) by simp
  have oldg: "edge_at g e = Some (edge, props)" using old same by simp
  have "wf_graph ?h"
  proof (rule wf_graphI)
    show "ids_ok (next_edge_id ?h) (edge_count ?h) (edge_page_index ?h) (graph_room ?h)"
      using ids_ok_same_dom [OF ids_ok_smaller [OF wf_graphD(5) [OF wfg] le] dom]
      by (simp add: graph_room_def)
    show "ids_ok (next_node_id ?h) (node_count ?h) (node_page_index ?h) (graph_room ?h)"
      using ids_ok_smaller [OF wf_graphD(4) [OF wfg] le] by (simp add: graph_room_def)
    show "adjacency_ok (\<lambda>n. get_outgoing_edges n ?h) from_node (edge_at ?h)"
      "adjacency_ok (\<lambda>n. get_incoming_edges n ?h) to_node (edge_at ?h)"
      using adjacency_ok_update [OF wf_graphD(6) [OF wfg] oldg, of ?edge properties]
        adjacency_ok_update [OF wf_graphD(7) [OF wfg] oldg, of ?edge properties]
      by (simp_all add: maps)
  qed (use st in simp_all)
  moreover have "update_edge e properties gs = (Inr (), ?h)"
    by (simp add: update_edge_def g(1) st(1))
  moreover have "Suc (graph_room ?h) = graph_room gs" using st(3) same by (simp add: graph_room_def)
  moreover have "edge_at ?h = (edge_at gs)(e \<mapsto> (?edge, properties))" "node_at ?h = node_at gs"
    using maps same by simp_all
  moreover have "mvcc_manager ?h = mvcc_manager gs" "wal_manager ?h = wal_manager gs"
    using same by simp_all
  ultimately show ?thesis by blast
qed

lemma delete_edge_ok:
  assumes wf: "wf_graph gs" and old: "edge_at gs e = Some (edge, props)"
  shows "\<exists>gs'. delete_edge e gs = (Inr (), gs') \<and> wf_graph gs' \<and>
    edge_at gs' = (edge_at gs)(e := None) \<and> node_at gs' = node_at gs \<and>
    graph_room gs' = graph_room gs \<and> mvcc_manager gs' = mvcc_manager gs \<and>
    wal_manager gs' = wal_manager gs"
proof -
  obtain g where g: "get_edge e gs = (Inr (edge, props), g)" "same_graph gs g"
    using get_edge_found [OF wf old] by blast
  note same = same_graphD [OF g(2)] and wfg = same_graph_wf [OF g(2) wf]
  let ?u = "update_adjacency_lists (from_node edge) (to_node edge) e False g"
  let ?h = "?u\<lparr>edge_page_index := (edge_page_index ?u)(e := None), edge_count := edge_count ?u - 1\<rparr>"
  have run: "delete_edge e gs = (Inr (), ?h)" by (simp add: delete_edge_def g(1) Let_def)
  have maps: "edge_at ?h = (edge_at g)(e := None)" "node_at ?h = node_at g"
    by (simp_all add: node_at_def edge_at_def update_adjacency_lists_other records_remove)
  have oldg: "edge_at g e = Some (edge, props)" using old same by simp
  then have "e \<in> dom (edge_page_index g)" using edge_at_iff [OF wfg, of e] by (auto simp: domIff)
  note ids = ids_ok_remove [OF wf_graphD(5) [OF wfg] this]
  have adj: "get_outgoing_edges m ?h = (if m = from_node edge then filter (\<lambda>x. x \<noteq> e) (get_outgoing_edges m g)
      else get_outgoing_edges m g)"
    "get_incoming_edges m ?h = (if m = to_node edge then filter (\<lambda>x. x \<noteq> e) (get_incoming_edges m g)
      else get_incoming_edges m g)" for m
    by (simp_all add: update_adjacency_lists_at)
  have "wf_graph ?h"
  proof (rule wf_graphI)
    show "ids_ok (next_edge_id ?h) (edge_count ?h) (edge_page_index ?h) (graph_room ?h)"
      using ids by (simp add: graph_room_def update_adjacency_lists_other)
    show "ids_ok (next_node_id ?h) (node_count ?h) (node_page_index ?h) (graph_room ?h)"
      using wf_graphD(4) [OF wfg] by (simp add: graph_room_def update_adjacency_lists_other)
    show "adjacency_ok (\<lambda>n. get_outgoing_edges n ?h) from_node (edge_at ?h)"
      unfolding adj maps by (rule adjacency_ok_remove [OF wf_graphD(6) [OF wfg] oldg refl])
    show "adjacency_ok (\<lambda>n. get_incoming_edges n ?h) to_node (edge_at ?h)"
      unfolding adj maps by (rule adjacency_ok_remove [OF wf_graphD(7) [OF wfg] oldg refl])
  qed (use wf_graphD(1-3) [OF wfg] valid_index_remove in \<open>simp_all add: update_adjacency_lists_other\<close>)
  moreover have "edge_at ?h = (edge_at gs)(e := None)" "node_at ?h = node_at gs"
    using maps same by simp_all
  moreover have "graph_room ?h = graph_room gs" "mvcc_manager ?h = mvcc_manager gs"
    "wal_manager ?h = wal_manager gs"
    using same by (simp_all add: graph_room_def update_adjacency_lists_other)
  ultimately show ?thesis using run by blast
qed

section \<open>Neighbours\<close>

lemma collect_nodes_ok:
  assumes "wf_graph gs" and "\<forall>e \<in> set es. edge_at gs e \<noteq> None"
  shows "\<exists>gs'. collect_nodes endpoint es acc gs =
           (Inr (acc @ map (\<lambda>e. endpoint (fst (the (edge_at gs e)))) es), gs') \<and> same_graph gs gs'"
  using assms
proof (induction es arbitrary: acc gs)
  case Nil
  then show ?case using same_graph_refl by auto
next
  case (Cons e es)
  then obtain edge props where e: "edge_at gs e = Some (edge, props)" by auto
  obtain g where g: "get_edge e gs = (Inr (edge, props), g)" "same_graph gs g"
    using get_edge_found [OF Cons.prems(1) e] by blast
  note same = same_graphD [OF g(2)]
  have "wf_graph g" "\<forall>e \<in> set es. edge_at g e \<noteq> None"
    using same_graph_wf [OF g(2) Cons.prems(1)] Cons.prems(2) same by simp_all
  from Cons.IH [OF this, of "acc @ [endpoint edge]"] obtain h where
    "collect_nodes endpoint es (acc @ [endpoint edge]) g =
       (Inr ((acc @ [endpoint edge]) @ map (\<lambda>e. endpoint (fst (the (edge_at g e)))) es), h)"
    "same_graph g h" by blast
  then show ?case using g e same same_graph_trans [OF g(2)] by auto
qed

definition neighbours :: "GraphStore \<Rightarrow> node_id \<Rightarrow> node_id set" where
  "neighbours gs n =
     {m. \<exists>e r ps. edge_at gs e = Some (r, ps) \<and>
            (from_node r = n \<and> to_node r = m \<or> to_node r = n \<and> from_node r = m)}"

lemma listed_edges:
  assumes "wf_graph gs"
  shows "e \<in> set (get_outgoing_edges n gs) \<longleftrightarrow> (\<exists>r ps. edge_at gs e = Some (r, ps) \<and> from_node r = n)"
    "e \<in> set (get_incoming_edges n gs) \<longleftrightarrow> (\<exists>r ps. edge_at gs e = Some (r, ps) \<and> to_node r = n)"
  by (rule adjacency_okD(2) [OF wf_graphD(6) [OF assms]] adjacency_okD(2) [OF wf_graphD(7) [OF assms]])+

lemma listed_edges_exist:
  assumes "wf_graph gs"
  shows "\<forall>e \<in> set (get_outgoing_edges n gs). edge_at gs e \<noteq> None"
    "\<forall>e \<in> set (get_incoming_edges n gs). edge_at gs e \<noteq> None"
  using listed_edges [OF assms, of _ n] by (metis option.distinct(1))+

text \<open>The other ends of the edges of a node.\<close>

definition other_ends :: "GraphStore \<Rightarrow> (EdgeRecord \<Rightarrow> node_id) \<Rightarrow> edge_id list \<Rightarrow> node_id list" where
  "other_ends gs endpoint es = map (\<lambda>e. endpoint (fst (the (edge_at gs e)))) es"

lemma mem_other_ends:
  assumes "\<forall>e. e \<in> set es \<longleftrightarrow> (\<exists>r ps. edge_at gs e = Some (r, ps) \<and> P r)"
  shows "m \<in> set (other_ends gs endpoint es) \<longleftrightarrow>
           (\<exists>e r ps. edge_at gs e = Some (r, ps) \<and> P r \<and> endpoint r = m)"
proof
  assume "m \<in> set (other_ends gs endpoint es)"
  then obtain e where e: "e \<in> set es" "m = endpoint (fst (the (edge_at gs e)))"
    by (auto simp: other_ends_def)
  from e(1) obtain r ps where "edge_at gs e = Some (r, ps)" "P r" using assms by blast
  with e(2) show "\<exists>e r ps. edge_at gs e = Some (r, ps) \<and> P r \<and> endpoint r = m" by auto
next
  assume "\<exists>e r ps. edge_at gs e = Some (r, ps) \<and> P r \<and> endpoint r = m"
  then obtain e r ps where e: "edge_at gs e = Some (r, ps)" "P r" "endpoint r = m" by blast
  then have "e \<in> set es" using assms by blast
  then show "m \<in> set (other_ends gs endpoint es)"
    using e by (auto simp: other_ends_def intro!: image_eqI [of _ _ e])
qed

lemma set_other_ends:
  assumes "wf_graph gs"
  shows "set (other_ends gs to_node (get_outgoing_edges n gs) @
              other_ends gs from_node (get_incoming_edges n gs)) = neighbours gs n"
proof -
  have "m \<in> set (other_ends gs to_node (get_outgoing_edges n gs)) \<longleftrightarrow>
      (\<exists>e r ps. edge_at gs e = Some (r, ps) \<and> from_node r = n \<and> to_node r = m)"
    "m \<in> set (other_ends gs from_node (get_incoming_edges n gs)) \<longleftrightarrow>
      (\<exists>e r ps. edge_at gs e = Some (r, ps) \<and> to_node r = n \<and> from_node r = m)" for m
    by (rule mem_other_ends, intro allI, rule listed_edges [OF assms])+
  then show ?thesis unfolding neighbours_def set_append by blast
qed

lemma other_ends_same: "same_graph gs g \<Longrightarrow> other_ends g = other_ends gs"
  by (simp add: fun_eq_iff other_ends_def same_graphD)

lemma get_adjacent_nodes_ok:
  assumes wf: "wf_graph gs"
  shows "\<exists>xs gs'. get_adjacent_nodes n gs = (Inr xs, gs') \<and> same_graph gs gs' \<and>
           sorted_wrt (<) xs \<and> set xs = neighbours gs n"
proof -
  let ?to = "other_ends gs to_node (get_outgoing_edges n gs)"
    and ?from = "other_ends gs from_node (get_incoming_edges n gs)"
  obtain g where g: "collect_nodes to_node (get_outgoing_edges n gs) [] gs = (Inr ?to, g)"
    "same_graph gs g"
    using collect_nodes_ok [OF wf listed_edges_exist(1) [OF wf], of to_node n "[]"]
    unfolding append_Nil other_ends_def by (elim exE conjE)
  have wfg: "wf_graph g" by (rule same_graph_wf [OF g(2) wf])
  have inc: "get_incoming_edges n g = get_incoming_edges n gs"
    by (rule adjacency_at_cong) (rule same_graphD [OF g(2)])
  obtain h where h: "collect_nodes from_node (get_incoming_edges n gs) ?to g = (Inr (?to @ ?from), h)"
    "same_graph g h"
    using collect_nodes_ok [OF wfg listed_edges_exist(2) [OF wfg], of from_node n ?to]
    unfolding inc other_ends_same [OF g(2), symmetric] other_ends_def by (elim exE conjE)
  have "get_adjacent_nodes n gs = (Inr (sort_unique (?to @ ?from)), h)"
    by (simp add: get_adjacent_nodes_def g(1) inc h(1))
  moreover have "same_graph gs h" by (rule same_graph_trans [OF g(2) h(2)])
  moreover have "set (sort_unique (?to @ ?from)) = neighbours gs n"
    unfolding set_sort_unique by (rule set_other_ends [OF wf])
  ultimately show ?thesis using sort_unique_strict by blast
qed

lemma neighbours_sym: "m \<in> neighbours gs n \<longleftrightarrow> n \<in> neighbours gs m"
  by (auto simp: neighbours_def)

section \<open>The property graph\<close>

text \<open>What the store promises: a finite graph with properties, and the next free ids.\<close>

record property_graph =
  pg_nodes :: "node_id \<rightharpoonup> Property list"
  pg_edges :: "edge_id \<rightharpoonup> node_id \<times> node_id \<times> u32 \<times> Property list"
  pg_next_node :: node_id
  pg_next_edge :: edge_id

definition empty_graph :: property_graph where
  "empty_graph = \<lparr>pg_nodes = Map.empty, pg_edges = Map.empty, pg_next_node = 1, pg_next_edge = 1\<rparr>"

definition edge_view :: "EdgeRecord \<times> Property list \<Rightarrow> node_id \<times> node_id \<times> u32 \<times> Property list" where
  "edge_view rp = (case rp of (r, ps) \<Rightarrow> (from_node r, to_node r, label_id r, ps))"

definition abs_graph :: "GraphStore \<Rightarrow> property_graph" where
  "abs_graph gs =
     \<lparr>pg_nodes = (\<lambda>n. map_option snd (node_at gs n)),
      pg_edges = (\<lambda>e. map_option edge_view (edge_at gs e)),
      pg_next_node = next_node_id gs, pg_next_edge = next_edge_id gs\<rparr>"

definition touches :: "node_id \<Rightarrow> node_id \<times> node_id \<times> u32 \<times> Property list \<Rightarrow> bool" where
  "touches n x = (case x of (src, dst, _) \<Rightarrow> src = n \<or> dst = n)"

datatype graph_call =
    CreateNodeCall "Property list"
  | UpdateNodeCall node_id "Property list"
  | DeleteNodeCall node_id
  | CreateEdgeCall u64 node_id node_id string "Property list"
  | UpdateEdgeCall edge_id "Property list"
  | DeleteEdgeCall edge_id
  | GetNodeCall node_id
  | GetEdgeCall edge_id
  | AdjacentCall node_id

fun run_call :: "(string \<Rightarrow> u64) \<Rightarrow> graph_call \<Rightarrow> GraphStore \<Rightarrow> GraphStore" where
  "run_call hash (CreateNodeCall ps) gs = snd (create_node ps gs)"
| "run_call hash (UpdateNodeCall n ps) gs = snd (update_node n ps gs)"
| "run_call hash (DeleteNodeCall n) gs = snd (delete_node n gs)"
| "run_call hash (CreateEdgeCall now src dst label ps) gs = snd (create_edge hash now src dst label ps gs)"
| "run_call hash (UpdateEdgeCall e ps) gs = snd (update_edge e ps gs)"
| "run_call hash (DeleteEdgeCall e) gs = snd (delete_edge e gs)"
| "run_call hash (GetNodeCall n) gs = snd (get_node n gs)"
| "run_call hash (GetEdgeCall e) gs = snd (get_edge e gs)"
| "run_call hash (AdjacentCall n) gs = snd (get_adjacent_nodes n gs)"

text \<open>What the calls mean on the graph; edges may point to nodes that do not exist.\<close>

fun spec_call :: "(string \<Rightarrow> u64) \<Rightarrow> graph_call \<Rightarrow> property_graph \<Rightarrow> property_graph" where
  "spec_call hash (CreateNodeCall ps) G =
     G\<lparr>pg_nodes := (pg_nodes G)(pg_next_node G \<mapsto> ps), pg_next_node := pg_next_node G + 1\<rparr>"
| "spec_call hash (UpdateNodeCall n ps) G =
     (if pg_nodes G n = None then G else G\<lparr>pg_nodes := (pg_nodes G)(n \<mapsto> ps)\<rparr>)"
| "spec_call hash (DeleteNodeCall n) G =
     (if \<exists>e x. pg_edges G e = Some x \<and> touches n x then G
      else G\<lparr>pg_nodes := (pg_nodes G)(n := None)\<rparr>)"
| "spec_call hash (CreateEdgeCall now src dst label ps) G =
     G\<lparr>pg_edges := (pg_edges G)(pg_next_edge G \<mapsto> (src, dst, ucast (hash label), ps)),
       pg_next_edge := pg_next_edge G + 1\<rparr>"
| "spec_call hash (UpdateEdgeCall e ps) G =
     (case pg_edges G e of
        None \<Rightarrow> G
      | Some (src, dst, label, _) \<Rightarrow> G\<lparr>pg_edges := (pg_edges G)(e \<mapsto> (src, dst, label, ps))\<rparr>)"
| "spec_call hash (DeleteEdgeCall e) G = G\<lparr>pg_edges := (pg_edges G)(e := None)\<rparr>"
| "spec_call hash (GetNodeCall n) G = G"
| "spec_call hash (GetEdgeCall e) G = G"
| "spec_call hash (AdjacentCall n) G = G"

text \<open>
  The calls the refinement is about: there is a page left, the properties fit a page, and a
  node that is deleted exists.
\<close>

fun call_properties :: "graph_call \<Rightarrow> Property list" where
  "call_properties (CreateNodeCall ps) = ps"
| "call_properties (UpdateNodeCall n ps) = ps"
| "call_properties (CreateEdgeCall now src dst label ps) = ps"
| "call_properties (UpdateEdgeCall e ps) = ps"
| "call_properties c = []"

fun admissible :: "graph_call \<Rightarrow> GraphStore \<Rightarrow> bool" where
  "admissible (DeleteNodeCall n) gs \<longleftrightarrow> node_at gs n \<noteq> None"
| "admissible c gs \<longleftrightarrow> 0 < graph_room gs \<and> storable (call_properties c)"

fun admissible_calls :: "(string \<Rightarrow> u64) \<Rightarrow> graph_call list \<Rightarrow> GraphStore \<Rightarrow> bool" where
  "admissible_calls hash [] gs \<longleftrightarrow> True"
| "admissible_calls hash (c # cs) gs \<longleftrightarrow>
     admissible c gs \<and> admissible_calls hash cs (run_call hash c gs)"

lemma next_ids_other:
  "next_edge_id (snd (create_node ps gs)) = next_edge_id gs"
  "next_node_id (snd (create_node ps gs)) = next_node_id gs + 1"
  "next_node_id (snd (create_edge hash now src dst label ps gs)) = next_node_id gs"
  "next_edge_id (snd (create_edge hash now src dst label ps gs)) = next_edge_id gs + 1"
  "next_node_id (snd (update_node n ps gs)) = next_node_id gs"
  "next_edge_id (snd (update_node n ps gs)) = next_edge_id gs"
  "next_node_id (snd (update_edge e ps gs)) = next_node_id gs"
  "next_edge_id (snd (update_edge e ps gs)) = next_edge_id gs"
  "next_node_id (snd (delete_node n gs)) = next_node_id gs"
  "next_edge_id (snd (delete_node n gs)) = next_edge_id gs"
  "next_node_id (snd (delete_edge e gs)) = next_node_id gs"
  "next_edge_id (snd (delete_edge e gs)) = next_edge_id gs"
  by (simp_all add: create_node_def create_edge_def update_node_def update_edge_def delete_node_def
      delete_edge_def get_next_node_id_def get_next_edge_id_def store_node_record_def
      store_edge_record_def get_node_def get_edge_def update_adjacency_lists_other Let_def
      split: prod.splits sum.splits)

lemma abs_graph_same: "same_graph gs gs' \<Longrightarrow> abs_graph gs' = abs_graph gs"
  by (simp add: abs_graph_def same_graphD)

lemma get_node_same: "wf_graph gs \<Longrightarrow> same_graph gs (snd (get_node n gs))"
  by (cases "node_at gs n") (auto simp: get_node_missing same_graph_refl dest: get_node_found)

lemma get_edge_same: "wf_graph gs \<Longrightarrow> same_graph gs (snd (get_edge e gs))"
  by (cases "edge_at gs e") (auto simp: get_edge_missing same_graph_refl dest: get_edge_found)

lemma get_adjacent_nodes_same: "wf_graph gs \<Longrightarrow> same_graph gs (snd (get_adjacent_nodes n gs))"
  using get_adjacent_nodes_ok [of gs n] by auto

lemma same_graph_call:
  "same_graph gs g \<Longrightarrow> wf_graph gs \<Longrightarrow>
     wf_graph g \<and> abs_graph g = abs_graph gs \<and> graph_room gs \<le> Suc (graph_room g) \<and>
     mvcc_manager g = mvcc_manager gs"
  using same_graph_wf abs_graph_same same_graphD(5,10) [of gs g] by auto

lemma touching_edge:
  "(\<exists>e x. pg_edges (abs_graph gs) e = Some x \<and> touches n x) \<longleftrightarrow>
     (\<exists>e r ps. edge_at gs e = Some (r, ps) \<and> (from_node r = n \<or> to_node r = n))"
  by (force simp: abs_graph_def touches_def edge_view_def)

lemma run_call_refines:
  assumes wf: "wf_graph gs" and adm: "admissible c gs"
  shows "wf_graph (run_call hash c gs) \<and> abs_graph (run_call hash c gs) = spec_call hash c (abs_graph gs) \<and>
    graph_room gs \<le> Suc (graph_room (run_call hash c gs)) \<and>
    mvcc_manager (run_call hash c gs) = mvcc_manager gs"
proof (cases c)
  case (CreateNodeCall ps)
  then obtain gs' where "create_node ps gs = (Inr (next_node_id gs), gs')" "wf_graph gs'"
    "node_at gs' = (node_at gs)(next_node_id gs \<mapsto> (created_node (next_node_id gs) ps, ps))"
    "edge_at gs' = edge_at gs" "Suc (graph_room gs') = graph_room gs" "mvcc_manager gs' = mvcc_manager gs"
    using create_node_ok [OF wf, of ps] adm by auto
  then show ?thesis
    using CreateNodeCall next_ids_other(1,2) [of ps gs] by (auto simp: abs_graph_def fun_eq_iff)
next
  case (UpdateNodeCall n ps)
  show ?thesis
  proof (cases "node_at gs n")
    case None
    then show ?thesis
      using UpdateNodeCall wf by (simp add: update_node_def get_node_missing abs_graph_def)
  next
    case (Some rp)
    obtain node props where rp: "rp = (node, props)" by fastforce
    obtain gs' where "update_node n ps gs = (Inr (), gs')" "wf_graph gs'"
      "node_at gs' = (node_at gs)(n \<mapsto> (node\<lparr>n_property_count := word_of_nat (length ps)\<rparr>, ps))"
      "edge_at gs' = edge_at gs" "Suc (graph_room gs') = graph_room gs" "mvcc_manager gs' = mvcc_manager gs"
      using update_node_ok [OF wf _ _ Some [unfolded rp], of ps] adm UpdateNodeCall by auto
    then show ?thesis
      using UpdateNodeCall Some next_ids_other(5,6) [of n ps gs]
      by (auto simp: abs_graph_def fun_eq_iff)
  qed
next
  case (DeleteNodeCall n)
  show ?thesis
  proof (cases "\<exists>e r ps. edge_at gs e = Some (r, ps) \<and> (from_node r = n \<or> to_node r = n)")
    case True
    then obtain m where "delete_node n gs = (Inl (Error INVALID_ARGUMENT m), gs)"
      using delete_node_refused [OF wf] by blast
    moreover have "\<exists>e x. pg_edges (abs_graph gs) e = Some x \<and> touches n x"
      unfolding touching_edge by (rule True)
    then have "spec_call hash (DeleteNodeCall n) (abs_graph gs) = abs_graph gs"
      unfolding spec_call.simps by (rule if_P)
    ultimately show ?thesis using DeleteNodeCall wf by (simp del: spec_call.simps)
  next
    case False
    then obtain gs' where "delete_node n gs = (Inr (), gs')" "wf_graph gs'"
      "node_at gs' = (node_at gs)(n := None)" "edge_at gs' = edge_at gs"
      "graph_room gs' = graph_room gs" "mvcc_manager gs' = mvcc_manager gs"
      using delete_node_ok [OF wf, of n] adm DeleteNodeCall by auto
    moreover have "\<not> (\<exists>e x. pg_edges (abs_graph gs) e = Some x \<and> touches n x)"
      unfolding touching_edge by (rule False)
    then have "spec_call hash (DeleteNodeCall n) (abs_graph gs) =
        (abs_graph gs)\<lparr>pg_nodes := (pg_nodes (abs_graph gs))(n := None)\<rparr>"
      unfolding spec_call.simps by (rule if_not_P)
    moreover have "abs_graph gs' = (abs_graph gs)\<lparr>pg_nodes := (pg_nodes (abs_graph gs))(n := None)\<rparr>"
      if "delete_node n gs = (Inr (), gs')" "node_at gs' = (node_at gs)(n := None)"
        "edge_at gs' = edge_at gs" for gs'
      using that next_ids_other(9,10) [of n gs] by (auto simp: abs_graph_def fun_eq_iff)
    ultimately show ?thesis using DeleteNodeCall by (simp del: spec_call.simps)
  qed
next
  case (CreateEdgeCall now src dst label ps)
  then obtain gs' where "create_edge hash now src dst label ps gs = (Inr (next_edge_id gs), gs')"
    "wf_graph gs'" "node_at gs' = node_at gs"
    "edge_at gs' = (edge_at gs)(next_edge_id gs \<mapsto>
       (created_edge hash now (next_edge_id gs) src dst label ps, ps))"
    "Suc (graph_room gs') = graph_room gs" "mvcc_manager gs' = mvcc_manager gs"
    using create_edge_ok [OF wf, of ps hash now src dst label] adm by auto
  then show ?thesis
    using CreateEdgeCall next_ids_other(3,4) [of hash now src dst label ps gs]
    by (auto simp: abs_graph_def fun_eq_iff edge_view_def created_edge_def)
next
  case (UpdateEdgeCall e ps)
  show ?thesis
  proof (cases "edge_at gs e")
    case None
    then show ?thesis
      using UpdateEdgeCall wf by (simp add: update_edge_def get_edge_missing abs_graph_def)
  next
    case (Some rp)
    obtain edge props where rp: "rp = (edge, props)" by fastforce
    obtain gs' where "update_edge e ps gs = (Inr (), gs')" "wf_graph gs'"
      "edge_at gs' = (edge_at gs)(e \<mapsto> (edge\<lparr>e_property_count := word_of_nat (length ps)\<rparr>, ps))"
      "node_at gs' = node_at gs" "Suc (graph_room gs') = graph_room gs" "mvcc_manager gs' = mvcc_manager gs"
      using update_edge_ok [OF wf _ _ Some [unfolded rp], of ps] adm UpdateEdgeCall by auto
    then show ?thesis
      using UpdateEdgeCall Some rp next_ids_other(7,8) [of e ps gs]
      by (auto simp: abs_graph_def fun_eq_iff edge_view_def)
  qed
next
  case (DeleteEdgeCall e)
  show ?thesis
  proof (cases "edge_at gs e")
    case None
    then show ?thesis
      using DeleteEdgeCall wf by (auto simp: delete_edge_def get_edge_missing abs_graph_def fun_eq_iff)
  next
    case (Some rp)
    obtain edge props where rp: "rp = (edge, props)" by fastforce
    obtain gs' where "delete_edge e gs = (Inr (), gs')" "wf_graph gs'"
      "edge_at gs' = (edge_at gs)(e := None)" "node_at gs' = node_at gs"
      "graph_room gs' = graph_room gs" "mvcc_manager gs' = mvcc_manager gs"
      using delete_edge_ok [OF wf Some [unfolded rp]] by auto
    then show ?thesis
      using DeleteEdgeCall next_ids_other(11,12) [of e gs] by (auto simp: abs_graph_def fun_eq_iff)
  qed
next
  case (GetNodeCall n)
  then show ?thesis using same_graph_call [OF get_node_same [OF wf] wf] by simp
next
  case (GetEdgeCall e)
  then show ?thesis using same_graph_call [OF get_edge_same [OF wf] wf] by simp
next
  case (AdjacentCall n)
  then show ?thesis using same_graph_call [OF get_adjacent_nodes_same [OF wf] wf] by simp
qed

definition run_calls :: "(string \<Rightarrow> u64) \<Rightarrow> graph_call list \<Rightarrow> GraphStore \<Rightarrow> GraphStore" where
  "run_calls hash cs gs = fold (run_call hash) cs gs"

lemma run_calls_refines:
  assumes "wf_graph gs" and "admissible_calls hash cs gs"
  shows "wf_graph (run_calls hash cs gs) \<and>
         abs_graph (run_calls hash cs gs) = fold (spec_call hash) cs (abs_graph gs) \<and>
         graph_room gs \<le> length cs + graph_room (run_calls hash cs gs) \<and>
         mvcc_manager (run_calls hash cs gs) = mvcc_manager gs"
  using assms
proof (induction cs arbitrary: gs)
  case (Cons c cs)
  then have "wf_graph (run_call hash c gs)"
    "abs_graph (run_call hash c gs) = spec_call hash c (abs_graph gs)"
    "graph_room gs \<le> Suc (graph_room (run_call hash c gs))"
    "mvcc_manager (run_call hash c gs) = mvcc_manager gs"
    using run_call_refines [of gs c hash] by simp_all
  with Cons show ?case by (auto simp: run_calls_def intro: le_trans)
qed (simp add: run_calls_def)

text \<open>Without deletions of nodes it is enough that there are as many pages as calls.\<close>

fun plain_call :: "graph_call \<Rightarrow> bool" where
  "plain_call (DeleteNodeCall n) \<longleftrightarrow> False"
| "plain_call c \<longleftrightarrow> storable (call_properties c)"

lemma admissible_plain:
  assumes "wf_graph gs" and "list_all plain_call cs" and "length cs \<le> graph_room gs"
  shows "admissible_calls hash cs gs"
  using assms
proof (induction cs arbitrary: gs)
  case (Cons c cs)
  have adm: "admissible c gs" using Cons.prems by (cases c) auto
  have "admissible_calls hash cs (run_call hash c gs)"
    using run_call_refines [OF Cons.prems(1) adm, of hash] Cons.prems by (intro Cons.IH) auto
  with adm show ?case by simp
qed simp

lemma wf_graph_new:
  assumes "wf_store ps" and "store_room ps < ID_LIMIT"
  shows "wf_graph (new_GraphStore ps m w)" "abs_graph (new_GraphStore ps m w) = empty_graph"
  using assms
  by (auto simp: wf_graph_def new_GraphStore_def valid_index_def ids_ok_def adjacency_ok_def
      get_outgoing_edges_def get_incoming_edges_def graph_room_def node_at_def edge_at_def records_def
      abs_graph_def empty_graph_def)

lemma wf_graph_counts:
  assumes wf: "wf_graph gs"
  shows "unat (get_node_count gs) = card (dom (pg_nodes (abs_graph gs)))"
    "unat (get_edge_count gs) = card (dom (pg_edges (abs_graph gs)))"
proof -
  have "dom (pg_nodes (abs_graph gs)) = dom (node_page_index gs)"
    "dom (pg_edges (abs_graph gs)) = dom (edge_page_index gs)"
    by (intro set_eqI; simp add: domIff node_at_iff [OF wf, symmetric] edge_at_iff [OF wf, symmetric]
        abs_graph_def del: not_None_eq)+
  then show "unat (get_node_count gs) = card (dom (pg_nodes (abs_graph gs)))"
    "unat (get_edge_count gs) = card (dom (pg_edges (abs_graph gs)))"
    using wf_graphD(4,5) [OF wf] by (simp_all add: ids_ok_def get_node_count_def get_edge_count_def)
qed

section \<open>Properties of the store without transactions\<close>

text \<open>A store on a new page store with room below the limit, after a sequence of calls.\<close>

definition run_from_new ::
  "(string \<Rightarrow> u64) \<Rightarrow> graph_call list \<Rightarrow> FilePageStore \<Rightarrow> MVCCManager option \<Rightarrow> WALManager option \<Rightarrow>
     GraphStore" where
  "run_from_new hash cs ps m w = run_calls hash cs (new_GraphStore ps m w)"

lemma run_from_new:
  assumes "wf_store ps" and "store_room ps < ID_LIMIT"
    and "admissible_calls hash cs (new_GraphStore ps m w)"
  shows "wf_graph (run_from_new hash cs ps m w)"
    "abs_graph (run_from_new hash cs ps m w) = fold (spec_call hash) cs empty_graph"
  using run_calls_refines [OF wf_graph_new(1) [OF assms(1,2)] assms(3)] wf_graph_new(2) [OF assms(1,2)]
  by (simp_all add: run_from_new_def)


definition example_hash :: "string \<Rightarrow> u64" where
  "example_hash s = word_of_nat (length s)"

definition example_calls :: "graph_call list" where
  "example_calls =
     [CreateNodeCall [\<lparr>prop_key = ''name'', prop_value = StringV ''a''\<rparr>], CreateNodeCall [],
      CreateEdgeCall 5 1 2 ''knows'' [], UpdateNodeCall 2 [\<lparr>prop_key = ''age'', prop_value = IntV 3\<rparr>],
      GetNodeCall 1, AdjacentCall 2]"

lemma example_store_facts:
  "wf_store example_store" "store_room example_store < ID_LIMIT" "10 < store_room example_store"
  by (auto simp: example_store_def wf_store_def store_room_def ID_LIMIT_def PAGE_LIMIT_def
      new_FilePageStore_def fs_opened_def fs_usable_def fs_clear_def fs_good_def Let_def)

lemma storable_examples:
  "storable []" "storable [\<lparr>prop_key = ''name'', prop_value = StringV ''a''\<rparr>]"
  "storable [\<lparr>prop_key = ''age'', prop_value = IntV 3\<rparr>]"
proof -
  have "length (serialize_properties []) = 1" by code_simp
  moreover have "length (serialize_properties [\<lparr>prop_key = ''name'', prop_value = StringV ''a''\<rparr>]) = 9"
    by code_simp
  moreover have "length (serialize_properties [\<lparr>prop_key = ''age'', prop_value = IntV 3\<rparr>]) = 7"
    by code_simp
  ultimately show "storable []" "storable [\<lparr>prop_key = ''name'', prop_value = StringV ''a''\<rparr>]"
    "storable [\<lparr>prop_key = ''age'', prop_value = IntV 3\<rparr>]"
    by (simp_all add: storable_def wf_properties_def wf_property_def wf_string_def wf_value_def
        properties_max_size_def PAGE_SIZE_def sizeof_PageHeader_def sizeof_NodeRecord_def)
qed

lemma example_admissible: "admissible_calls example_hash example_calls (new_GraphStore example_store m w)"
proof (rule admissible_plain)
  show "wf_graph (new_GraphStore example_store m w)"
    by (rule wf_graph_new(1)) (rule example_store_facts)+
  show "list_all plain_call example_calls" by (simp add: example_calls_def storable_examples)
  show "length example_calls \<le> graph_room (new_GraphStore example_store m w)"
    using example_store_facts(3) by (simp add: example_calls_def graph_room_def new_GraphStore_def)
qed

lemma example_graph:
  "fold (spec_call example_hash) example_calls empty_graph =
     \<lparr>pg_nodes = [1 \<mapsto> [\<lparr>prop_key = ''name'', prop_value = StringV ''a''\<rparr>],
                  2 \<mapsto> [\<lparr>prop_key = ''age'', prop_value = IntV 3\<rparr>]],
      pg_edges = [1 \<mapsto> (1, 2, 5, [])], pg_next_node = 3, pg_next_edge = 2\<rparr>"
  by (simp add: example_calls_def empty_graph_def example_hash_def fun_upd_twist)

text \<open>
  C1. The store implements a property graph: whatever nodes and edges are created, changed,
  deleted and looked up, in any order, the records in its pages are those of the abstract
  graph on which the same calls were made, and the two counters count its nodes and edges.
\<close>

theorem GraphStore_refines_property_graph:
  assumes "wf_store ps" and "store_room ps < ID_LIMIT"
    and "admissible_calls hash cs (new_GraphStore ps m w)"
  shows "abs_graph (run_from_new hash cs ps m w) = fold (spec_call hash) cs empty_graph \<and>
    unat (get_node_count (run_from_new hash cs ps m w)) =
      card (dom (pg_nodes (fold (spec_call hash) cs empty_graph))) \<and>
    unat (get_edge_count (run_from_new hash cs ps m w)) =
      card (dom (pg_edges (fold (spec_call hash) cs empty_graph)))"
  using run_from_new [OF assms] wf_graph_counts [OF run_from_new(1) [OF assms]] by simp

theorem GraphStore_refines_witness:
  "get_node_count (run_from_new example_hash example_calls example_store None None) = 2 \<and>
   get_edge_count (run_from_new example_hash example_calls example_store None None) = 1 \<and>
   pg_edges (abs_graph (run_from_new example_hash example_calls example_store None None)) 1 =
     Some (1, 2, 5, [])"
  using GraphStore_refines_property_graph [OF example_store_facts(1,2) example_admissible, of None None]
  by (simp add: example_graph word_unat_eq_iff)

text \<open>
  C2. The queries answer from that graph: \<open>get_node\<close> and \<open>get_edge\<close> return the
  properties of a node and the ends, the label and the properties of an edge, and report
  \<open>NOT_FOUND\<close> for every other id; the outgoing and incoming lists of a node hold exactly
  the edges that start and end there, each once; and \<open>get_adjacent_nodes\<close> returns the
  neighbours in strictly ascending order.
\<close>

theorem GraphStore_queries_correct:
  assumes "wf_store ps" and "store_room ps < ID_LIMIT"
    and "admissible_calls hash cs (new_GraphStore ps m w)"
  defines "gs \<equiv> run_from_new hash cs ps m w" and "G \<equiv> fold (spec_call hash) cs empty_graph"
  shows "(case pg_nodes G n of
            None \<Rightarrow> fst (get_node n gs) = Inl (Error NOT_FOUND ''Node not found'')
          | Some props \<Rightarrow> \<exists>r. fst (get_node n gs) = Inr (r, props) \<and> n_id r = n) \<and>
    (case pg_edges G e of
       None \<Rightarrow> fst (get_edge e gs) = Inl (Error NOT_FOUND ''Edge not found'')
     | Some (src, dst, label, props) \<Rightarrow>
         \<exists>r. fst (get_edge e gs) = Inr (r, props) \<and> e_id r = e \<and> from_node r = src \<and>
             to_node r = dst \<and> label_id r = label) \<and>
    distinct (get_outgoing_edges n gs) \<and> distinct (get_incoming_edges n gs) \<and>
    set (get_outgoing_edges n gs) = {e. \<exists>dst l ps. pg_edges G e = Some (n, dst, l, ps)} \<and>
    set (get_incoming_edges n gs) = {e. \<exists>src l ps. pg_edges G e = Some (src, n, l, ps)} \<and>
    (\<exists>xs. fst (get_adjacent_nodes n gs) = Inr xs \<and> sorted_wrt (<) xs \<and>
          set xs = {b. \<exists>e l ps. pg_edges G e = Some (n, b, l, ps) \<or> pg_edges G e = Some (b, n, l, ps)})"
proof -
  have wf: "wf_graph gs" and G: "G = abs_graph gs"
    using run_from_new [OF assms(1-3)] by (simp_all add: gs_def G_def)
  have edges: "pg_edges G f = Some (a, b, l, qs) \<longleftrightarrow>
      (\<exists>r. edge_at gs f = Some (r, qs) \<and> from_node r = a \<and> to_node r = b \<and> label_id r = l)" for f a b l qs
    by (auto simp: G abs_graph_def edge_view_def)
  have "case pg_nodes G n of
      None \<Rightarrow> fst (get_node n gs) = Inl (Error NOT_FOUND ''Node not found'')
    | Some props \<Rightarrow> \<exists>r. fst (get_node n gs) = Inr (r, props) \<and> n_id r = n"
  proof (cases "node_at gs n")
    case (Some rp)
    then have "n_id (fst rp) = n"
      using valid_index_key [OF wf_graphD(2) [OF wf], of n rp] by (simp add: node_at_def)
    then show ?thesis
      using Some get_node_found [OF wf Some] by (auto simp: G abs_graph_def prod_eq_iff)
  qed (simp add: G abs_graph_def get_node_missing [OF wf])
  moreover have "case pg_edges G e of
      None \<Rightarrow> fst (get_edge e gs) = Inl (Error NOT_FOUND ''Edge not found'')
    | Some (src, dst, label, props) \<Rightarrow>
         \<exists>r. fst (get_edge e gs) = Inr (r, props) \<and> e_id r = e \<and> from_node r = src \<and>
             to_node r = dst \<and> label_id r = label"
  proof (cases "edge_at gs e")
    case (Some rp)
    then have "e_id (fst rp) = e"
      using valid_index_key [OF wf_graphD(3) [OF wf], of e rp] by (simp add: edge_at_def)
    then show ?thesis
      using Some get_edge_found [OF wf Some] by (cases rp) (auto simp: G abs_graph_def edge_view_def)
  qed (simp add: G abs_graph_def get_edge_missing [OF wf])
  moreover have "distinct (get_outgoing_edges n gs)" "distinct (get_incoming_edges n gs)"
    by (rule adjacency_okD(1) [OF wf_graphD(6) [OF wf]] adjacency_okD(1) [OF wf_graphD(7) [OF wf]])+
  moreover have "set (get_outgoing_edges n gs) = {e. \<exists>dst l ps. pg_edges G e = Some (n, dst, l, ps)}"
    "set (get_incoming_edges n gs) = {e. \<exists>src l ps. pg_edges G e = Some (src, n, l, ps)}"
    by (intro set_eqI; simp only: listed_edges [OF wf] mem_Collect_eq edges; blast)+
  moreover have "neighbours gs n =
      {b. \<exists>e l ps. pg_edges G e = Some (n, b, l, ps) \<or> pg_edges G e = Some (b, n, l, ps)}"
    unfolding neighbours_def edges by blast
  ultimately show ?thesis using get_adjacent_nodes_ok [OF wf, of n] by (metis fst_conv)
qed

theorem GraphStore_queries_witness:
  "(\<exists>r. fst (get_edge 1 (run_from_new example_hash example_calls example_store None None)) =
        Inr (r, []) \<and> from_node r = 1 \<and> to_node r = 2) \<and>
   set (get_outgoing_edges 1 (run_from_new example_hash example_calls example_store None None)) = {1} \<and>
   fst (get_node 1 (run_from_new example_hash [] example_store None None)) =
     Inl (Error NOT_FOUND ''Node not found'')"
proof -
  have "admissible_calls example_hash [] (new_GraphStore example_store None None)" by simp
  from GraphStore_queries_correct [OF example_store_facts(1,2) this, of 1 1]
  have "fst (get_node 1 (run_from_new example_hash [] example_store None None)) =
      Inl (Error NOT_FOUND ''Node not found'')" by (simp add: empty_graph_def)
  moreover note GraphStore_queries_correct [OF example_store_facts(1,2) example_admissible,
      of 1 None None 1, unfolded example_graph]
  ultimately show ?thesis by auto
qed

text \<open>
  C33. Deleting a node never leaves an edge behind without an end: while an edge starts or ends
  at the node the call is refused and changes nothing. But the existence of the node is not
  looked at: deleting an id without a node succeeds and takes one from the node counter, which
  wraps around in an empty graph.
\<close>

theorem delete_node_checks_edges_only:
  assumes "wf_store ps" and "store_room ps < ID_LIMIT"
    and "admissible_calls hash cs (new_GraphStore ps m w)"
  defines "gs \<equiv> run_from_new hash cs ps m w"
  shows "if \<exists>e r ps. edge_at gs e = Some (r, ps) \<and> (from_node r = n \<or> to_node r = n)
    then \<exists>msg. delete_node n gs = (Inl (Error INVALID_ARGUMENT msg), gs)
    else fst (delete_node n gs) = Inr () \<and>
      get_node_count (snd (delete_node n gs)) = get_node_count gs - 1 \<and>
      node_at (snd (delete_node n gs)) = (node_at gs)(n := None)"
proof -
  have wf: "wf_graph gs" using run_from_new [OF assms(1-3)] by (simp add: gs_def)
  show ?thesis
  proof (cases "\<exists>e r ps. edge_at gs e = Some (r, ps) \<and> (from_node r = n \<or> to_node r = n)")
    case True
    then show ?thesis using delete_node_refused [OF wf] by auto
  next
    case False
    then have none: "get_outgoing_edges n gs = []" "get_incoming_edges n gs = []"
      using listed_edges [OF wf, of _ n] by (metis equals0I set_empty)+
    then show ?thesis
      unfolding if_not_P [OF False]
      by (simp add: delete_node_def get_node_count_def node_at_def records_remove)
  qed
qed


theorem delete_node_checks_edges_only_witness:
  "fst (delete_node 7 (run_from_new example_hash [] example_store None None)) = Inr () \<and>
   get_node_count (snd (delete_node 7 (run_from_new example_hash [] example_store None None))) = - 1 \<and>
   (\<exists>msg. fst (delete_node 1 (run_from_new example_hash example_calls example_store None None)) =
      Inl (Error INVALID_ARGUMENT msg))"
proof -
  let ?s = "run_from_new example_hash [] example_store None None"
    and ?t = "run_from_new example_hash example_calls example_store None None"
  have adm: "admissible_calls example_hash [] (new_GraphStore example_store None None)" by simp
  have "get_node_count ?s = 0" "edge_at ?s = Map.empty"
    by (simp_all add: run_from_new_def run_calls_def new_GraphStore_def get_node_count_def edge_at_def
        records_def fun_eq_iff)
  then have "fst (delete_node 7 ?s) = Inr () \<and> get_node_count (snd (delete_node 7 ?s)) = - 1"
    using delete_node_checks_edges_only [OF example_store_facts(1,2) adm, of 7] by simp
  moreover have "pg_edges (abs_graph ?t) 1 = Some (1, 2, 5, [])"
    using run_from_new(2) [OF example_store_facts(1,2) example_admissible] by (simp add: example_graph)
  then have "\<exists>e r ps. edge_at ?t e = Some (r, ps) \<and> (from_node r = 1 \<or> to_node r = 1)"
    by (auto simp: abs_graph_def edge_view_def)
  then have "\<exists>msg. delete_node 1 ?t = (Inl (Error INVALID_ARGUMENT msg), ?t)"
    using delete_node_checks_edges_only [OF example_store_facts(1,2) example_admissible, of None None 1]
    by presburger
  ultimately show ?thesis by auto
qed

end
