(* ===== verification/GraphVersions.thy ===== *)
theory GraphVersions
  imports GraphRefinement
begin

text \<open>
  The graph store with a version manager: who sees a created node, and what the versions of
  edges do to edges and to nodes.
\<close>

section \<open>Versions\<close>

lemma put_version_ok:
  assumes "mvcc_manager gs = Some m" and "unlocked_for (created_tx_id ver) key m"
  shows "\<exists>lm. put_version key ver failure gs =
    (Inr (), gs\<lparr>mvcc_manager := Some (m\<lparr>versions := (versions m)(key \<mapsto> append_version ver (versions_at m key)),
       lock_manager := lm\<rparr>)\<rparr>)"
  using write_version_unlocked [OF assms(2)] assms(1) by (auto simp: put_version_def)

lemma put_version_ignored_ok:
  assumes "mvcc_manager gs = Some m" and "unlocked_for (created_tx_id ver) key m"
  shows "\<exists>lm. put_version_ignored key ver gs =
    (Inr (), gs\<lparr>mvcc_manager := Some (m\<lparr>versions := (versions m)(key \<mapsto> append_version ver (versions_at m key)),
       lock_manager := lm\<rparr>)\<rparr>)"
  using put_version_ok [OF assms, of "Error CORRUPTION []"] by (auto simp: put_version_ignored_def)

lemma wal_line_simps [simp]:
  "pages_store (wal_line op i gs) = pages_store gs" "mvcc_manager (wal_line op i gs) = mvcc_manager gs"
  "node_page_index (wal_line op i gs) = node_page_index gs"
  "edge_page_index (wal_line op i gs) = edge_page_index gs"
  "node_at (wal_line op i gs) = node_at gs" "edge_at (wal_line op i gs) = edge_at gs"
  by (simp_all add: wal_line_def node_at_def edge_at_def split: option.splits)

lemma get_node_pages:
  "fst (get_node n gs) = fst (load_record (node_page_index gs) n NODE (Error NOT_FOUND ''Node not found'')
     (Error CORRUPTION ''Invalid page type for node'') deserialize_node (pages_store gs))"
  by (simp add: get_node_def split: prod.splits)

lemma get_node_tx_version:
  assumes "mvcc_manager gs = Some m"
  shows "read_version n tx m = Inr ver \<Longrightarrow> ver_data ver = NodeData nr \<Longrightarrow>
      get_node_tx tx n gs = (Inr (nr, ver_properties ver), gs)"
    "read_version n tx m = Inl (MVCCError MVCC_NOT_FOUND msg) \<Longrightarrow>
      get_node_tx tx n gs = (Inl (Error NOT_FOUND ''Node not visible''), gs)"
  using assms by (simp_all add: get_node_tx_def)

definition example_mvcc :: MVCCManager where
  "example_mvcc = new_MVCCManager new_TransactionManager"

lemma example_graph_unlocked [simp]: "unlocked_for tx k example_mvcc"
  by (simp add: unlocked_for_def example_mvcc_def new_MVCCManager_def new_LockManager_def requests_at_def)

lemma wf_graph_mvcc [simp]:
  "wf_graph (gs\<lparr>mvcc_manager := x\<rparr>) = wf_graph gs"
  "node_at (gs\<lparr>mvcc_manager := x\<rparr>) = node_at gs" "edge_at (gs\<lparr>mvcc_manager := x\<rparr>) = edge_at gs"
  "graph_room (gs\<lparr>mvcc_manager := x\<rparr>) = graph_room gs"
  by (simp_all add: wf_graph_def node_at_def edge_at_def graph_room_def)

lemma example_graph_store:
  fixes m w
  defines "gs \<equiv> run_from_new example_hash example_calls example_store m w"
  shows "wf_graph gs" "0 < graph_room gs" "mvcc_manager gs = m"
    "\<exists>edge. edge_at gs 1 = Some (edge, [])" "\<exists>r props. node_at gs 1 = Some (r, props)"
proof -
  note run = run_calls_refines [OF wf_graph_new(1) [OF example_store_facts(1,2)] example_admissible [of m w]]
  show "wf_graph gs" "mvcc_manager gs = m"
    using run by (simp_all add: gs_def run_from_new_def new_GraphStore_def)
  show "0 < graph_room gs"
    using run example_store_facts(3)
    by (simp add: gs_def run_from_new_def new_GraphStore_def graph_room_def example_calls_def)
  have abs: "abs_graph gs = fold (spec_call example_hash) example_calls empty_graph"
    unfolding gs_def by (rule run_from_new(2) [OF example_store_facts(1,2) example_admissible])
  then have "pg_edges (abs_graph gs) 1 = Some (1, 2, 5, [])" "pg_nodes (abs_graph gs) 1 \<noteq> None"
    by (simp_all add: example_graph)
  then have views: "map_option edge_view (edge_at gs 1) = Some (1, 2, 5, [])" "node_at gs 1 \<noteq> None"
    by (simp_all add: abs_graph_def)
  from views(1) show "\<exists>edge. edge_at gs 1 = Some (edge, [])" by (auto simp: edge_view_def)
  from views(2) show "\<exists>r props. node_at gs 1 = Some (r, props)" by auto
qed



text \<open>
  \<open>update_edge\<close> in a transaction loses the ends: the version it writes has only the id,
  the count and the properties, so \<open>get_edge\<close> in the same transaction returns an edge from
  node 0 to node 0 without a label, although the stored record keeps its ends.
\<close>

theorem update_edge_tx_loses_ends:
  assumes wf: "wf_graph gs" and room: "0 < graph_room gs" and fits: "storable properties"
    and m: "mvcc_manager gs = Some m" and old: "edge_at gs e = Some (edge, props)"
    and unlocked: "unlocked_for tx e m"
  shows "\<exists>gs' r. update_edge_tx tx e properties gs = (Inr (), gs') \<and>
    edge_at gs' e = Some (edge\<lparr>e_property_count := word_of_nat (length properties)\<rparr>, properties) \<and>
    fst (get_edge_tx tx e gs') = Inr (r, properties) \<and> e_id r = e \<and>
    from_node r = 0 \<and> to_node r = 0 \<and> label_id r = 0"
proof -
  let ?er = "new_EdgeRecord\<lparr>e_id := e, e_property_count := word_of_nat (length properties)\<rparr>"
  let ?ver = "\<lparr>created_tx_id = tx, deleted_tx_id = 0, ver_data = EdgeData ?er, ver_properties = properties\<rparr>"
  from update_edge_ok [OF wf room fits old] obtain g where g:
    "update_edge e properties gs = (Inr (), g)"
    "edge_at g = (edge_at gs)(e \<mapsto> (edge\<lparr>e_property_count := word_of_nat (length properties)\<rparr>, properties))"
    "mvcc_manager g = mvcc_manager gs" by (elim exE conjE)
  from put_version_ignored_ok [of g m ?ver e] g(3) m unlocked
  obtain lm where put: "put_version_ignored e ?ver g =
      (Inr (), g\<lparr>mvcc_manager := Some (m\<lparr>versions := (versions m)(e \<mapsto> append_version ?ver (versions_at m e)),
         lock_manager := lm\<rparr>)\<rparr>)" by auto
  let ?m = "m\<lparr>versions := (versions m)(e \<mapsto> append_version ?ver (versions_at m e)), lock_manager := lm\<rparr>"
  let ?h = "wal_line ''update_edge'' e (g\<lparr>mvcc_manager := Some ?m\<rparr>)"
  have run: "update_edge_tx tx e properties gs = (Inr (), ?h)"
    using put by (simp add: update_edge_tx_def g(1) Let_def)
  have "read_version e tx ?m = Inr ?ver"
    by (simp add: read_version_def append_version_def is_version_visible_def)
  then have "fst (get_edge_tx tx e ?h) = Inr (?er, properties)" by (simp add: get_edge_tx_def)
  moreover have "edge_at (g\<lparr>mvcc_manager := x\<rparr>) = edge_at g" for x by (simp add: edge_at_def)
  ultimately show ?thesis
    using run g(2) by (intro exI [of _ ?h] exI [of _ ?er]) (simp add: new_EdgeRecord_def)
qed

theorem update_edge_tx_loses_ends_witness:
  "\<exists>gs gs' edge r. edge_at gs 1 = Some (edge, []) \<and> update_edge_tx 5 1 [] gs = (Inr (), gs') \<and>
     fst (get_edge_tx 5 1 gs') = Inr (r, []) \<and> from_node r = 0 \<and> to_node r = 0"
proof -
  let ?gs = "run_from_new example_hash example_calls example_store (Some example_mvcc) None"
  obtain edge where e: "edge_at ?gs 1 = Some (edge, [])" using example_graph_store(4) by blast
  from update_edge_tx_loses_ends [OF example_graph_store(1,2) storable_examples(1)
      example_graph_store(3) e, of 5] e
  show ?thesis by auto
qed

text \<open>
  Nodes and edges share their version keys: deleting an edge in a transaction writes its
  tombstone under the id of the edge, and the node with the same number, which is stored and
  was visible, is not visible to the transaction any more.
\<close>

theorem delete_edge_tx_hides_node:
  assumes wf: "wf_graph gs" and m: "mvcc_manager gs = Some m" and tx: "tx \<noteq> 0"
    and edge: "edge_at gs k = Some (er, eps)" and node: "node_at gs k = Some (nr, nps)"
    and vers: "versions m k = Some [v]" and live: "deleted_tx_id v = 0"
    and data: "ver_data v = NodeData nr" "ver_properties v = nps"
    and visible: "is_version_visible v tx (txn_manager m)" and unlocked: "unlocked_for tx k m"
  shows "fst (get_node_tx tx k gs) = Inr (nr, nps) \<and>
    (\<exists>gs'. delete_edge_tx tx k gs = (Inr (), gs') \<and> node_at gs' k = Some (nr, nps) \<and>
       fst (get_node_tx tx k gs') = Inl (Error NOT_FOUND ''Node not visible''))"
proof -
  let ?ver = "\<lparr>created_tx_id = tx, deleted_tx_id = tx,
      ver_data = EdgeData (new_EdgeRecord\<lparr>e_id := k\<rparr>), ver_properties = []\<rparr>"
  from delete_edge_ok [OF wf edge] obtain g where g:
    "delete_edge k gs = (Inr (), g)" "node_at g = node_at gs" "mvcc_manager g = mvcc_manager gs"
    by (elim exE conjE)
  from put_version_ignored_ok [of g m ?ver k] g(3) m unlocked
  obtain lm where put: "put_version_ignored k ?ver g =
      (Inr (), g\<lparr>mvcc_manager := Some (m\<lparr>versions := (versions m)(k \<mapsto> append_version ?ver (versions_at m k)),
         lock_manager := lm\<rparr>)\<rparr>)" by auto
  let ?vec = "[v\<lparr>deleted_tx_id := tx\<rparr>, ?ver]"
  have app: "append_version ?ver (versions_at m k) = ?vec"
    using vers live by (simp add: append_version_def versions_at_def)
  let ?m = "m\<lparr>versions := (versions m)(k \<mapsto> ?vec), lock_manager := lm\<rparr>"
  let ?h = "wal_line ''delete_edge'' k (g\<lparr>mvcc_manager := Some ?m\<rparr>)"
  have run: "delete_edge_tx tx k gs = (Inr (), ?h)"
    using put [unfolded app] by (simp add: delete_edge_tx_def g(1) Let_def)
  have "\<not> is_version_visible ?ver tx t" "\<not> is_version_visible (v\<lparr>deleted_tx_id := tx\<rparr>) tx t" for t
    using tx by (auto simp: is_version_visible_def)
  then have "read_version k tx ?m = Inl (MVCCError MVCC_NOT_FOUND ''No visible version for tx'')"
    by (simp add: read_version_def)
  then have "fst (get_node_tx tx k ?h) = Inl (Error NOT_FOUND ''Node not visible'')"
    by (simp add: get_node_tx_def)
  moreover have "read_version k tx m = Inr v" using vers visible by (simp add: read_version_def)
  then have "fst (get_node_tx tx k gs) = Inr (nr, nps)" using m data by (simp add: get_node_tx_def)
  moreover have "node_at ?h = node_at gs" using g(2) by (simp add: node_at_def)
  ultimately show ?thesis using run node by auto
qed

theorem delete_edge_tx_hides_node_witness:
  "\<exists>gs r. fst (get_node_tx 5 1 gs) = Inr r \<and>
     fst (get_node_tx 5 1 (snd (delete_edge_tx 5 1 gs))) = Inl (Error NOT_FOUND ''Node not visible'')"
proof -
  let ?gs = "run_from_new example_hash example_calls example_store None None"
  obtain edge where e: "edge_at ?gs 1 = Some (edge, [])" using example_graph_store(4) by blast
  obtain nr nps where n: "node_at ?gs 1 = Some (nr, nps)" using example_graph_store(5) by blast
  let ?v = "\<lparr>created_tx_id = 5, deleted_tx_id = 0, ver_data = NodeData nr, ver_properties = nps\<rparr>"
  let ?m = "example_mvcc\<lparr>versions := [1 \<mapsto> [?v]]\<rparr>"
  let ?h = "?gs\<lparr>mvcc_manager := Some ?m\<rparr>"
  have wf: "wf_graph ?h" using example_graph_store(1) by simp
  have "unlocked_for 5 1 ?m" using example_graph_unlocked [of 5 1] by (simp add: unlocked_for_def)
  then have "fst (get_node_tx 5 1 ?h) = Inr (nr, nps) \<and>
    (\<exists>gs'. delete_edge_tx 5 1 ?h = (Inr (), gs') \<and> node_at gs' 1 = Some (nr, nps) \<and>
       fst (get_node_tx 5 1 gs') = Inl (Error NOT_FOUND ''Node not visible''))"
    by (intro delete_edge_tx_hides_node [OF wf, where v = ?v]) (use e n in \<open>simp_all add: is_version_visible_def\<close>)
  then show ?thesis by (intro exI [of _ ?h] exI [of _ "(nr, nps)"]) auto
qed

end
