(* ===== verification/Doubles.thy ===== *)
theory Doubles
  imports LorePrelude
begin

text \<open>
  The operations on \<open>double\<close> the query code uses, on the 64-bit images of the numbers (IEEE
  754 binary64, round to nearest, ties to even): conversion from \<open>int64_t\<close>, subtraction,
  the comparisons, and \<open>std::to_string\<close>, which prints six digits behind the point.
\<close>

section \<open>Images\<close>

definition is_nan :: "u64 \<Rightarrow> bool" where
  "is_nan d \<longleftrightarrow> 0x7FF0000000000000 < take_bit 63 d"

definition is_inf :: "u64 \<Rightarrow> bool" where
  "is_inf d \<longleftrightarrow> take_bit 63 d = 0x7FF0000000000000"

definition negative :: "u64 \<Rightarrow> bool" where
  "negative d \<longleftrightarrow> bit d 63"

definition exponent_field :: "u64 \<Rightarrow> nat" where
  "exponent_field d = unat (take_bit 11 (drop_bit 52 d))"

definition fraction_field :: "u64 \<Rightarrow> nat" where
  "fraction_field d = unat (take_bit 52 d)"

text \<open>A finite number is \<open>significand d * 2 ^ scale d / 2 ^ 1074\<close>, with its sign.\<close>

definition significand :: "u64 \<Rightarrow> nat" where
  "significand d = (if exponent_field d = 0 then 0 else 2 ^ 52) + fraction_field d"

definition scale :: "u64 \<Rightarrow> nat" where
  "scale d = (if exponent_field d = 0 then 0 else exponent_field d - 1)"

section \<open>Rounding\<close>

text \<open>Division rounded to the nearest integer, ties to even.\<close>

definition round_div :: "nat \<Rightarrow> nat \<Rightarrow> nat" where
  "round_div n d =
     (let q = n div d; r = n mod d
      in if d < 2 * r \<or> (d = 2 * r \<and> odd q) then q + 1 else q)"

fun bit_length :: "nat \<Rightarrow> nat" where
  "bit_length n = (if n = 0 then 0 else Suc (bit_length (n div 2)))"

declare bit_length.simps [simp del]

text \<open>
  The double nearest to \<open>n / 2 ^ 1074\<close>. The exponent is chosen for 53 significant bits; a
  carry out of the significand increments the exponent field by itself.
\<close>

definition nearest_double :: "bool \<Rightarrow> nat \<Rightarrow> u64" where
  "nearest_double neg n =
     (let s = bit_length n - 53;
          image = s * 2 ^ 52 + round_div n (2 ^ s);
          finite = min image 0x7FF0000000000000
      in (if neg then 0x8000000000000000 else 0) OR word_of_nat finite)"

definition double_of_int :: "i64 \<Rightarrow> u64" where
  "double_of_int i = nearest_double (sint i < 0) (nat \<bar>sint i\<bar> * 2 ^ 1074)"

text \<open>\<open>std::abs(a - b)\<close>; the sign of the difference does not matter.\<close>

definition double_abs_diff :: "u64 \<Rightarrow> u64 \<Rightarrow> u64" where
  "double_abs_diff a b =
     (if is_nan a \<or> is_nan b \<or> (is_inf a \<and> is_inf b \<and> negative a = negative b)
      then 0x7FF8000000000000
      else if is_inf a \<or> is_inf b then 0x7FF0000000000000
      else
        let x = int (significand a * 2 ^ scale a); y = int (significand b * 2 ^ scale b)
        in nearest_double False
             (nat \<bar>(if negative a then - x else x) - (if negative b then - y else y)\<bar>))"

section \<open>Comparison\<close>

text \<open>The images order the numbers of one sign; the two zeros are equal.\<close>

definition double_key :: "u64 \<Rightarrow> int" where
  "double_key d = (if negative d then - uint (take_bit 63 d) else uint (take_bit 63 d))"

definition double_eq :: "u64 \<Rightarrow> u64 \<Rightarrow> bool" where
  "double_eq a b \<longleftrightarrow> \<not> is_nan a \<and> \<not> is_nan b \<and> double_key a = double_key b"

definition double_less :: "u64 \<Rightarrow> u64 \<Rightarrow> bool" where
  "double_less a b \<longleftrightarrow> \<not> is_nan a \<and> \<not> is_nan b \<and> double_key a < double_key b"

definition double_less_eq :: "u64 \<Rightarrow> u64 \<Rightarrow> bool" where
  "double_less_eq a b \<longleftrightarrow> \<not> is_nan a \<and> \<not> is_nan b \<and> double_key a \<le> double_key b"

section \<open>Printing\<close>

text \<open>The last \<open>k\<close> decimal digits of a number.\<close>

primrec last_digits :: "nat \<Rightarrow> nat \<Rightarrow> string" where
  "last_digits 0 n = []"
| "last_digits (Suc k) n = last_digits k (n div 10) @ [digit (n mod 10)]"

definition double_to_string :: "u64 \<Rightarrow> string" where
  "double_to_string d =
     (let millionths = round_div (significand d * 2 ^ scale d * 10 ^ 6) (2 ^ 1074);
          body = (if is_nan d then ''nan'' else if is_inf d then ''inf''
                  else nat_string (millionths div 10 ^ 6) @ ''.'' @ last_digits 6 millionths)
      in if negative d then CHR ''-'' # body else body)"

section \<open>Small integers are exact\<close>

lemma bit_length_bounds: "n \<noteq> 0 \<Longrightarrow> 2 ^ (bit_length n - 1) \<le> n \<and> n < 2 ^ bit_length n"
proof (induction n rule: bit_length.induct)
  case (1 n)
  show ?case
  proof (cases "n div 2 = 0")
    case True
    then have "n = 1" using 1(2) by simp
    then show ?thesis by (simp add: bit_length.simps)
  next
    case False
    then have "0 < bit_length (n div 2)" by (subst bit_length.simps) simp
    moreover have "2 ^ (bit_length (n div 2) - 1) \<le> n div 2 \<and> n div 2 < 2 ^ bit_length (n div 2)"
      using 1 False by simp
    moreover have "bit_length n = Suc (bit_length (n div 2))"
      using 1(2) by (subst bit_length.simps) simp
    ultimately show ?thesis by (auto simp: gr0_conv_Suc)
  qed
qed

lemma bit_length_unique: "2 ^ k \<le> n \<Longrightarrow> n < 2 ^ Suc k \<Longrightarrow> bit_length n = Suc k"
proof -
  assume n: "2 ^ k \<le> n" "n < 2 ^ Suc k"
  then have "n \<noteq> 0" using zero_less_power [of "2 :: nat" k] by linarith
  note b = bit_length_bounds [OF this]
  have "k < bit_length n" using n(1) b by (meson leD leI le_less_trans power_increasing one_le_numeral)
  moreover have "bit_length n - 1 < Suc k"
    using n(2) b by (metis le_less_trans power_less_imp_less_exp one_less_numeral_iff semiring_norm(76))
  ultimately show ?thesis by simp
qed

lemma round_div_exact [simp]: "0 < d \<Longrightarrow> round_div (q * d) d = q"
  by (simp add: round_div_def)

end
