(* ===== verification/QueryExecutor.thy ===== *)
theory QueryExecutor
  imports GraphStore IndexManager Transactions Doubles
begin

text \<open>
  \<open>query/executor.h\<close> and \<open>query/executor.cpp\<close>: the direct queries. The graph store and the
  index, which the executor shares with others, are arguments; the transaction id it takes
  from its own transaction manager is its only state. A query that reads records leaves a
  graph store whose file stream has moved, which is returned. Queries that have the name of
  an operation of the store are called \<open>query_\<close>.
\<close>

section \<open>Results\<close>

record QueryResult =
  columns :: "string list"
  rows :: "string list list"

definition new_QueryResult :: "string list \<Rightarrow> QueryResult" where
  "new_QueryResult cols = \<lparr>columns = cols, rows = []\<rparr>"

definition add_row :: "string list \<Rightarrow> QueryResult \<Rightarrow> QueryResult" where
  "add_row row q = q\<lparr>rows := rows q @ [row]\<rparr>"

section \<open>State\<close>

record QueryExecutor =
  executor_txn_manager :: TransactionManager
  executor_tx_id :: transaction_id

definition new_QueryExecutor :: "GraphStore \<Rightarrow> QueryExecutor" where
  "new_QueryExecutor gs =
     (if has_mvcc gs then
        case begin_transaction new_TransactionManager of
          (txn, tm) \<Rightarrow> \<lparr>executor_txn_manager = tm, executor_tx_id = txn_id txn\<rparr>
      else \<lparr>executor_txn_manager = new_TransactionManager, executor_tx_id = 0\<rparr>)"

section \<open>Formatting\<close>

definition storage_value_to_string :: "property_value \<Rightarrow> string" where
  "storage_value_to_string v =
     (case v of
        StringV s \<Rightarrow> s
      | IntV i \<Rightarrow> i64_string i
      | DoubleV d \<Rightarrow> double_to_string d
      | BoolV b \<Rightarrow> if b then ''true'' else ''false''
      | BytesV bs \<Rightarrow> ''[binary data]'')"

text \<open>The loops that write a separator before every element but the first.\<close>

fun join :: "string \<Rightarrow> string list \<Rightarrow> string" where
  "join sep [] = []"
| "join sep [s] = s"
| "join sep (s # t # ss) = s @ sep @ join sep (t # ss)"

definition properties_string :: "Property list \<Rightarrow> string" where
  "properties_string properties =
     join '', '' (map (\<lambda>p. prop_key p @ '':'' @ storage_value_to_string (prop_value p)) properties)"

definition node_row :: "NodeRecord \<times> Property list \<Rightarrow> string list" where
  "node_row x = (case x of (node, properties) \<Rightarrow> [u64_string (n_id node), properties_string properties])"

definition edge_row :: "EdgeRecord \<times> Property list \<Rightarrow> string list" where
  "edge_row x =
     (case x of (edge, properties) \<Rightarrow>
        [u64_string (e_id edge), u64_string (from_node edge), u64_string (to_node edge),
         properties_string properties])"

definition node_to_result :: "NodeRecord \<times> Property list \<Rightarrow> QueryResult" where
  "node_to_result x = add_row (node_row x) (new_QueryResult [''id'', ''properties''])"

definition edge_to_result :: "EdgeRecord \<times> Property list \<Rightarrow> QueryResult" where
  "edge_to_result x =
     add_row (edge_row x) (new_QueryResult [''id'', ''from_node'', ''to_node'', ''properties''])"

section \<open>Nodes and edges\<close>

definition get_node_by_id ::
  "QueryExecutor \<Rightarrow> node_id \<Rightarrow> GraphStore \<Rightarrow> QueryResult result \<times> GraphStore" where
  "get_node_by_id qe node_id gs =
     (case (if has_mvcc gs \<and> executor_tx_id qe \<noteq> 0 then get_node_tx (executor_tx_id qe) node_id gs
            else get_node node_id gs) of
        (Inl e, gs) \<Rightarrow> (Inl e, gs)
      | (Inr x, gs) \<Rightarrow> (Inr (node_to_result x), gs))"

definition get_edge_by_id ::
  "QueryExecutor \<Rightarrow> edge_id \<Rightarrow> GraphStore \<Rightarrow> QueryResult result \<times> GraphStore" where
  "get_edge_by_id qe edge_id gs =
     (case (if has_mvcc gs \<and> executor_tx_id qe \<noteq> 0 then get_edge_tx (executor_tx_id qe) edge_id gs
            else get_edge edge_id gs) of
        (Inl e, gs) \<Rightarrow> (Inl e, gs)
      | (Inr x, gs) \<Rightarrow> (Inr (edge_to_result x), gs))"

text \<open>The loops over a list of ids: what cannot be loaded is skipped, an exception is not.\<close>

fun add_rows ::
  "('i \<Rightarrow> 's \<Rightarrow> 'r result \<times> 's) \<Rightarrow> ('r \<Rightarrow> string list) \<Rightarrow> 'i list \<Rightarrow> QueryResult \<Rightarrow> 's \<Rightarrow>
     QueryResult result \<times> 's" where
  "add_rows load row [] q s = (Inr q, s)"
| "add_rows load row (i # is) q s =
     (case load i s of
        (Inr x, s) \<Rightarrow> add_rows load row is (add_row (row x) q) s
      | (Inl e, s) \<Rightarrow> if abrupt e then (Inl e, s) else add_rows load row is q s)"

definition get_nodes_by_property ::
  "string \<Rightarrow> string \<Rightarrow> SimpleIndexManager \<Rightarrow> GraphStore \<Rightarrow> QueryResult result \<times> GraphStore" where
  "get_nodes_by_property k v im gs =
     add_rows get_node node_row (find_nodes_by_property k v im) (new_QueryResult [''id'', ''properties'']) gs"

definition get_edges_by_property ::
  "string \<Rightarrow> string \<Rightarrow> SimpleIndexManager \<Rightarrow> GraphStore \<Rightarrow> QueryResult result \<times> GraphStore" where
  "get_edges_by_property k v im gs =
     add_rows get_edge edge_row (find_edges_by_property k v im)
       (new_QueryResult [''id'', ''from_node'', ''to_node'', ''properties'']) gs"

definition batch_get_nodes :: "node_id list \<Rightarrow> GraphStore \<Rightarrow> QueryResult result \<times> GraphStore" where
  "batch_get_nodes ids gs = add_rows get_node node_row ids (new_QueryResult [''id'', ''properties'']) gs"

definition batch_get_edges :: "edge_id list \<Rightarrow> GraphStore \<Rightarrow> QueryResult result \<times> GraphStore" where
  "batch_get_edges ids gs =
     add_rows get_edge edge_row ids
       (new_QueryResult [''id'', ''from_node'', ''to_node'', ''properties'']) gs"

text \<open>
  The loops over the ids from 1. The id wraps around, so with the largest limit the loop may
  run forever: \<open>None\<close>.
\<close>

partial_function (option) scan_rows ::
  "(u64 \<Rightarrow> 's \<Rightarrow> 'r result \<times> 's) \<Rightarrow> ('r \<Rightarrow> string list) \<Rightarrow> u64 \<Rightarrow> u64 \<Rightarrow> QueryResult \<Rightarrow> 's \<Rightarrow>
     (QueryResult result \<times> 's) option" where
  "scan_rows load row limit i q s =
     (if i \<le> limit \<and> length (rows q) < unat limit then
        case load i s of
          (Inr x, s) \<Rightarrow> scan_rows load row limit (i + 1) (add_row (row x) q) s
        | (Inl e, s) \<Rightarrow>
            if abrupt e then Some (Inl e, s) else scan_rows load row limit (i + 1) q s
      else Some (Inr q, s))"

definition get_all_nodes :: "u64 \<Rightarrow> GraphStore \<Rightarrow> (QueryResult result \<times> GraphStore) option" where
  "get_all_nodes limit gs =
     scan_rows get_node node_row limit 1 (new_QueryResult [''id'', ''properties'']) gs"

definition get_all_edges :: "u64 \<Rightarrow> GraphStore \<Rightarrow> (QueryResult result \<times> GraphStore) option" where
  "get_all_edges limit gs =
     scan_rows get_edge edge_row limit 1
       (new_QueryResult [''id'', ''from_node'', ''to_node'', ''properties'']) gs"

section \<open>Traversal\<close>

definition id_rows :: "string \<Rightarrow> u64 list \<Rightarrow> QueryResult" where
  "id_rows column ids = foldl (\<lambda>q i. add_row [u64_string i] q) (new_QueryResult [column]) ids"

definition query_adjacent_nodes :: "node_id \<Rightarrow> GraphStore \<Rightarrow> QueryResult result \<times> GraphStore" where
  "query_adjacent_nodes node_id gs =
     (case get_adjacent_nodes node_id gs of
        (Inl e, gs) \<Rightarrow> (Inl e, gs)
      | (Inr ids, gs) \<Rightarrow> (Inr (id_rows ''node_id'' ids), gs))"

definition query_outgoing_edges :: "node_id \<Rightarrow> GraphStore \<Rightarrow> QueryResult result" where
  "query_outgoing_edges node_id gs = Inr (id_rows ''edge_id'' (get_outgoing_edges node_id gs))"

definition query_incoming_edges :: "node_id \<Rightarrow> GraphStore \<Rightarrow> QueryResult result" where
  "query_incoming_edges node_id gs = Inr (id_rows ''edge_id'' (get_incoming_edges node_id gs))"

section \<open>Statistics\<close>

definition count_nodes :: "GraphStore \<Rightarrow> QueryResult result" where
  "count_nodes gs = Inr (add_row [u64_string (get_node_count gs)] (new_QueryResult [''count'']))"

definition count_edges :: "GraphStore \<Rightarrow> QueryResult result" where
  "count_edges gs = Inr (add_row [u64_string (get_edge_count gs)] (new_QueryResult [''count'']))"

definition get_node_degree_stats :: "GraphStore \<Rightarrow> QueryResult result" where
  "get_node_degree_stats gs =
     Inr (add_row [''total_edges'', u64_string (get_edge_count gs)]
           (add_row [''total_nodes'', u64_string (get_node_count gs)]
             (new_QueryResult [''metric'', ''value''])))"

section \<open>Documents\<close>

definition get_document_backlinks :: "node_id \<Rightarrow> GraphStore \<Rightarrow> QueryResult result" where
  "get_document_backlinks document_id gs = query_incoming_edges document_id gs"

definition get_document_outlinks :: "node_id \<Rightarrow> GraphStore \<Rightarrow> QueryResult result" where
  "get_document_outlinks document_id gs = query_outgoing_edges document_id gs"

definition find_related_documents ::
  "node_id \<Rightarrow> u64 \<Rightarrow> GraphStore \<Rightarrow> QueryResult result \<times> GraphStore" where
  "find_related_documents document_id max_results gs =
     (case get_adjacent_nodes document_id gs of
        (Inl e, gs) \<Rightarrow> (Inl e, gs)
      | (Inr adjacent, gs) \<Rightarrow>
          (Inr (foldl (\<lambda>q i. add_row [u64_string i, ''adjacent''] q)
                 (new_QueryResult [''document_id'', ''relation_type''])
                 (take (unat max_results) adjacent)), gs))"

definition suggest_links_for_document ::
  "node_id \<Rightarrow> string \<Rightarrow> GraphStore \<Rightarrow> QueryResult result \<times> GraphStore" where
  "suggest_links_for_document document_id content_snippet gs =
     (case find_related_documents document_id 5 gs of
        (Inl e, gs) \<Rightarrow> (Inl e, gs)
      | (Inr related, gs) \<Rightarrow>
          (Inr (foldl (\<lambda>q row. add_row [row ! 0, ''related_document''] q)
                 (new_QueryResult [''suggested_document_id'', ''reason'']) (rows related)), gs))"

section \<open>The shortest path\<close>

text \<open>
  The loop over the neighbours of \<open>current\<close>: it marks the unvisited ones, records where they
  were reached from, and stops when it meets the goal.
\<close>

fun bfs_visit ::
  "node_id \<Rightarrow> node_id \<Rightarrow> node_id list \<Rightarrow> node_id list \<Rightarrow> node_id set \<Rightarrow> (node_id \<rightharpoonup> node_id) \<Rightarrow>
     bool \<times> node_id list \<times> node_id set \<times> (node_id \<rightharpoonup> node_id)" where
  "bfs_visit current goal [] queue seen parent = (False, queue, seen, parent)"
| "bfs_visit current goal (neighbor # rest) queue seen parent =
     (if neighbor \<in> seen then bfs_visit current goal rest queue seen parent
      else if neighbor = goal
      then (True, queue @ [neighbor], insert neighbor seen, parent(neighbor \<mapsto> current))
      else bfs_visit current goal rest (queue @ [neighbor]) (insert neighbor seen)
             (parent(neighbor \<mapsto> current)))"

lemma bfs_visit_seen:
  "bfs_visit c g ns queue seen parent = (found, queue', seen', parent') \<Longrightarrow>
     seen \<subseteq> seen' \<and> (seen' = seen \<longrightarrow> queue' = queue)"
proof (induction ns arbitrary: queue seen parent)
  case (Cons n ns)
  show ?case
  proof (cases "n \<in> seen")
    case True
    then show ?thesis using Cons.IH Cons.prems by simp blast
  next
    case False
    have "insert n seen \<subseteq> seen'"
    proof (cases "n = g")
      case True
      then show ?thesis using Cons.prems False by auto
    next
      case other: False
      then show ?thesis using Cons.IH [of "queue @ [n]" "insert n seen"] Cons.prems False by simp
    qed
    then show ?thesis using False by auto
  qed
qed simp

text \<open>
  The loop over the queue, for any function that yields the neighbours of a node and the next
  state. The result is the map of parents when the goal was found.
\<close>

function bfs_loop ::
  "(node_id \<Rightarrow> 's \<Rightarrow> node_id list result \<times> 's) \<Rightarrow> node_id \<Rightarrow> node_id list \<Rightarrow> node_id set \<Rightarrow>
     (node_id \<rightharpoonup> node_id) \<Rightarrow> 's \<Rightarrow> (node_id \<rightharpoonup> node_id) option result \<times> 's" where
  "bfs_loop adjacent goal [] seen parent s = (Inr None, s)"
| "bfs_loop adjacent goal (current # queue) seen parent s =
     (case adjacent current s of
        (Inl e, s) \<Rightarrow>
          if abrupt e then (Inl e, s) else bfs_loop adjacent goal queue seen parent s
      | (Inr neighbors, s) \<Rightarrow>
          (case bfs_visit current goal neighbors queue seen parent of
             (True, queue, seen, parent) \<Rightarrow> (Inr (Some parent), s)
           | (False, queue, seen, parent) \<Rightarrow> bfs_loop adjacent goal queue seen parent s))"
  by pat_completeness auto

termination
proof (relation "measures [\<lambda>(adjacent, goal, queue, seen, parent, s). card (- seen),
                           \<lambda>(adjacent, goal, queue, seen, parent, s). length queue]", goal_cases)
  case 1
  show ?case by simp
next
  case 2
  then show ?case by simp
next
  case (3 adjacent goal current queue seen parent s x s' neighbors y found queue' z seen' parent')
  then have v: "seen \<subseteq> seen'" "seen' = seen \<longrightarrow> queue' = queue"
    using bfs_visit_seen by metis+
  show ?case
  proof (cases "seen' = seen")
    case False
    then have "- seen' \<subset> - seen" using v by blast
    then have "card (- seen') < card (- seen)" by (rule psubset_card_mono [OF finite])
    then show ?thesis by simp
  qed (use v in simp)
qed

text \<open>
  Following the parents back from the goal. \<open>parent[node]\<close> creates the entry 0 where there
  is none; the loop has no bound of its own.
\<close>

partial_function (option) trace_back ::
  "(node_id \<rightharpoonup> node_id) \<Rightarrow> node_id \<Rightarrow> node_id \<Rightarrow> node_id list \<Rightarrow> node_id list option" where
  "trace_back parent start node path =
     (if node = start then Some (start # path)
      else trace_back parent start (case parent node of None \<Rightarrow> 0 | Some p \<Rightarrow> p) (node # path))"

definition bfs_shortest_path ::
  "(node_id \<Rightarrow> 's \<Rightarrow> node_id list result \<times> 's) \<Rightarrow> node_id \<Rightarrow> node_id \<Rightarrow> 's \<Rightarrow>
     (node_id list result \<times> 's) option" where
  "bfs_shortest_path adjacent start goal s =
     (if start = goal then Some (Inr [start], s)
      else
        case bfs_loop adjacent goal [start] {start} Map.empty s of
          (Inl e, s) \<Rightarrow> Some (Inl e, s)
        | (Inr None, s) \<Rightarrow> Some (Inr [], s)
        | (Inr (Some parent), s) \<Rightarrow>
            map_option (\<lambda>path. (Inr path, s)) (trace_back parent start goal []))"

definition path_string :: "node_id list \<Rightarrow> string" where
  "path_string path = join '' -> '' (map u64_string path)"

definition path_row :: "node_id list \<Rightarrow> string list" where
  "path_row path = [nat_string (length path - 1), path_string path]"

definition find_shortest_path ::
  "node_id \<Rightarrow> node_id \<Rightarrow> GraphStore \<Rightarrow> (QueryResult result \<times> GraphStore) option" where
  "find_shortest_path start goal gs =
     (case bfs_shortest_path get_adjacent_nodes start goal gs of
        None \<Rightarrow> None
      | Some (Inl e, gs) \<Rightarrow> Some (Inl e, gs)
      | Some (Inr path, gs) \<Rightarrow>
          Some (Inr (add_row (if path = [] then [''0'', ''No path found''] else path_row path)
                      (new_QueryResult [''path_length'', ''path''])), gs))"

section \<open>All paths up to a length\<close>

text \<open>
  The recursive lambda \<open>dfs\<close> and its loop over the neighbours. \<open>paths\<close> collects the paths
  found; \<open>path\<close> and \<open>seen\<close> are restored after every call.
\<close>

function (sequential) dfs ::
    "(node_id \<Rightarrow> 's \<Rightarrow> node_id list result \<times> 's) \<Rightarrow> node_id \<Rightarrow> u64 \<Rightarrow> node_id \<Rightarrow> node_id list \<Rightarrow> node_id set \<Rightarrow>
       node_id list list \<Rightarrow> 's \<Rightarrow> node_id list list result \<times> 's"
  and dfs_each ::
    "(node_id \<Rightarrow> 's \<Rightarrow> node_id list result \<times> 's) \<Rightarrow> node_id \<Rightarrow> u64 \<Rightarrow> node_id list \<Rightarrow> node_id list \<Rightarrow> node_id set \<Rightarrow>
       node_id list list \<Rightarrow> 's \<Rightarrow> node_id list list result \<times> 's" where
  "dfs adjacent goal max_length current path seen paths s =
     (if unat (max_length + 1) < length path then (Inr paths, s)
      else if current = goal \<and> 1 < length path then (Inr (paths @ [path]), s)
      else
        case adjacent current s of
          (Inl e, s) \<Rightarrow> if abrupt e then (Inl e, s) else (Inr paths, s)
        | (Inr neighbors, s) \<Rightarrow> dfs_each adjacent goal max_length neighbors path seen paths s)"
| "dfs_each adjacent goal max_length [] path seen paths s = (Inr paths, s)"
| "dfs_each adjacent goal max_length (neighbor # rest) path seen paths s =
     (if neighbor \<in> seen then dfs_each adjacent goal max_length rest path seen paths s
      else
        case dfs adjacent goal max_length neighbor (path @ [neighbor]) (insert neighbor seen) paths s of
          (Inl e, s) \<Rightarrow> (Inl e, s)
        | (Inr paths, s) \<Rightarrow> dfs_each adjacent goal max_length rest path seen paths s)"
  by pat_completeness auto

termination
proof (relation "measures
    [\<lambda>x. case x of Inl (_, _, _, _, _, seen, _) \<Rightarrow> card (- seen)
                 | Inr (_, _, _, _, _, seen, _) \<Rightarrow> card (- seen),
     \<lambda>x. case x of Inl _ \<Rightarrow> 1 | Inr _ \<Rightarrow> 0,
     \<lambda>x. case x of Inl _ \<Rightarrow> 0 | Inr (_, _, _, neighbors, _) \<Rightarrow> length neighbors]", goal_cases)
  case (4 adjacent goal max_length neighbor rest path seen paths s)
  then have "- insert neighbor seen \<subset> - seen" by blast
  then have "card (- insert neighbor seen) < card (- seen)"
    by (rule psubset_card_mono [OF finite])
  then show ?case by simp
qed simp_all

definition bfs_paths_with_length ::
  "(node_id \<Rightarrow> 's \<Rightarrow> node_id list result \<times> 's) \<Rightarrow> node_id \<Rightarrow> node_id \<Rightarrow> u64 \<Rightarrow> 's \<Rightarrow>
     node_id list list result \<times> 's" where
  "bfs_paths_with_length adjacent start goal max_length s =
     dfs adjacent goal max_length start [start] {start} [] s"

definition find_paths_with_length ::
  "node_id \<Rightarrow> node_id \<Rightarrow> u64 \<Rightarrow> GraphStore \<Rightarrow> QueryResult result \<times> GraphStore" where
  "find_paths_with_length start goal max_length gs =
     (case bfs_paths_with_length get_adjacent_nodes start goal max_length gs of
        (Inl e, gs) \<Rightarrow> (Inl e, gs)
      | (Inr paths, gs) \<Rightarrow>
          (Inr (foldl (\<lambda>q path. add_row (path_row path) q)
                 (new_QueryResult [''path_length'', ''path'']) paths), gs))"

end
