(* ===== verification/CypherAst.thy ===== *)
theory CypherAst
  imports QueryExecutor "HOL-Library.AList"
begin

text \<open>
  \<open>query/cypher/ast.h\<close>, the syntax trees of queries, and the rest of \<open>query/query_types.h\<close>,
  the bindings of variables. An unordered map that is iterated over is the list of its pairs
  in the order of the iteration; the pointers of a tree that \<open>parse\<close> returns are not null.
\<close>

section \<open>Values and expressions\<close>

datatype cypher_value = StrVal string | IntVal i64 | DblVal u64 | BoolVal bool

type_synonym PropertyMap = "(string \<times> cypher_value) list"

datatype ExpressionType =
    LITERAL | PROPERTY_ACCESS | IDENTIFIER | COMPARISON | LOGICAL_AND | LOGICAL_OR | LOGICAL_NOT

datatype ComparisonOperator =
    EQUAL | NOT_EQUAL | LESS_THAN | LESS_EQUAL | GREATER_THAN | GREATER_EQUAL

datatype Expression =
    Literal cypher_value
  | PropertyAccess string string
  | Identifier string
  | Comparison Expression ComparisonOperator Expression
  | LogicalAnd Expression Expression
  | LogicalOr Expression Expression
  | LogicalNot Expression

primrec expr_type :: "Expression \<Rightarrow> ExpressionType" where
  "expr_type (Literal v) = LITERAL"
| "expr_type (PropertyAccess entity property) = PROPERTY_ACCESS"
| "expr_type (Identifier name) = IDENTIFIER"
| "expr_type (Comparison l op r) = COMPARISON"
| "expr_type (LogicalAnd l r) = LOGICAL_AND"
| "expr_type (LogicalOr l r) = LOGICAL_OR"
| "expr_type (LogicalNot e) = LOGICAL_NOT"

section \<open>Patterns\<close>

text \<open>\<open>int\<close> is a 32-bit word read through \<^const>\<open>sint\<close>.\<close>

type_synonym i32 = "32 word"

record NodePattern =
  node_variable :: "string option"
  node_labels :: "string list"
  node_constraints :: PropertyMap

record EdgePattern =
  edge_variable :: "string option"
  edge_types :: "string list"
  edge_constraints :: PropertyMap
  directed :: bool
  min_hops :: i32
  max_hops :: i32

definition new_NodePattern :: NodePattern where
  "new_NodePattern = \<lparr>node_variable = None, node_labels = [], node_constraints = []\<rparr>"

definition new_EdgePattern :: EdgePattern where
  "new_EdgePattern =
     \<lparr>edge_variable = None, edge_types = [], edge_constraints = [], directed = True,
      min_hops = 1, max_hops = 1\<rparr>"

record Pattern =
  pattern_nodes :: "NodePattern list"
  pattern_edges :: "EdgePattern list"

section \<open>Clauses\<close>

record ReturnItem =
  item_expression :: Expression
  item_alias :: "string option"

record ReturnClause =
  return_items :: "ReturnItem list"
  return_distinct :: bool

record SetClause =
  set_variable :: string
  set_property :: string
  set_value :: Expression

record DeleteClause =
  delete_variables :: "string list"
  detach :: bool

datatype OrderDirection = ASC | DESC

record OrderByItem =
  order_expression :: Expression
  order_direction :: OrderDirection

text \<open>
  A query. A \<open>MATCH\<close> or \<open>CREATE\<close> clause is the list of its patterns, \<open>WHERE\<close> its condition,
  \<open>LIMIT\<close> its count, \<open>ORDER BY\<close> the list of its items. (No code sets or reads the
  condition inside a \<open>MATCH\<close> clause.)
\<close>

record Query =
  query_match :: "Pattern list option"
  query_where :: "Expression option"
  query_return :: "ReturnClause option"
  query_create :: "Pattern list option"
  query_set :: "SetClause option"
  query_delete :: "DeleteClause option"
  query_limit :: "i64 option"
  query_order_by :: "OrderByItem list option"

definition new_Query :: Query where
  "new_Query =
     \<lparr>query_match = None, query_where = None, query_return = None, query_create = None,
      query_set = None, query_delete = None, query_limit = None, query_order_by = None\<rparr>"

definition is_read_query :: "Query \<Rightarrow> bool" where
  "is_read_query q \<longleftrightarrow>
     query_match q \<noteq> None \<and> query_return q \<noteq> None \<and> query_create q = None \<and>
     query_set q = None \<and> query_delete q = None"

definition is_write_query :: "Query \<Rightarrow> bool" where
  "is_write_query q \<longleftrightarrow> query_create q \<noteq> None \<or> query_set q \<noteq> None \<or> query_delete q \<noteq> None"

definition query_is_valid :: "Query \<Rightarrow> bool" where
  "query_is_valid q \<longleftrightarrow>
     query_match q \<noteq> None \<or> query_create q \<noteq> None \<or> query_set q \<noteq> None \<or> query_delete q \<noteq> None"

section \<open>Bindings\<close>

datatype VariableBinding = NodeBinding u64 | EdgeBinding u64 | LiteralBinding cypher_value

text \<open>A row of bindings; \<open>row.bindings[v] = b\<close> is \<^const>\<open>AList.update\<close>, \<open>find\<close> is \<^const>\<open>map_of\<close>.\<close>

type_synonym VariableMap = "(string \<times> VariableBinding) list"
type_synonym ResultSet = "VariableMap list"

end
