(* ===== verification/CypherEval.thy ===== *)
theory CypherEval
  imports CypherAst "HOL-Library.List_Lexorder" "HOL-Library.Char_ord"
begin

text \<open>
  \<open>query/cypher/expression_evaluator.cpp\<close>: the values of expressions and the truth of
  conditions, for a row of bindings and a transaction. Strings are compared by the codes of
  their characters.
\<close>

section \<open>Computations on the graph store\<close>

text \<open>
  A computation that reads or changes the store: \<open>None\<close> if it never returns, otherwise its
  result and the store. \<open>attempt\<close> is a test of \<open>has_value()\<close>: what is not an error value leaves
  it.
\<close>

type_synonym 'a io = "GraphStore \<Rightarrow> ('a result \<times> GraphStore) option"

definition ret :: "'a \<Rightarrow> 'a io" where
  "ret x = (\<lambda>gs. Some (Inr x, gs))"

definition fail :: "error \<Rightarrow> 'a io" where
  "fail e = (\<lambda>gs. Some (Inl e, gs))"

definition lift :: "(GraphStore \<Rightarrow> 'a result \<times> GraphStore) \<Rightarrow> 'a io" where
  "lift f = (\<lambda>gs. Some (f gs))"

definition bind_io :: "'a io \<Rightarrow> ('a \<Rightarrow> 'b io) \<Rightarrow> 'b io" where
  "bind_io m f =
     (\<lambda>gs. case m gs of
              None \<Rightarrow> None
            | Some (Inl e, gs) \<Rightarrow> Some (Inl e, gs)
            | Some (Inr x, gs) \<Rightarrow> f x gs)"

definition attempt :: "'a io \<Rightarrow> ('a \<Rightarrow> 'b io) \<Rightarrow> (error \<Rightarrow> 'b io) \<Rightarrow> 'b io" where
  "attempt m f h =
     (\<lambda>gs. case m gs of
              None \<Rightarrow> None
            | Some (Inl e, gs) \<Rightarrow> if abrupt e then Some (Inl e, gs) else h e gs
            | Some (Inr x, gs) \<Rightarrow> f x gs)"

text \<open>A \<open>for\<close> loop with an accumulator.\<close>

fun for_each :: "'x list \<Rightarrow> 'a \<Rightarrow> ('x \<Rightarrow> 'a \<Rightarrow> 'a io) \<Rightarrow> 'a io" where
  "for_each [] acc body = ret acc"
| "for_each (x # xs) acc body = bind_io (body x acc) (\<lambda>acc. for_each xs acc body)"

text \<open>\<open>get_node\<close> and \<open>get_edge\<close>, in the transaction if the store has versions.\<close>

definition fetch_node :: "transaction_id \<Rightarrow> node_id \<Rightarrow> (NodeRecord \<times> Property list) io" where
  "fetch_node tx n = lift (\<lambda>gs. if has_mvcc gs then get_node_tx tx n gs else get_node n gs)"

definition fetch_edge :: "transaction_id \<Rightarrow> edge_id \<Rightarrow> (EdgeRecord \<times> Property list) io" where
  "fetch_edge tx e = lift (\<lambda>gs. if has_mvcc gs then get_edge_tx tx e gs else get_edge e gs)"

section \<open>Values\<close>

definition property_value_to_string :: "cypher_value \<Rightarrow> string" where
  "property_value_to_string v =
     (case v of
        StrVal s \<Rightarrow> s
      | IntVal i \<Rightarrow> i64_string i
      | DblVal d \<Rightarrow> double_to_string d
      | BoolVal b \<Rightarrow> if b then ''true'' else ''false'')"

definition variable_binding_to_string :: "VariableBinding \<Rightarrow> string" where
  "variable_binding_to_string b =
     (case b of
        NodeBinding i \<Rightarrow> u64_string i
      | EdgeBinding i \<Rightarrow> u64_string i
      | LiteralBinding v \<Rightarrow> property_value_to_string v)"

definition value_of_storage :: "property_value \<Rightarrow> cypher_value" where
  "value_of_storage v =
     (case v of
        StringV s \<Rightarrow> StrVal s
      | IntV i \<Rightarrow> IntVal i
      | DoubleV d \<Rightarrow> DblVal d
      | BoolV b \<Rightarrow> BoolVal b
      | BytesV bs \<Rightarrow> StrVal ''binary_data'')"

definition find_property :: "string \<Rightarrow> Property list \<Rightarrow> Property option" where
  "find_property name properties = find (\<lambda>p. prop_key p = name) properties"

definition invalid_argument :: "string \<Rightarrow> error" where
  "invalid_argument msg = Error INVALID_ARGUMENT msg"

definition evaluate_expression ::
  "Expression \<Rightarrow> VariableMap \<Rightarrow> transaction_id \<Rightarrow> cypher_value io" where
  "evaluate_expression expr variables tx =
     (case expr of
        Literal v \<Rightarrow> ret v
      | Identifier name \<Rightarrow>
          (case map_of variables name of
             Some (LiteralBinding v) \<Rightarrow> ret v
           | Some (NodeBinding i) \<Rightarrow> ret (StrVal (u64_string i))
           | Some (EdgeBinding i) \<Rightarrow> ret (StrVal (u64_string i))
           | None \<Rightarrow> fail (invalid_argument (''Undefined variable: '' @ name)))
      | PropertyAccess entity property \<Rightarrow>
          let missing = invalid_argument (''Property not found: '' @ entity @ ''.'' @ property)
          in (case map_of variables entity of
                Some (NodeBinding node_id) \<Rightarrow>
                  attempt (fetch_node tx node_id)
                    (\<lambda>(record, properties).
                       case find_property property properties of
                         Some p \<Rightarrow> ret (value_of_storage (prop_value p))
                       | None \<Rightarrow> fail missing)
                    (\<lambda>e. fail missing)
              | _ \<Rightarrow> fail missing)
      | _ \<Rightarrow> fail (invalid_argument ''Expression type not implemented''))"

section \<open>Conditions\<close>

text \<open>\<open>std::holds_alternative\<close> of \<open>int64_t\<close> or \<open>double\<close>, with the value as a \<open>double\<close>.\<close>

definition numeric :: "cypher_value \<Rightarrow> u64 option" where
  "numeric v = (case v of IntVal i \<Rightarrow> Some (double_of_int i) | DblVal d \<Rightarrow> Some d | _ \<Rightarrow> None)"

definition compare_doubles :: "ComparisonOperator \<Rightarrow> u64 \<Rightarrow> u64 \<Rightarrow> bool" where
  "compare_doubles op a b =
     (case op of
        EQUAL \<Rightarrow> double_eq a b
      | NOT_EQUAL \<Rightarrow> \<not> double_eq a b
      | LESS_THAN \<Rightarrow> double_less a b
      | LESS_EQUAL \<Rightarrow> double_less_eq a b
      | GREATER_THAN \<Rightarrow> double_less b a
      | GREATER_EQUAL \<Rightarrow> double_less_eq b a)"

definition compare_strings :: "ComparisonOperator \<Rightarrow> string \<Rightarrow> string \<Rightarrow> bool" where
  "compare_strings op a b =
     (case op of
        EQUAL \<Rightarrow> a = b
      | NOT_EQUAL \<Rightarrow> a \<noteq> b
      | LESS_THAN \<Rightarrow> a < b
      | LESS_EQUAL \<Rightarrow> a \<le> b
      | GREATER_THAN \<Rightarrow> b < a
      | GREATER_EQUAL \<Rightarrow> b \<le> a)"

definition compare_values :: "ComparisonOperator \<Rightarrow> cypher_value \<Rightarrow> cypher_value \<Rightarrow> bool" where
  "compare_values op left right =
     (case (numeric left, numeric right) of
        (Some a, Some b) \<Rightarrow> compare_doubles op a b
      | _ \<Rightarrow> compare_strings op (property_value_to_string left) (property_value_to_string right))"

text \<open>\<open>r.has_value() && r.value()\<close>; both operands of a comparison are evaluated.\<close>

definition is_true :: "bool io \<Rightarrow> bool io" where
  "is_true m = attempt m ret (\<lambda>e. ret False)"

primrec evaluate_boolean_expression ::
  "Expression \<Rightarrow> VariableMap \<Rightarrow> transaction_id \<Rightarrow> bool io" where
  "evaluate_boolean_expression (Comparison left op right) variables tx =
     attempt (evaluate_expression left variables tx)
       (\<lambda>a. attempt (evaluate_expression right variables tx)
              (\<lambda>b. ret (compare_values op a b))
              (\<lambda>e. ret False))
       (\<lambda>e. attempt (evaluate_expression right variables tx) (\<lambda>b. ret False) (\<lambda>e. ret False))"
| "evaluate_boolean_expression (LogicalAnd left right) variables tx =
     bind_io (is_true (evaluate_boolean_expression left variables tx))
       (\<lambda>l. if \<not> l then ret False else is_true (evaluate_boolean_expression right variables tx))"
| "evaluate_boolean_expression (LogicalOr left right) variables tx =
     bind_io (is_true (evaluate_boolean_expression left variables tx))
       (\<lambda>l. if l then ret True else is_true (evaluate_boolean_expression right variables tx))"
| "evaluate_boolean_expression (Literal v) variables tx =
     fail (invalid_argument ''Boolean expression type not implemented'')"
| "evaluate_boolean_expression (PropertyAccess entity property) variables tx =
     fail (invalid_argument ''Boolean expression type not implemented'')"
| "evaluate_boolean_expression (Identifier name) variables tx =
     fail (invalid_argument ''Boolean expression type not implemented'')"
| "evaluate_boolean_expression (LogicalNot e) variables tx =
     fail (invalid_argument ''Boolean expression type not implemented'')"

end
