(* ===== verification/CypherNumbers.thy ===== *)
theory CypherNumbers
  imports CypherEval
begin

text \<open>
  Integers compared as doubles: exact below \<open>2 ^ 53\<close>, not beyond.
\<close>

section \<open>The images of small integers\<close>

text \<open>The image of a natural number of at most 53 bits.\<close>

definition small_image :: "nat \<Rightarrow> nat" where
  "small_image n = (if n = 0 then 0 else (bit_length n + 1021) * 2 ^ 52 + n * 2 ^ (53 - bit_length n))"

lemma bit_length_0 [simp]: "bit_length 0 = 0"
  by (simp add: bit_length.simps)

lemma bit_length_Suc: "n \<noteq> 0 \<Longrightarrow> \<exists>b. bit_length n = Suc b \<and> 2 ^ b \<le> n \<and> n < 2 ^ Suc b"
  using bit_length_bounds [of n] by (cases "bit_length n") auto

lemma bit_length_scaled: "n \<noteq> 0 \<Longrightarrow> bit_length (n * 2 ^ k) = bit_length n + k"
proof -
  assume "n \<noteq> 0"
  then obtain b where b: "bit_length n = Suc b" "2 ^ b \<le> n" "n < 2 ^ Suc b" using bit_length_Suc by blast
  then have "2 ^ (b + k) \<le> n * 2 ^ k" "n * 2 ^ k < 2 ^ Suc (b + k)"
    by (simp_all add: power_add)
  then show ?thesis using bit_length_unique b by simp
qed

lemma bit_length_less:
  assumes "n < 2 ^ k"
  shows "bit_length n \<le> k"
proof (cases "n = 0")
  case False
  then obtain b where b: "bit_length n = Suc b" "2 ^ b \<le> n" using bit_length_Suc by blast
  then have "2 ^ b < (2 :: nat) ^ k" using assms by linarith
  then show ?thesis using b(1) by simp
qed simp

lemma nearest_double_small:
  assumes "n < 2 ^ 53"
  shows "nearest_double neg (n * 2 ^ 1074) =
     (if neg then 0x8000000000000000 else 0) OR word_of_nat (min (small_image n) 0x7FF0000000000000)"
proof (cases "n = 0")
  case True
  then show ?thesis by (simp add: nearest_double_def round_div_def small_image_def)
next
  case False
  define b where "b = bit_length n"
  have b: "b \<le> 53" using bit_length_less [OF assms] by (simp add: b_def)
  have s: "bit_length (n * 2 ^ 1074) - 53 = b + 1021"
    using bit_length_scaled [OF False, of 1074] by (simp add: b_def)
  have "n * 2 ^ 1074 = n * 2 ^ (53 - b) * 2 ^ (b + 1021)"
    using b by (simp only: mult.assoc flip: power_add) simp
  then have "round_div (n * 2 ^ 1074) (2 ^ (b + 1021)) = n * 2 ^ (53 - b)"
    using round_div_exact [of "2 ^ (b + 1021)" "n * 2 ^ (53 - b)"] by (simp only: zero_less_power zero_less_numeral)
  then show ?thesis
    unfolding nearest_double_def Let_def s small_image_def b_def [symmetric] using False by (simp only: if_False)
qed

text \<open>The images grow with the numbers and stay below that of infinity.\<close>

lemma small_image_bounds:
  assumes "n \<noteq> 0" and "n < 2 ^ 53"
  shows "(bit_length n + 1022) * 2 ^ 52 \<le> small_image n" "small_image n < (bit_length n + 1023) * 2 ^ 52"
proof -
  obtain b where b: "bit_length n = Suc b" "2 ^ b \<le> n" "n < 2 ^ Suc b" using bit_length_Suc [OF assms(1)] by blast
  have b52: "b \<le> 52" using bit_length_less [OF assms(2)] b(1) by simp
  have "2 ^ b * 2 ^ (52 - b) = (2 :: nat) ^ 52" "2 ^ Suc b * 2 ^ (52 - b) = (2 :: nat) ^ 53"
    using b52 by (simp_all flip: power_add power_Suc)
  moreover have "2 ^ b * 2 ^ (52 - b) \<le> n * 2 ^ (52 - b)" "n * 2 ^ (52 - b) < 2 ^ Suc b * 2 ^ (52 - b)"
    using b(2,3) by simp_all
  ultimately have "2 ^ 52 \<le> n * 2 ^ (52 - b)" "n * 2 ^ (52 - b) < 2 ^ 53" by linarith+
  then show "(bit_length n + 1022) * 2 ^ 52 \<le> small_image n" "small_image n < (bit_length n + 1023) * 2 ^ 52"
    using assms(1) b(1) by (simp_all add: small_image_def)
qed

lemma small_image_less:
  assumes "n < k" and "k < 2 ^ 53"
  shows "small_image n < small_image k"
proof (cases "n = 0")
  case True
  then show ?thesis using small_image_bounds(1) [of k] assms by (simp add: small_image_def)
next
  case False
  have k: "k \<noteq> 0" and n: "n < 2 ^ 53" using assms by simp_all
  obtain b where b: "bit_length k = Suc b" "2 ^ b \<le> k" "k < 2 ^ Suc b" using bit_length_Suc [OF k] by blast
  have "bit_length n \<le> Suc b" using bit_length_less [of n "Suc b"] b(3) assms(1) by simp
  then consider "bit_length n = bit_length k" | "bit_length n + 1 \<le> bit_length k" using b(1) by linarith
  then show ?thesis
  proof cases
    case 1
    then show ?thesis using assms False k by (simp add: small_image_def)
  next
    case 2
    then have "(bit_length n + 1023) * 2 ^ 52 \<le> (bit_length k + 1022) * 2 ^ 52" by simp
    then show ?thesis
      using small_image_bounds(2) [OF False n] small_image_bounds(1) [OF k assms(2)] by linarith
  qed
qed

lemma small_image_finite: "n < 2 ^ 53 \<Longrightarrow> small_image n < 0x7FF0000000000000"
proof (cases "n = 0")
  case False
  assume n: "n < 2 ^ 53"
  have "(bit_length n + 1023) * 2 ^ 52 \<le> (53 + 1023) * (2 :: nat) ^ 52"
    using bit_length_less [OF n] by (intro mult_le_mono1) simp
  then show ?thesis using small_image_bounds(2) [OF False n] by simp
qed (simp add: small_image_def)

text \<open>The image with its sign.\<close>

lemma image_fields:
  assumes "k < 2 ^ 63"
  shows "negative ((if neg then 0x8000000000000000 else 0) OR word_of_nat k) \<longleftrightarrow> neg"
    "take_bit 63 ((if neg then 0x8000000000000000 else 0) OR word_of_nat k) = (word_of_nat k :: u64)"
proof -
  have sign: "(0x8000000000000000 :: u64) = push_bit 63 1" by simp
  have "take_bit 63 k = k" using assms by (simp add: take_bit_nat_eq_self)
  then have t: "take_bit 63 (word_of_nat k :: u64) = word_of_nat k" by (simp add: take_bit_of_nat)
  then have k: "\<not> bit (word_of_nat k :: u64) 63" by (metis bit_take_bit_iff less_irrefl)
  then show "negative ((if neg then 0x8000000000000000 else 0) OR word_of_nat k) \<longleftrightarrow> neg"
    unfolding negative_def sign by (simp add: bit_or_iff bit_push_bit_iff)
  show "take_bit 63 ((if neg then 0x8000000000000000 else 0) OR word_of_nat k) = (word_of_nat k :: u64)"
    unfolding sign using t by (simp add: take_bit_push_bit)
qed

definition small_key :: "int \<Rightarrow> int" where
  "small_key i = (if i < 0 then - int (small_image (nat \<bar>i\<bar>)) else int (small_image (nat \<bar>i\<bar>)))"

lemma double_of_small_int:
  assumes "\<bar>sint i\<bar> < 2 ^ 53"
  shows "\<not> is_nan (double_of_int i)" "double_key (double_of_int i) = small_key (sint i)"
proof -
  let ?k = "small_image (nat \<bar>sint i\<bar>)"
  have n: "nat \<bar>sint i\<bar> < 2 ^ 53" using assms by (simp add: nat_less_iff)
  note k = small_image_finite [OF n]
  then have d: "double_of_int i = (if sint i < 0 then 0x8000000000000000 else 0) OR word_of_nat ?k"
    unfolding double_of_int_def nearest_double_small [OF n] by simp
  have "?k < 2 ^ 63" using k by simp
  note f = image_fields [OF this, of "sint i < 0", folded d]
  have u: "unat (word_of_nat ?k :: u64) = ?k" "uint (word_of_nat ?k :: u64) = int ?k" using k by (simp_all add: unsigned_of_nat take_bit_nat_eq_self)
  show "\<not> is_nan (double_of_int i)"
    unfolding is_nan_def f(2) using k u by (simp add: word_less_nat_alt)
  show "double_key (double_of_int i) = small_key (sint i)"
    unfolding double_key_def f small_key_def u by simp
qed

lemma small_key_less: "i < j \<Longrightarrow> \<bar>i\<bar> < 2 ^ 53 \<Longrightarrow> \<bar>j\<bar> < 2 ^ 53 \<Longrightarrow> small_key i < small_key j"
proof -
  assume ij: "i < j" "\<bar>i\<bar> < 2 ^ 53" "\<bar>j\<bar> < 2 ^ 53"
  have "small_image (nat (- i)) > 0" if "i < 0"
    using small_image_less [of 0 "nat (- i)"] ij(2) that by (simp add: small_image_def nat_less_iff)
  then show ?thesis
    using ij small_image_less [of "nat i" "nat j"] small_image_less [of "nat (- j)" "nat (- i)"]
    by (auto simp: small_key_def nat_less_iff)
qed

text \<open>
  C27. Two integers are compared as \<open>double\<close>s. Below \<open>2 ^ 53\<close> in magnitude that is the
  comparison of the integers, for every operator. Beyond it is not: the condition
  \<open>9007199254740992 = 9007199254740993\<close> holds.
\<close>

theorem compare_integers_exact:
  assumes "\<bar>sint i\<bar> < 2 ^ 53" and "\<bar>sint j\<bar> < 2 ^ 53"
  shows "compare_values op (IntVal i) (IntVal j) =
      (case op of
         EQUAL \<Rightarrow> sint i = sint j
       | NOT_EQUAL \<Rightarrow> sint i \<noteq> sint j
       | LESS_THAN \<Rightarrow> sint i < sint j
       | LESS_EQUAL \<Rightarrow> sint i \<le> sint j
       | GREATER_THAN \<Rightarrow> sint j < sint i
       | GREATER_EQUAL \<Rightarrow> sint j \<le> sint i) \<and>
    compare_values EQUAL (IntVal 9007199254740992) (IntVal 9007199254740993)"
proof
  note small = double_of_small_int [OF assms(1)] double_of_small_int [OF assms(2)]
  have less: "small_key (sint i) < small_key (sint j) \<longleftrightarrow> sint i < sint j"
    "small_key (sint j) < small_key (sint i) \<longleftrightarrow> sint j < sint i"
    using small_key_less assms by (metis less_asym linorder_neqE_linordered_idom)+
  then have eq: "small_key (sint i) = small_key (sint j) \<longleftrightarrow> sint i = sint j" by (metis less_irrefl linorder_neqE_linordered_idom)
  show "compare_values op (IntVal i) (IntVal j) =
      (case op of
         EQUAL \<Rightarrow> sint i = sint j
       | NOT_EQUAL \<Rightarrow> sint i \<noteq> sint j
       | LESS_THAN \<Rightarrow> sint i < sint j
       | LESS_EQUAL \<Rightarrow> sint i \<le> sint j
       | GREATER_THAN \<Rightarrow> sint j < sint i
       | GREATER_EQUAL \<Rightarrow> sint j \<le> sint i)"
    by (cases op) (simp_all add: compare_values_def numeric_def compare_doubles_def double_eq_def double_less_def
        double_less_eq_def small eq less flip: linorder_not_less)
next
  have len: "bit_length 9007199254740992 = 54" "bit_length 9007199254740993 = 54"
    using bit_length_unique [of 53 9007199254740992] bit_length_unique [of 53 9007199254740993] by simp_all
  have "round_div (9007199254740992 * 2 ^ 1074) (2 ^ 1075) = 4503599627370496"
    "round_div (9007199254740993 * 2 ^ 1074) (2 ^ 1075) = 4503599627370496"
    by (simp_all add: round_div_def)
  then have "double_of_int 9007199254740993 = 0x4340000000000000"
    "double_of_int 9007199254740992 = 0x4340000000000000"
    using bit_length_scaled [of 9007199254740992 1074] bit_length_scaled [of 9007199254740993 1074]
    by (simp_all add: double_of_int_def nearest_double_def len Let_def)
  moreover have "\<not> is_nan 0x4340000000000000"
    by (simp add: is_nan_def take_bit_eq_mask mask_eq_exp_minus_1)
  ultimately show "compare_values EQUAL (IntVal 9007199254740992) (IntVal 9007199254740993)"
    by (simp add: compare_values_def numeric_def compare_doubles_def double_eq_def)
qed

lemma compare_integers_exact_witness:
  "compare_values LESS_THAN (IntVal (- 7)) (IntVal 3) \<and>
   \<not> compare_values GREATER_EQUAL (IntVal 41) (IntVal 42)"
  using compare_integers_exact [of "- 7" 3 LESS_THAN] compare_integers_exact [of 41 42 GREATER_EQUAL] by simp

end
