(* ===== verification/CypherMatch.thy ===== *)
theory CypherMatch
  imports CypherEval "HOL-Library.Multiset"
begin

text \<open>
  \<open>query/cypher/executor.cpp\<close>, first part: the rows of bindings that match a pattern.
\<close>

section \<open>Constraints\<close>

text \<open>\<open>1e-9\<close>\<close>

definition epsilon :: u64 where
  "epsilon = 0x3E112E0BE826D695"

definition value_matches :: "cypher_value \<Rightarrow> cypher_value \<Rightarrow> bool" where
  "value_matches actual expected =
     (case (actual, expected) of
        (StrVal a, StrVal b) \<Rightarrow> a = b
      | (IntVal a, IntVal b) \<Rightarrow> a = b
      | (DblVal a, DblVal b) \<Rightarrow> double_eq a b
      | (BoolVal a, BoolVal b) \<Rightarrow> a = b
      | _ \<Rightarrow>
          (case (numeric actual, numeric expected) of
             (Some a, Some b) \<Rightarrow> double_less (double_abs_diff a b) epsilon
           | _ \<Rightarrow> property_value_to_string actual = property_value_to_string expected))"

definition matches_property_constraints :: "PropertyMap \<Rightarrow> Property list \<Rightarrow> bool" where
  "matches_property_constraints constraints properties =
     list_all (\<lambda>(key, expected).
       list_ex (\<lambda>p. prop_key p = key \<and> value_matches (value_of_storage (prop_value p)) expected) properties)
       constraints"

definition matches_node_pattern :: "NodePattern \<Rightarrow> node_id \<Rightarrow> transaction_id \<Rightarrow> bool io" where
  "matches_node_pattern pattern node_id tx =
     attempt (fetch_node tx node_id)
       (\<lambda>(record, properties). ret (matches_property_constraints (node_constraints pattern) properties))
       (\<lambda>e. ret False)"

text \<open>The type of an edge is its property \<open>type\<close>; the label in its record is not looked at.\<close>

definition matches_edge_pattern :: "EdgePattern \<Rightarrow> Property list \<Rightarrow> bool" where
  "matches_edge_pattern pattern properties =
     ((edge_types pattern = [] \<or>
       (case find_property ''type'' properties of
          None \<Rightarrow> False
        | Some p \<Rightarrow>
            (case prop_value p of StringV s \<Rightarrow> s | _ \<Rightarrow> ''unknown'') \<in> set (edge_types pattern))) \<and>
      matches_property_constraints (edge_constraints pattern) properties)"

section \<open>Nodes\<close>

text \<open>
  The loop over the ids from 1 to the number of nodes. When that number is the largest of
  its type the loop never ends.
\<close>

partial_function (option) scan_nodes ::
  "transaction_id \<Rightarrow> (Property list \<Rightarrow> bool) \<Rightarrow> u64 \<Rightarrow> node_id \<Rightarrow> node_id list \<Rightarrow> GraphStore \<Rightarrow>
     (node_id list result \<times> GraphStore) option" where
  "scan_nodes tx keep node_total i found gs =
     (if i \<le> node_total then
        case fetch_node tx i gs of
          None \<Rightarrow> None
        | Some (Inl e, gs) \<Rightarrow>
            if abrupt e then Some (Inl e, gs) else scan_nodes tx keep node_total (i + 1) found gs
        | Some (Inr (record, properties), gs) \<Rightarrow>
            scan_nodes tx keep node_total (i + 1) (if keep properties then found @ [i] else found) gs
      else Some (Inr found, gs))"

definition find_nodes_by_pattern :: "NodePattern \<Rightarrow> transaction_id \<Rightarrow> node_id list io" where
  "find_nodes_by_pattern node tx =
     (\<lambda>gs. scan_nodes tx
             (if node_constraints node \<noteq> [] then matches_property_constraints (node_constraints node)
              else (\<lambda>properties. True))
             (get_node_count gs) 1 [] gs)"

definition bind_variable :: "string option \<Rightarrow> VariableBinding \<Rightarrow> VariableMap \<Rightarrow> VariableMap" where
  "bind_variable v b row = (case v of None \<Rightarrow> row | Some name \<Rightarrow> AList.update name b row)"

definition match_node :: "NodePattern \<Rightarrow> transaction_id \<Rightarrow> ResultSet io" where
  "match_node node tx =
     bind_io (find_nodes_by_pattern node tx)
       (\<lambda>ids. ret (map (\<lambda>i. bind_variable (node_variable node) (NodeBinding i) []) ids))"

section \<open>Edges\<close>

definition find_edges_by_pattern ::
  "EdgePattern \<Rightarrow> node_id \<Rightarrow> node_id \<Rightarrow> transaction_id \<Rightarrow> edge_id list io" where
  "find_edges_by_pattern edge source target tx =
     (\<lambda>gs. for_each
        (get_outgoing_edges source gs @ (if directed edge then [] else get_incoming_edges source gs)) []
        (\<lambda>edge_id filtered.
           attempt (fetch_edge tx edge_id)
             (\<lambda>(record, properties).
                ret (if matches_edge_pattern edge properties \<and>
                        (target = 0 \<or> to_node record = target \<or>
                         (\<not> directed edge \<and> from_node record = target))
                     then filtered @ [edge_id] else filtered))
             (\<lambda>e. ret filtered)) gs)"

text \<open>The body of the loops over edges: what one edge adds to one row.\<close>

definition expand_edge ::
  "EdgePattern \<Rightarrow> NodePattern \<Rightarrow> transaction_id \<Rightarrow> VariableMap \<Rightarrow> edge_id \<Rightarrow> ResultSet \<Rightarrow> ResultSet io" where
  "expand_edge edge to_pattern tx row edge_id results =
     attempt (fetch_edge tx edge_id)
       (\<lambda>(record, properties).
          bind_io (matches_node_pattern to_pattern (to_node record) tx)
            (\<lambda>matches.
               if \<not> matches then ret results
               else
                 let new_row = bind_variable (edge_variable edge) (EdgeBinding edge_id) row
                 in case node_variable to_pattern of
                      None \<Rightarrow> ret (results @ [new_row])
                    | Some v \<Rightarrow>
                        (case map_of new_row v of
                           None \<Rightarrow>
                             ret (results @ [AList.update v (NodeBinding (to_node record)) new_row])
                         | Some b \<Rightarrow>
                             if b = NodeBinding (to_node record) then ret (results @ [new_row])
                             else ret results)))
       (\<lambda>e. ret results)"

definition expand_results ::
  "ResultSet \<Rightarrow> NodePattern \<Rightarrow> EdgePattern \<Rightarrow> NodePattern \<Rightarrow> transaction_id \<Rightarrow> ResultSet io" where
  "expand_results previous from_pattern edge to_pattern tx =
     (case node_variable from_pattern of
        None \<Rightarrow> fail (invalid_argument ''Cannot expand from a node without a variable.'')
      | Some v \<Rightarrow>
          for_each previous []
            (\<lambda>row results.
               case map_of row v of
                 Some (NodeBinding from_id) \<Rightarrow>
                   attempt (find_edges_by_pattern edge from_id 0 tx)
                     (\<lambda>edge_ids. for_each edge_ids results (expand_edge edge to_pattern tx row))
                     (\<lambda>e. ret results)
               | _ \<Rightarrow> ret results))"

text \<open>A function that nothing calls; it overwrites a variable that occurs twice.\<close>

definition match_node_edge_node_pattern ::
  "NodePattern \<Rightarrow> EdgePattern \<Rightarrow> NodePattern \<Rightarrow> transaction_id \<Rightarrow> ResultSet io" where
  "match_node_edge_node_pattern from_pattern edge to_pattern tx =
     bind_io (find_nodes_by_pattern from_pattern tx)
       (\<lambda>from_ids. for_each from_ids []
          (\<lambda>from_id results.
             attempt (find_edges_by_pattern edge from_id 0 tx)
               (\<lambda>edge_ids. for_each edge_ids results
                  (\<lambda>edge_id results.
                     attempt (fetch_edge tx edge_id)
                       (\<lambda>(record, properties).
                          bind_io (matches_node_pattern to_pattern (to_node record) tx)
                            (\<lambda>matches.
                               ret (if \<not> matches then results
                                    else results @
                                      [bind_variable (node_variable to_pattern)
                                         (NodeBinding (to_node record))
                                         (bind_variable (edge_variable edge) (EdgeBinding edge_id)
                                           (bind_variable (node_variable from_pattern)
                                             (NodeBinding from_id) []))])))
                       (\<lambda>e. ret results)))
               (\<lambda>e. ret results)))"

section \<open>Paths of variable length\<close>

text \<open>The paths one hop longer, without a repeated node.\<close>

definition longer_paths ::
  "EdgePattern \<Rightarrow> transaction_id \<Rightarrow> node_id list \<Rightarrow> node_id list list io" where
  "longer_paths edge tx path =
     attempt (find_edges_by_pattern edge (last path) 0 tx)
       (\<lambda>edge_ids. for_each edge_ids []
          (\<lambda>edge_id new.
             attempt (fetch_edge tx edge_id)
               (\<lambda>(record, properties).
                  ret (if to_node record \<in> set path then new else new @ [path @ [to_node record]]))
               (\<lambda>e. ret new)))
       (\<lambda>e. ret [])"

lemma for_each_inv:
  assumes "for_each xs acc body gs = Some (Inr r, gs')" and "P acc"
    and "\<And>x a gs r gs'. P a \<Longrightarrow> body x a gs = Some (Inr r, gs') \<Longrightarrow> P r"
  shows "P r"
  using assms(1,2)
proof (induction xs arbitrary: acc gs)
  case Nil
  then show ?case by (simp add: ret_def)
next
  case (Cons x xs)
  then obtain a t where "body x acc gs = Some (Inr a, t)" "for_each xs a body t = Some (Inr r, gs')"
    by (auto simp: bind_io_def split: option.splits sum.splits)
  then show ?case using Cons.IH Cons.prems(2) assms(3) by blast
qed

lemma longer_paths_new:
  assumes "longer_paths edge tx path gs = Some (Inr new, gs')" and "q \<in> set new"
  shows "\<exists>n. n \<notin> set path \<and> q = path @ [n]"
proof -
  define P where "P new \<longleftrightarrow> (\<forall>q \<in> set new. \<exists>n. n \<notin> set path \<and> q = path @ [n])" for new
  let ?step = "\<lambda>edge_id new.
    attempt (fetch_edge tx edge_id)
      (\<lambda>(record, properties).
         ret (if to_node record \<in> set path then new else new @ [path @ [to_node record]]))
      (\<lambda>e. ret new)"
  have step: "P r" if "P a" "?step x a gs = Some (Inr r, gs')" for x a gs r gs'
    using that by (auto simp: P_def ret_def attempt_def split: option.splits sum.splits if_splits)
  have "P []" by (simp add: P_def)
  then have "P new"
    using assms(1) step for_each_inv [where P = P and body = ?step and acc = "[]"]
    unfolding longer_paths_def attempt_def [of "find_edges_by_pattern edge (last path) 0 tx"]
    by (auto simp: ret_def split: option.splits sum.splits if_splits)
  then show ?thesis using assms(2) by (simp add: P_def)
qed

text \<open>The row for a path from \<open>start\<close> that ends in a matching node.\<close>

definition path_bindings :: "NodePattern \<Rightarrow> NodePattern \<Rightarrow> node_id \<Rightarrow> node_id \<Rightarrow> VariableMap" where
  "path_bindings from_pattern to_pattern start final =
     bind_variable (node_variable to_pattern) (NodeBinding final)
       (bind_variable (node_variable from_pattern) (NodeBinding start) [])"

text \<open>\<open>static_cast<size_t>\<close> of an \<open>int\<close> extends the sign.\<close>

definition size_of_int :: "i32 \<Rightarrow> nat" where
  "size_of_int i = unat (scast i :: u64)"

text \<open>The loop over the queue of paths; every path holds a node at least.\<close>

function (sequential) hop_loop ::
  "NodePattern \<Rightarrow> EdgePattern \<Rightarrow> NodePattern \<Rightarrow> nat \<Rightarrow> transaction_id \<Rightarrow> node_id \<Rightarrow> node_id list list \<Rightarrow>
     ResultSet \<Rightarrow> GraphStore \<Rightarrow> (ResultSet result \<times> GraphStore) option" where
  "hop_loop from_pattern edge to_pattern longest tx start [] results gs = Some (Inr results, gs)"
| "hop_loop from_pattern edge to_pattern longest tx start (path # queue) results gs =
     (if longest < length path - 1
      then hop_loop from_pattern edge to_pattern longest tx start queue results gs
      else
        case (if size_of_int (min_hops edge) \<le> length path - 1
              then matches_node_pattern to_pattern (last path) tx gs else ret False gs) of
          None \<Rightarrow> None
        | Some (Inl e, gs) \<Rightarrow> Some (Inl e, gs)
        | Some (Inr matches, gs) \<Rightarrow>
            (case (if length path - 1 < longest then longer_paths edge tx path gs else ret [] gs) of
               None \<Rightarrow> None
             | Some (Inl e, gs) \<Rightarrow> Some (Inl e, gs)
             | Some (Inr new, gs) \<Rightarrow>
                 hop_loop from_pattern edge to_pattern longest tx start (queue @ new)
                   (if matches
                    then results @ [path_bindings from_pattern to_pattern start (last path)]
                    else results) gs))"
  by pat_completeness auto

text \<open>Every path is replaced by paths that leave fewer nodes to visit.\<close>

termination
proof (relation "inv_image (mult less_than)
    (\<lambda>(from_pattern, edge, to_pattern, longest, tx, start, queue, results, gs).
       image_mset (\<lambda>path. card (- set path)) (mset queue))", goal_cases)
  case 1
  show ?case by (intro wf_inv_image wf_mult wf_less_than)
next
  case (2 from_pattern edge to_pattern longest tx start path queue results gs)
  show ?case by (auto intro: subset_implies_mult)
next
  case (3 from_pattern edge to_pattern longest tx start path queue results gs x2 x y b x2a xa ya new)
  have "card (- set q) < card (- set path)" if "q \<in> set new" for q
  proof -
    have "(if length path - 1 < longest then longer_paths edge tx path y else ret [] y) = Some (Inr new, ya)"
      using 3 by auto
    then have "longer_paths edge tx path y = Some (Inr new, ya)"
      using that by (auto simp: ret_def split: if_splits)
    from longer_paths_new [OF this that]
    obtain n where n: "n \<notin> set path" "q = path @ [n]" by blast
    then have "- set q \<subset> - set path" by auto
    then show ?thesis by (rule psubset_card_mono [OF finite])
  qed
  then have "(image_mset (\<lambda>path. card (- set path)) (mset queue) +
        image_mset (\<lambda>path. card (- set path)) (mset new),
      image_mset (\<lambda>path. card (- set path)) (mset queue) + {#card (- set path)#}) \<in> mult less_than"
    by (intro one_step_implies_mult) auto
  then show ?case by (simp add: ac_simps)
qed

definition match_variable_length_path ::
  "NodePattern \<Rightarrow> EdgePattern \<Rightarrow> NodePattern \<Rightarrow> transaction_id \<Rightarrow> ResultSet io" where
  "match_variable_length_path from_pattern edge to_pattern tx =
     (let longest = size_of_int (if max_hops edge = - 1 then 10 else max_hops edge) in
      bind_io (find_nodes_by_pattern from_pattern tx)
        (\<lambda>from_ids. for_each from_ids []
           (\<lambda>start results.
              hop_loop from_pattern edge to_pattern longest tx start [[start]] results)))"

section \<open>Patterns\<close>

text \<open>
  The chain of the edges of a pattern. A pattern with fewer nodes than it needs is read past
  the end of its vector; the chain stops early when no row is left.
\<close>

fun expand_chain ::
  "NodePattern list \<Rightarrow> EdgePattern list \<Rightarrow> ResultSet \<Rightarrow> transaction_id \<Rightarrow> ResultSet io" where
  "expand_chain nodes [] results tx = ret results"
| "expand_chain (from_pattern # to_pattern # nodes) (edge # rels) results tx =
     (if node_variable from_pattern = None
      then fail (invalid_argument ''Path expansion requires intermediate nodes to be named.'')
      else
        bind_io (expand_results results from_pattern edge to_pattern tx)
          (\<lambda>results. if results = [] then ret results
                     else expand_chain (to_pattern # nodes) rels results tx))"
| "expand_chain nodes (edge # rels) results tx = fail UndefinedBehaviour"

definition match_pattern :: "Pattern \<Rightarrow> transaction_id \<Rightarrow> ResultSet io" where
  "match_pattern pattern tx =
     (case (pattern_nodes pattern, pattern_edges pattern) of
        ([], rels) \<Rightarrow> ret []
      | ([node], []) \<Rightarrow> match_node node tx
      | (node # nodes, rels) \<Rightarrow>
          if length rels = 1 \<and> (min_hops (hd rels) \<noteq> 1 \<or> max_hops (hd rels) \<noteq> 1) then
            if nodes = [] then fail UndefinedBehaviour
            else match_variable_length_path node (hd rels) (hd nodes) tx
          else
            bind_io (match_node node tx)
              (\<lambda>results. expand_chain (node # nodes) rels results tx))"

definition execute_match :: "Pattern list \<Rightarrow> transaction_id \<Rightarrow> ResultSet io" where
  "execute_match patterns tx = (case patterns of [] \<Rightarrow> ret [] | p # ps \<Rightarrow> match_pattern p tx)"

end
