(* ===== verification/CypherExecutor.thy ===== *)
theory CypherExecutor
  imports CypherMatch
begin

text \<open>
  \<open>query/cypher/executor.cpp\<close>, second part: the clauses of a query and the transaction they
  run in; and \<open>query/planner.cpp\<close> with \<open>query/execution_plan.cpp\<close>, which nothing else uses.
\<close>

section \<open>WHERE and RETURN\<close>

definition apply_where :: "Expression \<Rightarrow> ResultSet \<Rightarrow> transaction_id \<Rightarrow> ResultSet io" where
  "apply_where condition input tx =
     for_each input []
       (\<lambda>row results.
          bind_io (evaluate_boolean_expression condition row tx)
            (\<lambda>holds. ret (if holds then results @ [row] else results)))"

definition column_name :: "ReturnItem \<Rightarrow> nat \<Rightarrow> string" where
  "column_name item i =
     (case item_alias item of
        Some a \<Rightarrow> a
      | None \<Rightarrow>
          (case item_expression item of
             PropertyAccess entity property \<Rightarrow> entity @ ''.'' @ property
           | Identifier name \<Rightarrow> name
           | _ \<Rightarrow> ''column_'' @ nat_string i))"

definition return_columns :: "ReturnItem list \<Rightarrow> string list" where
  "return_columns items = foldl (\<lambda>cols item. cols @ [column_name item (length cols)]) [] items"

definition execute_return :: "ReturnClause \<Rightarrow> ResultSet \<Rightarrow> transaction_id \<Rightarrow> QueryResult io" where
  "execute_return clause input tx =
     bind_io
       (for_each input []
          (\<lambda>row rs.
             bind_io
               (for_each (return_items clause) []
                  (\<lambda>item result_row.
                     bind_io (evaluate_expression (item_expression item) row tx)
                       (\<lambda>v. ret (result_row @ [property_value_to_string v]))))
               (\<lambda>result_row. ret (rs @ [result_row]))))
       (\<lambda>rs. ret \<lparr>columns = return_columns (return_items clause), rows = rs\<rparr>)"

section \<open>CREATE\<close>

definition storage_of_value :: "cypher_value \<Rightarrow> property_value" where
  "storage_of_value v =
     (case v of
        StrVal s \<Rightarrow> StringV s
      | IntVal i \<Rightarrow> IntV i
      | DblVal d \<Rightarrow> DoubleV d
      | BoolVal b \<Rightarrow> BoolV b)"

definition create_node_from_pattern :: "NodePattern \<Rightarrow> transaction_id \<Rightarrow> node_id io" where
  "create_node_from_pattern node tx =
     (let properties =
            map (\<lambda>(k, v). \<lparr>prop_key = k, prop_value = storage_of_value v\<rparr>) (node_constraints node)
      in lift (\<lambda>gs. if has_mvcc gs then create_node_tx tx properties gs else create_node properties gs))"

text \<open>The edges of the patterns are counted, not created.\<close>

definition execute_create :: "Pattern list \<Rightarrow> transaction_id \<Rightarrow> QueryResult io" where
  "execute_create patterns tx =
     bind_io
       (for_each patterns (0, 0)
          (\<lambda>pattern (created_nodes, created_edges).
             bind_io
               (for_each (pattern_nodes pattern) created_nodes
                  (\<lambda>node n. bind_io (create_node_from_pattern node tx) (\<lambda>i. ret (n + 1))))
               (\<lambda>n. ret (n, created_edges + length (pattern_edges pattern)))))
       (\<lambda>(created_nodes, created_edges).
          ret (add_row [nat_string created_nodes, nat_string created_edges]
                (new_QueryResult [''created_nodes'', ''created_edges''])))"

section \<open>SET and DELETE\<close>

fun replace_property :: "string \<Rightarrow> property_value \<Rightarrow> Property list \<Rightarrow> Property list" where
  "replace_property name v [] = [\<lparr>prop_key = name, prop_value = v\<rparr>]"
| "replace_property name v (p # ps) =
     (if prop_key p = name then p\<lparr>prop_value := v\<rparr> # ps else p # replace_property name v ps)"

definition execute_set :: "SetClause \<Rightarrow> ResultSet \<Rightarrow> transaction_id \<Rightarrow> QueryResult io" where
  "execute_set clause input tx =
     bind_io
       (for_each input 0
          (\<lambda>row updated_nodes.
             case map_of row (set_variable clause) of
               Some (NodeBinding node_id) \<Rightarrow>
                 bind_io (evaluate_expression (set_value clause) row tx)
                   (\<lambda>v. attempt (fetch_node tx node_id)
                      (\<lambda>(record, properties).
                         let new = replace_property (set_property clause) (storage_of_value v) properties
                         in bind_io
                              (lift (\<lambda>gs. if has_mvcc gs then update_node_tx tx node_id new gs
                                           else update_node node_id new gs))
                              (\<lambda>u. ret (updated_nodes + 1)))
                      (\<lambda>e. ret updated_nodes))
             | _ \<Rightarrow> ret updated_nodes))
       (\<lambda>n. ret (add_row [nat_string n] (new_QueryResult [''updated_nodes''])))"

text \<open>What cannot be deleted is skipped; \<open>DETACH\<close> makes no difference.\<close>

definition execute_delete :: "DeleteClause \<Rightarrow> ResultSet \<Rightarrow> transaction_id \<Rightarrow> QueryResult io" where
  "execute_delete clause input tx =
     bind_io
       (for_each input (0, 0)
          (\<lambda>row counts. for_each (delete_variables clause) counts
             (\<lambda>v (deleted_nodes, deleted_edges).
                case map_of row v of
                  Some (NodeBinding node_id) \<Rightarrow>
                    attempt
                      (lift (\<lambda>gs. if has_mvcc gs then delete_node_tx tx node_id gs
                                   else delete_node node_id gs))
                      (\<lambda>u. ret (deleted_nodes + 1, deleted_edges))
                      (\<lambda>e. ret (deleted_nodes, deleted_edges))
                | Some (EdgeBinding edge_id) \<Rightarrow>
                    attempt
                      (lift (\<lambda>gs. if has_mvcc gs then delete_edge_tx tx edge_id gs
                                   else delete_edge edge_id gs))
                      (\<lambda>u. ret (deleted_nodes, deleted_edges + 1))
                      (\<lambda>e. ret (deleted_nodes, deleted_edges))
                | _ \<Rightarrow> ret (deleted_nodes, deleted_edges))))
       (\<lambda>(deleted_nodes, deleted_edges).
          ret (add_row [nat_string deleted_nodes, nat_string deleted_edges]
                (new_QueryResult [''deleted_nodes'', ''deleted_edges''])))"

section \<open>ORDER BY and LIMIT\<close>

text \<open>\<open>resize\<close> to a negative count, converted to \<open>size_t\<close>, throws.\<close>

definition apply_limit :: "QueryResult \<Rightarrow> i64 \<Rightarrow> QueryResult result" where
  "apply_limit q limit =
     (if sint limit < int (length (rows q)) then
        if sint limit < 0 then Inl (Exception ''vector::_M_default_append'')
        else Inr (q\<lparr>rows := take (nat (sint limit)) (rows q)\<rparr>)
      else Inr q)"

definition order_column :: "OrderByItem \<Rightarrow> string" where
  "order_column item =
     (case order_expression item of
        PropertyAccess entity property \<Rightarrow> entity @ ''.'' @ property
      | Identifier name \<Rightarrow> name
      | _ \<Rightarrow> [])"

fun index_of :: "string \<Rightarrow> string list \<Rightarrow> nat option" where
  "index_of x [] = None"
| "index_of x (y # ys) = (if y = x then Some 0 else map_option Suc (index_of x ys))"

text \<open>The comparison \<open>std::sort\<close> is called with.\<close>

fun row_before :: "string list \<Rightarrow> OrderByItem list \<Rightarrow> string list \<Rightarrow> string list \<Rightarrow> bool" where
  "row_before cols [] row1 row2 = False"
| "row_before cols (item # items) row1 row2 =
     (case index_of (order_column item) cols of
        None \<Rightarrow> row_before cols items row1 row2
      | Some i \<Rightarrow>
          if length row1 \<le> i \<or> length row2 \<le> i then row_before cols items row1 row2
          else if row1 ! i \<noteq> row2 ! i then
            (case order_direction item of ASC \<Rightarrow> row1 ! i < row2 ! i | DESC \<Rightarrow> row2 ! i < row1 ! i)
          else row_before cols items row1 row2)"

text \<open>
  \<open>std::sort\<close> is the argument \<open>std_sort\<close>: the order it leaves equal rows in is not specified.
\<close>

type_synonym row_sort = "(string list \<Rightarrow> string list \<Rightarrow> bool) \<Rightarrow> string list list \<Rightarrow> string list list"

definition apply_order_by :: "row_sort \<Rightarrow> QueryResult \<Rightarrow> OrderByItem list \<Rightarrow> QueryResult" where
  "apply_order_by std_sort q items =
     (if items = [] then q else q\<lparr>rows := std_sort (row_before (columns q) items) (rows q)\<rparr>)"

section \<open>Queries\<close>

definition optional :: "'c option \<Rightarrow> ('c \<Rightarrow> 'a \<Rightarrow> 'a io) \<Rightarrow> 'a \<Rightarrow> 'a io" where
  "optional clause f x = (case clause of None \<Rightarrow> ret x | Some c \<Rightarrow> f c x)"

text \<open>What \<open>execute_query\<close> runs inside the transaction.\<close>

definition run_query :: "row_sort \<Rightarrow> Query \<Rightarrow> transaction_id \<Rightarrow> QueryResult io" where
  "run_query std_sort q tx =
     (if query_match q \<noteq> None \<and> (query_set q \<noteq> None \<or> query_delete q \<noteq> None) then
        bind_io (execute_match (the (query_match q)) tx)
          (\<lambda>found. bind_io (optional (query_where q) (\<lambda>c input. apply_where c input tx) found)
             (\<lambda>found. bind_io
                (optional (query_set q) (\<lambda>c r. execute_set c found tx) (new_QueryResult [''updated_nodes'']))
                (optional (query_delete q) (\<lambda>c r. execute_delete c found tx))))
      else if is_read_query q then
        bind_io (execute_match (the (query_match q)) tx)
          (\<lambda>found. bind_io (optional (query_where q) (\<lambda>c input. apply_where c input tx) found)
             (\<lambda>found. bind_io (execute_return (the (query_return q)) found tx)
                (\<lambda>result. bind_io
                   (optional (query_order_by q) (\<lambda>items r. ret (apply_order_by std_sort r items)) result)
                   (optional (query_limit q) (\<lambda>n r. lift (\<lambda>gs. (apply_limit r n, gs)))))))
      else if query_create q \<noteq> None then execute_create (the (query_create q)) tx
      else fail (invalid_argument ''Unsupported query type''))"

text \<open>
  The executor. Its version manager is the one of the graph store, shared, if the store has
  one, and its own otherwise.
\<close>

record CypherExecutor =
  cypher_graph :: GraphStore
  own_mvcc :: MVCCManager

definition executor_mvcc :: "CypherExecutor \<Rightarrow> MVCCManager" where
  "executor_mvcc cx =
     (case mvcc_manager (cypher_graph cx) of None \<Rightarrow> own_mvcc cx | Some m \<Rightarrow> m)"

definition set_executor_mvcc :: "MVCCManager \<Rightarrow> CypherExecutor \<Rightarrow> CypherExecutor" where
  "set_executor_mvcc m cx =
     (case mvcc_manager (cypher_graph cx) of
        None \<Rightarrow> cx\<lparr>own_mvcc := m\<rparr>
      | Some _ \<Rightarrow> cx\<lparr>cypher_graph := (cypher_graph cx)\<lparr>mvcc_manager := Some m\<rparr>\<rparr>)"

text \<open>\<open>commit_transaction\<close> or \<open>abort_transaction\<close>, then \<open>unlock_all\<close>.\<close>

definition end_transaction ::
  "(Transaction \<Rightarrow> TransactionManager \<Rightarrow> bool \<times> Transaction \<times> TransactionManager) \<Rightarrow> Transaction \<Rightarrow>
     CypherExecutor \<Rightarrow> CypherExecutor" where
  "end_transaction finish txn cx =
     (let m = executor_mvcc cx
      in set_executor_mvcc
           (m\<lparr>txn_manager := snd (snd (finish txn (txn_manager m))),
              lock_manager := unlock_all (txn_id txn) (lock_manager m)\<rparr>) cx)"

definition execute_query ::
  "row_sort \<Rightarrow> Query \<Rightarrow> CypherExecutor \<Rightarrow> (QueryResult result \<times> CypherExecutor) option" where
  "execute_query std_sort q cx =
     (let m = executor_mvcc cx;
          (txn, tm) = begin_transaction (txn_manager m);
          cx = set_executor_mvcc (m\<lparr>txn_manager := tm\<rparr>) cx
      in case run_query std_sort q (txn_id txn) (cypher_graph cx) of
           None \<Rightarrow> None
         | Some (r, gs) \<Rightarrow>
             let cx = cx\<lparr>cypher_graph := gs\<rparr>
             in Some (case r of
                  Inr result \<Rightarrow> (Inr result, end_transaction commit_transaction txn cx)
                | Inl (Error code msg) \<Rightarrow>
                    (Inl (Error code msg), end_transaction abort_transaction txn cx)
                | Inl (Exception what) \<Rightarrow>
                    (Inl (invalid_argument (''Query execution error: '' @ what)),
                     end_transaction abort_transaction txn cx)
                | Inl e \<Rightarrow> (Inl e, cx)))"

text \<open>A query as text; the parser is an argument.\<close>

definition execute_query_text ::
  "(string \<Rightarrow> Query result) \<Rightarrow> row_sort \<Rightarrow> string \<Rightarrow> CypherExecutor \<Rightarrow>
     (QueryResult result \<times> CypherExecutor) option" where
  "execute_query_text parse std_sort query_text cx =
     (case parse query_text of
        Inl e \<Rightarrow> Some (Inl e, cx)
      | Inr q \<Rightarrow> execute_query std_sort q cx)"

section \<open>Plans\<close>

datatype PhysicalOperator =
    PhysicalScan string "string option"
  | PhysicalFilter PhysicalOperator Expression

text \<open>The scan looks at the ids from 1 to 100 and ignores the label.\<close>

primrec execute_operator :: "PhysicalOperator \<Rightarrow> transaction_id \<Rightarrow> ResultSet io" where
  "execute_operator (PhysicalScan variable label) tx =
     for_each (map word_of_nat [1 ..< 101]) []
       (\<lambda>node_id results.
          attempt (fetch_node tx node_id)
            (\<lambda>x. ret (results @ [[(variable, NodeBinding node_id)]]))
            (\<lambda>e. ret results))"
| "execute_operator (PhysicalFilter input predicate) tx =
     bind_io (execute_operator input tx)
       (\<lambda>found. for_each found []
          (\<lambda>row results.
             bind_io (evaluate_boolean_expression predicate row tx)
               (\<lambda>holds. ret (if holds then results @ [row] else results))))"

definition node_ids_of_row :: "VariableMap \<Rightarrow> string list list" where
  "node_ids_of_row row =
     concat (map (\<lambda>(v, b). case b of NodeBinding i \<Rightarrow> [[u64_string i]] | _ \<Rightarrow> []) row)"

definition execute_plan :: "PhysicalOperator \<Rightarrow> transaction_id \<Rightarrow> QueryResult io" where
  "execute_plan root tx =
     bind_io (execute_operator root tx)
       (\<lambda>found. ret (foldl (\<lambda>q row. add_row row q) (new_QueryResult [''_id''])
                       (concat (map node_ids_of_row found))))"

definition plan_match :: "Pattern list \<Rightarrow> PhysicalOperator option" where
  "plan_match patterns =
     (case patterns of
        [] \<Rightarrow> None
      | p # ps \<Rightarrow>
          (case pattern_nodes p of
             [] \<Rightarrow> None
           | node # nodes \<Rightarrow>
               Some (PhysicalScan (case node_variable node of None \<Rightarrow> [] | Some v \<Rightarrow> v)
                      (case node_labels node of [] \<Rightarrow> None | l # ls \<Rightarrow> Some l))))"

definition create_plan :: "Query \<Rightarrow> PhysicalOperator option" where
  "create_plan q =
     (case query_match q of
        None \<Rightarrow> None
      | Some patterns \<Rightarrow>
          (case plan_match patterns of
             None \<Rightarrow> None
           | Some plan \<Rightarrow>
               Some (case query_where q of None \<Rightarrow> plan | Some c \<Rightarrow> PhysicalFilter plan c)))"

end
