(* ===== verification/GraphSearch.thy ===== *)
theory GraphSearch
  imports QueryExecutor GraphRefinement "HOL-Library.Sublist"
begin

text \<open>
  The two searches of \<open>query/executor.cpp\<close>, for any function that yields the neighbours of a
  node: \<open>bfs_shortest_path\<close> returns a shortest path, \<open>bfs_paths_with_length\<close> all simple
  paths up to a length. The interface \<open>neighbourhood\<close> is what they need of the graph store,
  which provides it by \<open>get_adjacent_nodes\<close>.
\<close>

section \<open>Paths\<close>

definition path_between :: "(node_id \<Rightarrow> node_id set) \<Rightarrow> node_id \<Rightarrow> node_id \<Rightarrow> node_id list \<Rightarrow> bool" where
  "path_between E a b p \<longleftrightarrow> p \<noteq> [] \<and> hd p = a \<and> last p = b \<and> successively (\<lambda>u v. v \<in> E u) p"

primrec within :: "(node_id \<Rightarrow> node_id set) \<Rightarrow> node_id \<Rightarrow> nat \<Rightarrow> node_id set" where
  "within E a 0 = {a}"
| "within E a (Suc k) = within E a k \<union> (\<Union>u \<in> within E a k. E u)"

lemma path_between_single [simp]: "path_between E a b [c] \<longleftrightarrow> c = a \<and> c = b"
  by (auto simp: path_between_def)

lemma path_between_snoc:
  "path_between E a u p \<Longrightarrow> v \<in> E u \<Longrightarrow> path_between E a v (p @ [v])"
  by (auto simp: path_between_def successively_append_iff)

lemma within_mono: "j \<le> k \<Longrightarrow> within E a j \<subseteq> within E a k"
  by (induction k) (auto simp: le_Suc_eq)

lemma within_closed:
  assumes "a \<in> S" and "\<And>u. u \<in> S \<Longrightarrow> E u \<subseteq> S"
  shows "within E a k \<subseteq> S"
  using assms by (induction k) auto

lemma path_within: "path_between E a b p \<Longrightarrow> length p \<le> Suc k \<Longrightarrow> b \<in> within E a k"
proof (induction p arbitrary: b k rule: rev_induct)
  case (snoc v p)
  have v: "v = b" using snoc.prems(1) by (simp add: path_between_def)
  show ?case
  proof (cases "p = []")
    case True
    then have "b = a" using snoc.prems(1) v by simp
    then show ?thesis using within_mono [of 0 k E a] by auto
  next
    case False
    then obtain j where j: "k = Suc j" using snoc.prems(2) by (cases k) auto
    have "path_between E a (last p) p" "b \<in> E (last p)"
      using snoc.prems(1) False v by (auto simp: path_between_def successively_append_iff)
    then show ?thesis using snoc.IH [of "last p" j] snoc.prems(2) j by auto
  qed
qed (simp add: path_between_def)

section \<open>The interface to the graph\<close>

text \<open>
  Reading changes the state only in ways no later reading can tell: \<open>same\<close> relates the
  states before and after, \<open>ok\<close> is the invariant under which the reading works.
\<close>

locale observation =
  fixes ok :: "'s \<Rightarrow> bool" and same :: "'s \<Rightarrow> 's \<Rightarrow> bool"
  assumes same_refl: "ok s \<Longrightarrow> same s s"
    and same_trans: "same s t \<Longrightarrow> same t u \<Longrightarrow> same s u"
    and same_ok: "same s t \<Longrightarrow> ok s \<Longrightarrow> ok t"

locale neighbourhood = observation ok same
  for ok :: "'s \<Rightarrow> bool" and same :: "'s \<Rightarrow> 's \<Rightarrow> bool" +
  fixes adjacent :: "node_id \<Rightarrow> 's \<Rightarrow> node_id list result \<times> 's"
    and nbrs :: "'s \<Rightarrow> node_id \<Rightarrow> node_id set"
  assumes adjacent_ok:
      "ok s \<Longrightarrow> \<exists>xs s'. adjacent n s = (Inr xs, s') \<and> same s s' \<and> distinct xs \<and> set xs = nbrs s n"
    and same_nbrs: "same s t \<Longrightarrow> nbrs t = nbrs s"

section \<open>Breadth-first search\<close>

lemma bfs_visit_new:
  assumes "bfs_visit c g ns queue seen parent = (found, queue', seen', parent')" and "g \<notin> seen"
  shows "\<exists>new. queue' = queue @ new \<and> seen' = seen \<union> set new \<and> set new \<subseteq> set ns \<and>
           set new \<inter> seen = {} \<and> parent' = (\<lambda>v. if v \<in> set new then Some c else parent v) \<and>
           (found \<longleftrightarrow> g \<in> set ns) \<and> (found \<longleftrightarrow> g \<in> set new) \<and> (\<not> found \<longrightarrow> set ns \<subseteq> seen')"
  using assms
proof (induction ns arbitrary: queue seen parent)
  case Nil
  then show ?case by auto
next
  case (Cons n ns)
  consider "n \<in> seen" | "n \<notin> seen" "n = g" | "n \<notin> seen" "n \<noteq> g" by blast
  then show ?case
  proof cases
    case 1
    then have "g \<noteq> n" using Cons.prems(2) by auto
    then show ?thesis using 1 Cons.IH [of queue seen parent] Cons.prems by auto
  next
    case 2
    then show ?thesis using Cons.prems by (auto intro!: exI [of _ "[g]"])
  next
    case 3
    have run: "bfs_visit c g ns (queue @ [n]) (insert n seen) (parent(n \<mapsto> c)) =
        (found, queue', seen', parent')" "g \<notin> insert n seen"
      using 3 Cons.prems by auto
    from Cons.IH [OF run] obtain new where "queue' = (queue @ [n]) @ new" "seen' = insert n seen \<union> set new"
      "set new \<subseteq> set ns" "set new \<inter> insert n seen = {}"
      "parent' = (\<lambda>v. if v \<in> set new then Some c else (parent(n \<mapsto> c)) v)"
      "found \<longleftrightarrow> g \<in> set ns" "found \<longleftrightarrow> g \<in> set new" "\<not> found \<longrightarrow> set ns \<subseteq> seen'"
      by (elim exE conjE)
    then show ?thesis using 3 by (intro exI [of _ "n # new"]) (auto simp: fun_eq_iff)
  qed
qed

text \<open>Every node seen was reached from a node that is nearer to the start.\<close>

definition parents_ok ::
  "(node_id \<Rightarrow> node_id set) \<Rightarrow> node_id \<Rightarrow> node_id set \<Rightarrow> (node_id \<rightharpoonup> node_id) \<Rightarrow> bool" where
  "parents_ok E a seen parent \<longleftrightarrow>
     (\<forall>v \<in> seen. v \<noteq> a \<longrightarrow>
        (\<exists>u k. parent v = Some u \<and> u \<in> seen \<and> v \<in> E u \<and> u \<in> within E a k \<and> v \<notin> within E a k))"

lemma trace_back_shortest:
  assumes "parents_ok E a seen parent"
  shows "v \<in> seen \<Longrightarrow> v \<in> within E a k \<Longrightarrow>
           \<exists>p. trace_back parent a v acc = Some (p @ acc) \<and> path_between E a v p \<and> length p \<le> Suc k"
proof (induction k arbitrary: v acc)
  case 0
  then have "v = a" by simp
  then show ?case by (subst trace_back.simps) (auto intro!: exI [of _ "[a]"])
next
  case (Suc k)
  show ?case
  proof (cases "v = a")
    case True
    then show ?thesis by (subst trace_back.simps) (auto intro!: exI [of _ "[a]"])
  next
    case False
    then obtain u j where u: "parent v = Some u" "u \<in> seen" "v \<in> E u" "u \<in> within E a j"
      "v \<notin> within E a j"
      using assms Suc.prems(1) unfolding parents_ok_def by blast
    have "j \<le> k" using u(5) Suc.prems(2) within_mono [of "Suc k" j E a]
      by (metis not_less_eq_eq subsetD)
    then have "u \<in> within E a k" using u(4) within_mono [of j k E a] by blast
    then obtain p where p: "trace_back parent a u (v # acc) = Some (p @ v # acc)"
      "path_between E a u p" "length p \<le> Suc k"
      using Suc.IH [OF u(2)] by blast
    have "trace_back parent a v acc = Some ((p @ [v]) @ acc)"
      using p(1) u(1) False by (subst trace_back.simps) simp
    then show ?thesis
      using path_between_snoc [OF p(2) u(3)] p(3) by (intro exI [of _ "p @ [v]"]) simp
  qed
qed

text \<open>
  The invariant of the queue: nodes at distance \<open>d\<close>, then nodes one further; everything seen
  is within \<open>d\<close> or in the second part, and the nodes within \<open>d\<close> that have left the queue are
  expanded.
\<close>

definition bfs_inv ::
  "(node_id \<Rightarrow> node_id set) \<Rightarrow> node_id \<Rightarrow> node_id list \<Rightarrow> node_id set \<Rightarrow> (node_id \<rightharpoonup> node_id) \<Rightarrow> bool" where
  "bfs_inv E a queue seen parent \<longleftrightarrow>
     a \<in> seen \<and> parents_ok E a seen parent \<and>
     (\<exists>d xs ys. queue = xs @ ys \<and> set xs \<subseteq> within E a d \<and> set ys \<subseteq> within E a (Suc d) \<and>
        seen = within E a d \<union> set ys \<and> (\<forall>u \<in> within E a d - set xs. E u \<subseteq> seen))"

lemma bfs_inv_start: "bfs_inv E a [a] {a} Map.empty"
proof -
  have "[a] = [a] @ [] \<and> set [a] \<subseteq> within E a 0 \<and> set [] \<subseteq> within E a (Suc 0) \<and>
      {a} = within E a 0 \<union> set [] \<and> (\<forall>u \<in> within E a 0 - set [a]. E u \<subseteq> {a})"
    by simp
  moreover have "parents_ok E a {a} Map.empty" by (simp add: parents_ok_def)
  ultimately show ?thesis unfolding bfs_inv_def by blast
qed

text \<open>When the first part is empty the second takes its place.\<close>

lemma bfs_inv_front:
  assumes "bfs_inv E a (c # q) seen parent"
  obtains d xs ys where "q = xs @ ys" "c \<in> within E a d" "set xs \<subseteq> within E a d"
    "set ys \<subseteq> within E a (Suc d)" "seen = within E a d \<union> set ys"
    "\<And>u. u \<in> within E a d \<Longrightarrow> u \<notin> set (c # xs) \<Longrightarrow> E u \<subseteq> seen"
proof -
  obtain d xs ys where i: "c # q = xs @ ys" "set xs \<subseteq> within E a d" "set ys \<subseteq> within E a (Suc d)"
    "seen = within E a d \<union> set ys" "\<forall>u \<in> within E a d - set xs. E u \<subseteq> seen"
    using assms unfolding bfs_inv_def by blast
  show ?thesis
  proof (cases xs)
    case (Cons x xs')
    then show ?thesis using i that [of xs' ys d] by auto
  next
    case Nil
    have ys: "ys = c # q" using i(1) Nil by simp
    have seen: "seen = within E a (Suc d)" using i(3-5) Nil by auto
    have old: "E u \<subseteq> seen" if "u \<in> within E a (Suc d)" "u \<notin> set (c # q)" for u
    proof -
      have "u \<in> within E a d" using that i(4) seen ys by blast
      then show ?thesis using i(5) Nil by simp
    qed
    show ?thesis
      by (rule that [of q "[]" "Suc d"]) (use i(3) ys seen old in \<open>simp_all del: within.simps\<close>)
  qed
qed

lemma parents_ok_new:
  assumes "parents_ok E a seen parent" and "c \<in> seen" and "c \<in> within E a d"
    and "within E a d \<subseteq> seen" and "set new \<subseteq> E c" and "set new \<inter> seen = {}"
  shows "parents_ok E a (seen \<union> set new) (\<lambda>v. if v \<in> set new then Some c else parent v)"
  unfolding parents_ok_def
proof (intro ballI impI)
  fix v assume v: "v \<in> seen \<union> set new" "v \<noteq> a"
  show "\<exists>u k. (if v \<in> set new then Some c else parent v) = Some u \<and> u \<in> seen \<union> set new \<and> v \<in> E u \<and>
      u \<in> within E a k \<and> v \<notin> within E a k"
  proof (cases "v \<in> set new")
    case True
    then have "v \<in> E c" "v \<notin> within E a d" using assms(4-6) by auto
    then show ?thesis using True assms(2,3) by auto
  next
    case False
    then have "v \<in> seen" using v(1) by simp
    then obtain u k where "parent v = Some u" "u \<in> seen" "v \<in> E u" "u \<in> within E a k" "v \<notin> within E a k"
      using assms(1) v(2) unfolding parents_ok_def by blast
    then show ?thesis using False by auto
  qed
qed

lemma bfs_inv_step:
  assumes inv: "bfs_inv E a (c # q) seen parent" and ns: "set ns = E c" and g: "g \<notin> seen"
    and visit: "bfs_visit c g ns q seen parent = (found, queue', seen', parent')"
  shows "if found then g \<in> seen' \<and> seen' \<subseteq> (\<Union>k. within E a k) \<and> parents_ok E a seen' parent'
         else g \<notin> seen' \<and> bfs_inv E a queue' seen' parent'"
proof -
  obtain d xs ys where i: "q = xs @ ys" "c \<in> within E a d" "set xs \<subseteq> within E a d"
    "set ys \<subseteq> within E a (Suc d)" "seen = within E a d \<union> set ys"
    "\<And>u. u \<in> within E a d \<Longrightarrow> u \<notin> set (c # xs) \<Longrightarrow> E u \<subseteq> seen"
    using inv by (rule bfs_inv_front) blast
  obtain new where n: "queue' = q @ new" "seen' = seen \<union> set new" "set new \<subseteq> E c"
    "set new \<inter> seen = {}" "parent' = (\<lambda>v. if v \<in> set new then Some c else parent v)"
    "found \<longleftrightarrow> g \<in> set new" "\<not> found \<longrightarrow> E c \<subseteq> seen'"
    using bfs_visit_new [OF visit g] unfolding ns by blast
  have p: "parents_ok E a seen' parent'"
    unfolding n(2,5) using inv i(2,5) n(3,4)
    by (intro parents_ok_new) (auto simp: bfs_inv_def)
  have new: "set new \<subseteq> within E a (Suc d)" using n(3) i(2) by auto
  show ?thesis
  proof (cases found)
    case True
    have "seen' \<subseteq> within E a (Suc d)" using new i(4,5) n(2) by auto
    then have "seen' \<subseteq> (\<Union>k. within E a k)" by blast
    then show ?thesis using True n(2,6) p by simp
  next
    case False
    have "bfs_inv E a queue' seen' parent'"
      unfolding bfs_inv_def
    proof (intro conjI exI)
      show "queue' = xs @ (ys @ new)" using n(1) i(1) by simp
      show "\<forall>u \<in> within E a d - set xs. E u \<subseteq> seen'"
        using i(6) n(2,7) False by auto
    qed (use inv i new n p in \<open>auto simp: bfs_inv_def simp del: within.simps\<close>)
    then show ?thesis using False g n(2,6) by auto
  qed
qed

lemma bfs_inv_done:
  assumes "bfs_inv E a [] seen parent" and "g \<notin> seen"
  shows "\<not> path_between E a g p"
proof
  assume "path_between E a g p"
  then have "g \<in> within E a (length p)" by (rule path_within) simp
  moreover have "within E a (length p) \<subseteq> seen"
    using assms(1) by (intro within_closed) (auto simp: bfs_inv_def)
  ultimately show False using assms(2) by blast
qed

section \<open>The searches over the interface\<close>

context neighbourhood
begin

lemma bfs_loop_correct:
  assumes "adj = adjacent" and "ok s" and "bfs_inv (nbrs s) a queue seen parent" and "g \<notin> seen"
  shows "\<exists>r s'. bfs_loop adj g queue seen parent s = (Inr r, s') \<and> same s s' \<and>
           (case r of
              None \<Rightarrow> \<forall>p. \<not> path_between (nbrs s) a g p
            | Some parent' \<Rightarrow> \<exists>seen' k. g \<in> seen' \<and> g \<in> within (nbrs s) a k \<and>
                parents_ok (nbrs s) a seen' parent')"
  using assms
proof (induction adj g queue seen parent s rule: bfs_loop.induct)
  case (1 adj goal seen parent s)
  then show ?case using bfs_inv_done [OF 1(3,4)] same_refl by auto
next
  case (2 adj goal current queue seen parent s)
  note pre = 2(4,5,6)
  obtain xs t where adj: "adj current s = (Inr xs, t)" "same s t" "set xs = nbrs s current"
    using adjacent_ok [OF pre(1)] 2(3) by blast
  obtain found queue' seen' parent' where
    visit: "bfs_visit current goal xs queue seen parent = (found, queue', seen', parent')"
    by (metis prod_cases4)
  note step = bfs_inv_step [OF pre(2) adj(3) pre(3) visit]
  show ?case
  proof (cases found)
    case True
    then have "goal \<in> seen'" "\<exists>k. goal \<in> within (nbrs s) a k" "parents_ok (nbrs s) a seen' parent'"
      using step by auto
    then show ?thesis using True adj(1,2) visit by auto
  next
    case False
    have inv: "bfs_inv (nbrs t) a queue' seen' parent'" "goal \<notin> seen'"
      using step False by (simp_all add: same_nbrs [OF adj(2)])
    obtain r u where r: "bfs_loop adj goal queue' seen' parent' t = (Inr r, u)" "same t u"
      "case r of
         None \<Rightarrow> \<forall>p. \<not> path_between (nbrs t) a goal p
       | Some parent' \<Rightarrow> \<exists>seen' k. goal \<in> seen' \<and> goal \<in> within (nbrs t) a k \<and>
           parents_ok (nbrs t) a seen' parent'"
      using 2(2) [OF adj(1) [symmetric] refl visit [symmetric] _ _ _ 2(3) same_ok [OF adj(2) pre(1)] inv]
        False by auto
    moreover have "bfs_loop adj goal (current # queue) seen parent s = (Inr r, u)"
      using adj(1) visit False r(1) by simp
    ultimately show ?thesis
      using same_trans [OF adj(2) r(2)] unfolding same_nbrs [OF adj(2)] by blast
  qed
qed

text \<open>The path is as short as any, and empty when there is none.\<close>

lemma shortest_path:
  assumes "ok s"
  shows "\<exists>path s'. bfs_shortest_path adjacent a g s = Some (Inr path, s') \<and> same s s' \<and>
           (if path = [] then \<forall>p. \<not> path_between (nbrs s) a g p
            else path_between (nbrs s) a g path \<and>
                 (\<forall>p. path_between (nbrs s) a g p \<longrightarrow> length path \<le> length p))"
proof (cases "a = g")
  case True
  then show ?thesis
    using same_refl [OF assms] by (auto simp: bfs_shortest_path_def path_between_def Suc_le_eq)
next
  case False
  then obtain r t where r: "bfs_loop adjacent g [a] {a} Map.empty s = (Inr r, t)" "same s t"
    "case r of
       None \<Rightarrow> \<forall>p. \<not> path_between (nbrs s) a g p
     | Some parent' \<Rightarrow> \<exists>seen' k. g \<in> seen' \<and> g \<in> within (nbrs s) a k \<and>
         parents_ok (nbrs s) a seen' parent'"
    using bfs_loop_correct [OF refl assms bfs_inv_start, of g a] by auto
  show ?thesis
  proof (cases r)
    case None
    then show ?thesis using r False by (auto simp: bfs_shortest_path_def)
  next
    case (Some parent)
    then obtain seen k where k: "g \<in> seen" "g \<in> within (nbrs s) a k" "parents_ok (nbrs s) a seen parent"
      using r(3) by auto
    note trace = trace_back_shortest [OF k(3,1), of _ "[]"]
    obtain path where path: "trace_back parent a g [] = Some path" "path_between (nbrs s) a g path"
      using trace [OF k(2)] by auto
    have "length path \<le> length p" if p: "path_between (nbrs s) a g p" for p
    proof -
      have "g \<in> within (nbrs s) a (length p - 1)" "0 < length p"
        using path_within [OF p, of "length p - 1"] p by (auto simp: path_between_def)
      then show ?thesis using trace [of "length p - 1"] path(1) by auto
    qed
    then show ?thesis
      using path r Some False by (auto simp: bfs_shortest_path_def path_between_def)
  qed
qed

end

section \<open>Depth-first search\<close>

text \<open>The paths the search may still return below the path \<open>p\<close>.\<close>

definition extensions ::
  "(node_id \<Rightarrow> node_id set) \<Rightarrow> node_id \<Rightarrow> nat \<Rightarrow> node_id list \<Rightarrow> node_id list set" where
  "extensions E g m p =
     {q. prefix p q \<and> successively (\<lambda>u v. v \<in> E u) q \<and> distinct q \<and> last q = g \<and>
         1 < length q \<and> length q \<le> m}"

lemma extensions_long: "m < length p \<Longrightarrow> extensions E g m p = {}"
  by (auto simp: extensions_def dest!: prefix_length_le)

lemma extensions_found:
  assumes "p \<noteq> []" "last p = g" "1 < length p" "length p \<le> m" "distinct p"
    "successively (\<lambda>u v. v \<in> E u) p"
  shows "extensions E g m p = {p}"
proof -
  have "r = []" if "distinct (p @ r)" "last (p @ r) = g" for r
    using that assms(1,2) by (cases "r = []") (auto dest: last_in_set)
  then have "q = p" if "q \<in> extensions E g m p" for q
    using that unfolding extensions_def prefix_def by blast
  moreover have "p \<in> extensions E g m p" using assms by (simp add: extensions_def)
  ultimately show ?thesis by blast
qed

lemma extensions_step:
  assumes "p \<noteq> []" "last p \<noteq> g \<or> length p \<le> 1"
  shows "extensions E g m p = (\<Union>n \<in> E (last p) - set p. extensions E g m (p @ [n]))"
proof (rule equalityI)
  show "extensions E g m p \<subseteq> (\<Union>n \<in> E (last p) - set p. extensions E g m (p @ [n]))"
  proof
    fix q assume q: "q \<in> extensions E g m p"
    then obtain r where r: "q = p @ r" by (auto simp: extensions_def prefix_def)
    then obtain n r' where n: "q = p @ n # r'"
      using q assms by (cases r) (auto simp: extensions_def)
    then have "n \<in> E (last p) - set p"
      using q assms(1) by (auto simp: extensions_def successively_append_iff)
    moreover have "q \<in> extensions E g m (p @ [n])"
      using q n by (auto simp: extensions_def prefix_def)
    ultimately show "q \<in> (\<Union>n \<in> E (last p) - set p. extensions E g m (p @ [n]))" by blast
  qed
qed (auto simp: extensions_def prefix_def)

lemma extensions_disjoint:
  "q \<in> extensions E g m (p @ [n]) \<Longrightarrow> q \<in> extensions E g m (p @ [n']) \<Longrightarrow> n = n'"
  by (auto simp: extensions_def prefix_def)

context neighbourhood
begin

lemma dfs_correct:
  "adj = adjacent \<Longrightarrow> ok s \<Longrightarrow> path \<noteq> [] \<Longrightarrow> last path = current \<Longrightarrow> seen = set path \<Longrightarrow> distinct path \<Longrightarrow>
     successively (\<lambda>u v. v \<in> nbrs s u) path \<Longrightarrow>
     \<exists>new s'. dfs adj g l current path seen paths s = (Inr (paths @ new), s') \<and> same s s' \<and>
       distinct new \<and> set new = extensions (nbrs s) g (unat (l + 1)) path"
  and dfs_each_correct:
  "adj = adjacent \<Longrightarrow> ok s \<Longrightarrow> path \<noteq> [] \<Longrightarrow> seen = set path \<Longrightarrow> distinct path \<Longrightarrow> distinct ns \<Longrightarrow>
     set ns \<subseteq> nbrs s (last path) \<Longrightarrow> successively (\<lambda>u v. v \<in> nbrs s u) path \<Longrightarrow>
     \<exists>new s'. dfs_each adj g l ns path seen paths s = (Inr (paths @ new), s') \<and> same s s' \<and>
       distinct new \<and>
       set new = (\<Union>n \<in> set ns - set path. extensions (nbrs s) g (unat (l + 1)) (path @ [n]))"
proof (induction adj g l current path seen paths s and adj g l ns path seen paths s
    rule: dfs_dfs_each.induct)
  case (1 adj goal l current path seen paths s)
  show ?case
  proof (cases "unat (l + 1) < length path \<or> (current = goal \<and> 1 < length path)")
    case True
    then show ?thesis
      using 1(2-) same_refl [OF 1(3)] by (auto simp: extensions_long extensions_found not_less)
  next
    case False
    obtain xs t where adj: "adj current s = (Inr xs, t)" "same s t" "distinct xs"
      "set xs = nbrs s current"
      using adjacent_ok [OF 1(3)] 1(2) by blast
    obtain new u where new:
      "dfs_each adj goal l xs path seen paths t = (Inr (paths @ new), u)" "same t u"
      "distinct new"
      "set new = (\<Union>n \<in> set xs - set path. extensions (nbrs t) goal (unat (l + 1)) (path @ [n]))"
      using 1(1) [OF _ _ adj(1) [symmetric] refl 1(2) same_ok [OF adj(2) 1(3)]] False 1(4-) adj
      by (auto simp: same_nbrs [OF adj(2)])
    have "extensions (nbrs s) goal (unat (l + 1)) path = set new"
      unfolding new(4) adj(4) same_nbrs [OF adj(2)] 1(5) [symmetric]
      using False 1(5) by (intro extensions_step [OF 1(4)]) auto
    then show ?thesis
      using False adj(1) new same_trans [OF adj(2) new(2)] by auto
  qed
next
  case (2 adj goal l path seen paths s)
  then show ?case using same_refl [OF 2(2)] by auto
next
  case (3 adj goal l n rest path seen paths s)
  show ?case
  proof (cases "n \<in> seen")
    case True
    then have "set (n # rest) - set path = set rest - set path" using 3(7) by auto
    then show ?thesis using 3(1) [OF True 3(4,5)] 3(6-) True by auto
  next
    case False
    have snoc: "distinct (path @ [n])" "successively (\<lambda>u v. v \<in> nbrs s u) (path @ [n])"
      "insert n seen = set (path @ [n])"
      using 3(6-) False by (auto simp: successively_append_iff)
    obtain new t where new:
      "dfs adj goal l n (path @ [n]) (insert n seen) paths s = (Inr (paths @ new), t)"
      "same s t" "distinct new" "set new = extensions (nbrs s) goal (unat (l + 1)) (path @ [n])"
      using 3(2) [OF False 3(4,5) _ _ snoc(3,1,2)] by auto
    obtain more u where more:
      "dfs_each adj goal l rest path seen (paths @ new) t = (Inr ((paths @ new) @ more), u)"
      "same t u" "distinct more"
      "set more = (\<Union>m \<in> set rest - set path. extensions (nbrs t) goal (unat (l + 1)) (path @ [m]))"
      using 3(3) [OF False new(1) [symmetric] refl 3(4) same_ok [OF new(2) 3(5)]] 3(6-)
      by (auto simp: same_nbrs [OF new(2)])
    have "set (n # rest) - set path = insert n (set rest - set path)" using False 3(7) by auto
    moreover have "set new \<inter> set more = {}"
      using 3(9) extensions_disjoint [of _ "nbrs s" goal "unat (l + 1)" path n]
      unfolding new(4) more(4) same_nbrs [OF new(2)] by auto
    ultimately show ?thesis
      using False new more same_trans [OF new(2) more(2)]
      by (intro exI [of _ "new @ more"] exI [of _ u]) (auto simp: same_nbrs [OF new(2)])
  qed
qed

text \<open>All simple paths of at most \<open>l\<close> edges, each once.\<close>

lemma paths_with_length:
  assumes "ok s"
  shows "\<exists>paths s'. bfs_paths_with_length adjacent a g l s = (Inr paths, s') \<and> same s s' \<and>
           distinct paths \<and>
           set paths = {p. path_between (nbrs s) a g p \<and> distinct p \<and> 1 < length p \<and>
                           length p \<le> unat (l + 1)}"
proof -
  have "extensions (nbrs s) g (unat (l + 1)) [a] =
      {p. path_between (nbrs s) a g p \<and> distinct p \<and> 1 < length p \<and> length p \<le> unat (l + 1)}"
    by (auto simp: extensions_def path_between_def prefix_def neq_Nil_conv)
  then show ?thesis
    using dfs_correct [OF refl assms, of "[a]" a "{a}" g l "[]"] by (auto simp: bfs_paths_with_length_def)
qed

end

end
