(* ===== verification/QueryResults.thy ===== *)
theory QueryResults
  imports GraphSearch
begin

text \<open>
  What the direct queries answer, in terms of the property graph the store implements: the
  interfaces of the searches and of the loops over ids are interpreted on the operations of
  the graph store.
\<close>

section \<open>Loading records\<close>

locale record_loader = observation ok same
  for ok :: "'s \<Rightarrow> bool" and same :: "'s \<Rightarrow> 's \<Rightarrow> bool" +
  fixes load :: "u64 \<Rightarrow> 's \<Rightarrow> 'r result \<times> 's" and record_at :: "'s \<Rightarrow> u64 \<rightharpoonup> 'r"
  assumes load_found: "ok s \<Longrightarrow> record_at s i = Some r \<Longrightarrow> \<exists>s'. load i s = (Inr r, s') \<and> same s s'"
    and load_missing: "ok s \<Longrightarrow> record_at s i = None \<Longrightarrow> \<exists>msg. load i s = (Inl (Error NOT_FOUND msg), s)"
    and same_record: "same s t \<Longrightarrow> record_at t = record_at s"

text \<open>The rows of the records there are, in the order of the ids.\<close>

definition rows_of :: "(u64 \<rightharpoonup> 'r) \<Rightarrow> ('r \<Rightarrow> string list) \<Rightarrow> u64 list \<Rightarrow> string list list" where
  "rows_of at row ids = map (row \<circ> the \<circ> at) (filter (\<lambda>i. at i \<noteq> None) ids)"

lemma rows_of_simps [simp]:
  "rows_of at row [] = []"
  "rows_of at row (i # ids) = (case at i of None \<Rightarrow> [] | Some r \<Rightarrow> [row r]) @ rows_of at row ids"
  by (auto simp: rows_of_def)

lemma add_row_rows [simp]:
  "rows (add_row r q) = rows q @ [r]" "columns (add_row r q) = columns q"
  by (simp_all add: add_row_def)

lemma rows_update [simp]:
  "(add_row r q)\<lparr>rows := rs\<rparr> = q\<lparr>rows := rs\<rparr>" "(q :: QueryResult)\<lparr>rows := rows q\<rparr> = q"
  "rows (new_QueryResult cols) = []" "columns (new_QueryResult cols) = cols"
  by (simp_all add: add_row_def new_QueryResult_def)

text \<open>The ids from 1 to a limit.\<close>

definition ids_upto :: "u64 \<Rightarrow> u64 list" where
  "ids_upto limit = map word_of_nat [1 ..< Suc (unat limit)]"

lemma ids_from:
  fixes i limit :: u64
  assumes "i \<le> limit" and "limit \<noteq> - 1"
  shows "map word_of_nat [unat i ..< Suc (unat limit)] =
           i # map word_of_nat [unat (i + 1) ..< Suc (unat limit)]"
proof -
  have "i \<noteq> - 1" using assms by (metis word_order.extremum_unique)
  then have "unat (i + 1) = Suc (unat i)" using unat_plus1 [of i] by simp
  moreover have "unat i < Suc (unat limit)" using assms(1) by (simp add: word_le_nat_alt less_Suc_eq_le)
  ultimately show ?thesis by (simp add: upt_conv_Cons del: upt_Suc)
qed

context record_loader
begin

lemma add_rows_ok:
  "ok s \<Longrightarrow> \<exists>s'. add_rows load row ids q s =
      (Inr (q\<lparr>rows := rows q @ rows_of (record_at s) row ids\<rparr>), s') \<and> same s s'"
proof (induction ids arbitrary: q s)
  case Nil
  then show ?case using same_refl by simp
next
  case (Cons i ids)
  show ?case
  proof (cases "record_at s i")
    case None
    then obtain msg where "load i s = (Inl (Error NOT_FOUND msg), s)"
      using load_missing Cons.prems by blast
    then show ?thesis using Cons.IH [OF Cons.prems, of q] None by (simp add: abrupt_def)
  next
    case (Some r)
    then obtain t where t: "load i s = (Inr r, t)" "same s t" using load_found Cons.prems by blast
    obtain u where "add_rows load row ids (add_row (row r) q) t =
        (Inr ((add_row (row r) q)\<lparr>rows := rows (add_row (row r) q) @ rows_of (record_at t) row ids\<rparr>), u)"
      "same t u"
      using Cons.IH [OF same_ok [OF t(2) Cons.prems]] by blast
    then show ?thesis
      using t Some same_trans [OF t(2)] same_record [OF t(2)] by auto
  qed
qed

text \<open>
  The scan returns for every limit but the largest. It has at most as many rows as ids, so
  the bound on the number of rows never ends it early.
\<close>

lemma scan_rows_ok:
  assumes "limit \<noteq> - 1"
  shows "ok s \<Longrightarrow> 1 \<le> i \<Longrightarrow> length (rows q) < unat i \<Longrightarrow>
    \<exists>s'. scan_rows load row limit i q s =
      Some (Inr (q\<lparr>rows := rows q @
        rows_of (record_at s) row (map word_of_nat [unat i ..< Suc (unat limit)])\<rparr>), s') \<and> same s s'"
proof (induction "Suc (unat limit) - unat i" arbitrary: i q s)
  case 0
  then have "\<not> i \<le> limit" by (simp add: word_le_nat_alt)
  moreover have "[unat i ..< Suc (unat limit)] = []" using 0 by simp
  ultimately show ?case using same_refl [OF 0(2)] by (subst scan_rows.simps) (simp del: upt_Suc)
next
  case (Suc n)
  have le: "i \<le> limit" using Suc(2) by (simp add: word_le_nat_alt)
  have more: "i \<noteq> - 1" using le assms by (metis word_order.extremum_unique)
  have next1: "unat (i + 1) = Suc (unat i)" "1 \<le> i + 1"
    using unat_plus1 [OF more] by (simp_all add: word_le_nat_alt)
  have n: "n = Suc (unat limit) - unat (i + 1)" using Suc(2) next1 by simp
  have test: "i \<le> limit \<and> length (rows q) < unat limit"
    using le Suc(5) by (simp add: word_le_nat_alt)
  note ids = ids_from [OF le assms]
  show ?case
  proof (cases "record_at s i")
    case None
    then obtain msg where "load i s = (Inl (Error NOT_FOUND msg), s)" using load_missing Suc(3) by blast
    then show ?thesis
      using Suc(1) [OF n Suc(3) next1(2), of q] None Suc(5) next1(1) test
      by (subst scan_rows.simps) (simp add: ids abrupt_def del: upt_Suc)
  next
    case (Some r)
    then obtain t where t: "load i s = (Inr r, t)" "same s t" using load_found Suc(3) by blast
    obtain u where "scan_rows load row limit (i + 1) (add_row (row r) q) t =
        Some (Inr (q\<lparr>rows := (rows q @ [row r]) @
          rows_of (record_at t) row (map word_of_nat [unat (i + 1) ..< Suc (unat limit)])\<rparr>), u)"
      "same t u"
      using Suc(1) [OF n same_ok [OF t(2) Suc(3)] next1(2), of "add_row (row r) q"] Suc(5) next1(1)
      by (auto simp del: upt_Suc)
    then show ?thesis
      using t Some same_trans [OF t(2)] same_record [OF t(2)] test
      by (subst scan_rows.simps) (auto simp: ids simp del: upt_Suc)
  qed
qed

end

section \<open>The graph store behind the interfaces\<close>

interpretation graph_state: observation wf_graph same_graph
  by unfold_locales (fact same_graph_refl same_graph_trans same_graph_wf)+

interpretation node_loader: record_loader wf_graph same_graph get_node node_at
  by unfold_locales (auto simp: same_graphD(1) get_node_missing intro: get_node_found)

interpretation edge_loader: record_loader wf_graph same_graph get_edge edge_at
  by unfold_locales (auto simp: same_graphD(2) get_edge_missing intro: get_edge_found)

interpretation graph_neighbours: neighbourhood wf_graph same_graph get_adjacent_nodes neighbours
proof unfold_locales
  show "\<exists>xs s'. get_adjacent_nodes n s = (Inr xs, s') \<and> same_graph s s' \<and> distinct xs \<and>
      set xs = neighbours s n" if "wf_graph s" for n s
    using get_adjacent_nodes_ok [OF that, of n] by (auto simp: strict_sorted_iff)
  show "neighbours t = neighbours s" if "same_graph s t" for s t
    using same_graphD(2) [OF that] by (auto simp: fun_eq_iff neighbours_def)
qed

section \<open>The answers, on the property graph\<close>

definition pg_neighbours :: "property_graph \<Rightarrow> node_id \<Rightarrow> node_id set" where
  "pg_neighbours G n =
     {m. \<exists>e l ps. pg_edges G e = Some (n, m, l, ps) \<or> pg_edges G e = Some (m, n, l, ps)}"

definition pg_node_rows :: "property_graph \<Rightarrow> node_id list \<Rightarrow> string list list" where
  "pg_node_rows G ids =
     map (\<lambda>n. [u64_string n, properties_string (the (pg_nodes G n))])
       (filter (\<lambda>n. pg_nodes G n \<noteq> None) ids)"

definition pg_edge_rows :: "property_graph \<Rightarrow> edge_id list \<Rightarrow> string list list" where
  "pg_edge_rows G ids =
     map (\<lambda>e. case the (pg_edges G e) of (src, dst, l, ps) \<Rightarrow>
            [u64_string e, u64_string src, u64_string dst, properties_string ps])
       (filter (\<lambda>e. pg_edges G e \<noteq> None) ids)"

lemma neighbours_pg: "neighbours gs = pg_neighbours (abs_graph gs)"
  by (fastforce simp: fun_eq_iff neighbours_def pg_neighbours_def abs_graph_def edge_view_def)

lemma node_rows_pg:
  assumes "wf_graph gs"
  shows "rows_of (node_at gs) node_row ids = pg_node_rows (abs_graph gs) ids"
proof (induction ids)
  case (Cons n ids)
  have "n_id (fst r) = n" if "node_at gs n = Some r" for r
    using valid_index_key [OF wf_graphD(2) [OF assms], of n r] that by (simp add: node_at_def)
  then show ?case
    using Cons
    by (auto simp: pg_node_rows_def abs_graph_def node_row_def split: option.splits prod.splits)
qed (simp add: pg_node_rows_def)

lemma edge_rows_pg:
  assumes "wf_graph gs"
  shows "rows_of (edge_at gs) edge_row ids = pg_edge_rows (abs_graph gs) ids"
proof (induction ids)
  case (Cons e ids)
  have "e_id (fst r) = e" if "edge_at gs e = Some r" for r
    using valid_index_key [OF wf_graphD(3) [OF assms], of e r] that by (simp add: edge_at_def)
  then show ?case
    using Cons
    by (auto simp: pg_edge_rows_def abs_graph_def edge_row_def edge_view_def
        split: option.splits prod.splits)
qed (simp add: pg_edge_rows_def)

lemma result_eq: "(new_QueryResult cols)\<lparr>rows := rs\<rparr> = \<lparr>columns = cols, rows = rs\<rparr>"
  by (simp add: new_QueryResult_def)

lemma foldl_add_row: "foldl (\<lambda>q x. add_row (f x) q) q xs = q\<lparr>rows := rows q @ map f xs\<rparr>"
  by (induction xs arbitrary: q) simp_all

text \<open>The graph of the example calls, and the store that holds it.\<close>

definition example_db :: GraphStore where
  "example_db = run_from_new example_hash example_calls example_store None None"

lemma example_db:
  "wf_graph example_db"
  "abs_graph example_db =
     \<lparr>pg_nodes = [1 \<mapsto> [\<lparr>prop_key = ''name'', prop_value = StringV ''a''\<rparr>],
                  2 \<mapsto> [\<lparr>prop_key = ''age'', prop_value = IntV 3\<rparr>]],
      pg_edges = [1 \<mapsto> (1, 2, 5, [])], pg_next_node = 3, pg_next_edge = 2\<rparr>"
  using run_from_new [OF example_store_facts(1,2) example_admissible, of None None]
  by (simp_all add: example_db_def example_graph)

lemma example_paths:
  "path_between (pg_neighbours (abs_graph example_db)) 1 2 p \<and> length p \<le> 2 \<longleftrightarrow> p = [1, 2]"
proof
  assume p: "path_between (pg_neighbours (abs_graph example_db)) 1 2 p \<and> length p \<le> 2"
  then obtain q where q: "p = 1 # q" by (cases p) (auto simp: path_between_def)
  then show "p = [1, 2]"
    using p by (cases q; cases "tl q") (auto simp: path_between_def)
qed (auto simp: path_between_def pg_neighbours_def example_db(2))

lemma example_strings:
  "u64_string 1 = ''1''" "u64_string 2 = ''2''" "nat_string (Suc 0) = ''1''"
  "properties_string [\<lparr>prop_key = ''name'', prop_value = StringV ''a''\<rparr>] = ''name:a''"
  "properties_string [\<lparr>prop_key = ''age'', prop_value = IntV 3\<rparr>] = ''age:3''"
  "properties_string [] = []"
  by code_simp+

lemma example_rows:
  "pg_node_rows (abs_graph example_db) [1, 2, 3] = [[''1'', ''name:a''], [''2'', ''age:3'']]"
  "pg_node_rows (abs_graph example_db) [2, 7] = [[''2'', ''age:3'']]"
  "pg_edge_rows (abs_graph example_db) [1, 2, 3] = [[''1'', ''1'', ''2'', []]]"
  "pg_edge_rows (abs_graph example_db) [1, 2] = [[''1'', ''1'', ''2'', []]]"
  by (simp_all add: example_db(2) pg_node_rows_def pg_edge_rows_def example_strings)

lemma distinct_singleton_list: "distinct xs \<Longrightarrow> set xs = {x} \<Longrightarrow> xs = [x]"
  by (metis distinct.simps(2) empty_iff insert_iff list.exhaust list.set(1,2) set_empty)

text \<open>
  C6. \<open>find_shortest_path\<close> returns for every pair of nodes: the length and the nodes of a
  path along edges, taken in either direction, than which no path is shorter, or the row
  ''No path found'' when there is none.
\<close>

theorem find_shortest_path_correct:
  assumes "wf_graph gs"
  shows "\<exists>path gs'. find_shortest_path a b gs =
      Some (Inr \<lparr>columns = [''path_length'', ''path''],
                 rows = [if path = [] then [''0'', ''No path found'']
                         else [nat_string (length path - 1), path_string path]]\<rparr>, gs') \<and>
    same_graph gs gs' \<and>
    (if path = [] then \<forall>p. \<not> path_between (pg_neighbours (abs_graph gs)) a b p
     else path_between (pg_neighbours (abs_graph gs)) a b path \<and>
          (\<forall>p. path_between (pg_neighbours (abs_graph gs)) a b p \<longrightarrow> length path \<le> length p))"
proof -
  obtain path gs' where
    "bfs_shortest_path get_adjacent_nodes a b gs = Some (Inr path, gs')" "same_graph gs gs'"
    "if path = [] then \<forall>p. \<not> path_between (neighbours gs) a b p
     else path_between (neighbours gs) a b path \<and>
          (\<forall>p. path_between (neighbours gs) a b p \<longrightarrow> length path \<le> length p)"
    using graph_neighbours.shortest_path [OF assms] by blast
  then show ?thesis
    unfolding neighbours_pg
    by (intro exI [of _ path] exI [of _ gs'])
      (simp add: find_shortest_path_def path_row_def add_row_def new_QueryResult_def)
qed

lemma find_shortest_path_correct_witness:
  "\<exists>gs'. find_shortest_path 1 2 example_db =
      Some (Inr \<lparr>columns = [''path_length'', ''path''], rows = [[''1'', ''1 -> 2'']]\<rparr>, gs')"
proof -
  obtain path gs' where p: "find_shortest_path 1 2 example_db =
      Some (Inr \<lparr>columns = [''path_length'', ''path''],
                 rows = [if path = [] then [''0'', ''No path found'']
                         else [nat_string (length path - 1), path_string path]]\<rparr>, gs')"
    "if path = [] then \<forall>p. \<not> path_between (pg_neighbours (abs_graph example_db)) 1 2 p
     else path_between (pg_neighbours (abs_graph example_db)) 1 2 path \<and>
          (\<forall>p. path_between (pg_neighbours (abs_graph example_db)) 1 2 p \<longrightarrow> length path \<le> length p)"
    using find_shortest_path_correct [OF example_db(1), of 1 2] by (elim exE conjE)
  have "path_between (pg_neighbours (abs_graph example_db)) 1 2 [1, 2]" using example_paths by blast
  then have "path_between (pg_neighbours (abs_graph example_db)) 1 2 path" "length path \<le> 2"
    using p(2) by (auto split: if_splits)
  then have "path = [1, 2]" using example_paths by (auto simp: path_between_def neq_Nil_conv)
  then show ?thesis using p(1) by (simp add: path_string_def example_strings)
qed

text \<open>
  C7. \<open>find_paths_with_length\<close> returns exactly the simple paths of one to \<open>max_length\<close> edges,
  each once, with their lengths. (With the largest \<open>max_length\<close> the bound wraps around, and
  no path is returned.)
\<close>

theorem find_paths_with_length_correct:
  assumes "wf_graph gs"
  shows "\<exists>paths gs'. find_paths_with_length a b l gs =
      (Inr \<lparr>columns = [''path_length'', ''path''],
            rows = map (\<lambda>p. [nat_string (length p - 1), path_string p]) paths\<rparr>, gs') \<and>
    same_graph gs gs' \<and> distinct paths \<and>
    set paths =
      (if l = - 1 then {}
       else {p. path_between (pg_neighbours (abs_graph gs)) a b p \<and> distinct p \<and>
                1 \<le> length p - 1 \<and> length p - 1 \<le> unat l})"
proof -
  obtain paths gs' where p:
    "bfs_paths_with_length get_adjacent_nodes a b l gs = (Inr paths, gs')" "same_graph gs gs'"
    "distinct paths"
    "set paths = {p. path_between (neighbours gs) a b p \<and> distinct p \<and> 1 < length p \<and>
                     length p \<le> unat (l + 1)}"
    using graph_neighbours.paths_with_length [OF assms] by blast
  have "set paths =
      (if l = - 1 then {}
       else {p. path_between (pg_neighbours (abs_graph gs)) a b p \<and> distinct p \<and>
                1 \<le> length p - 1 \<and> length p - 1 \<le> unat l})"
    unfolding p(4) neighbours_pg using unat_plus1 [of l] by auto
  moreover have "path_row = (\<lambda>p. [nat_string (length p - 1), path_string p])"
    by (simp add: fun_eq_iff path_row_def)
  ultimately show ?thesis
    using p(1-3) by (auto simp: find_paths_with_length_def foldl_add_row result_eq)
qed

lemma find_paths_with_length_correct_witness:
  "\<exists>gs'. find_paths_with_length 1 2 1 example_db =
      (Inr \<lparr>columns = [''path_length'', ''path''], rows = [[''1'', ''1 -> 2'']]\<rparr>, gs')"
proof -
  obtain paths gs' where p: "find_paths_with_length 1 2 1 example_db =
      (Inr \<lparr>columns = [''path_length'', ''path''],
            rows = map (\<lambda>p. [nat_string (length p - 1), path_string p]) paths\<rparr>, gs')"
    "distinct paths"
    "set paths = {p. path_between (pg_neighbours (abs_graph example_db)) 1 2 p \<and> distinct p \<and>
                     1 \<le> length p - 1 \<and> length p - 1 \<le> unat (1 :: u64)}"
  proof -
    have "(1 :: u64) \<noteq> - 1" by simp
    then show ?thesis
      using that find_paths_with_length_correct [OF example_db(1), of 1 2 1]
      unfolding if_not_P [OF \<open>(1 :: u64) \<noteq> - 1\<close>] by blast
  qed
  have "q \<in> set paths \<longleftrightarrow> q = [1, 2]" for q
  proof
    assume "q \<in> set paths"
    then have "path_between (pg_neighbours (abs_graph example_db)) 1 2 q \<and> length q \<le> 2"
      unfolding p(3) by simp linarith
    then show "q = [1, 2]" using example_paths by blast
  next
    assume "q = [1, 2]"
    then show "q \<in> set paths" using example_paths [of q] unfolding p(3) by simp
  qed
  then have "set paths = {[1, 2]}" by blast
  then have "paths = [[1, 2]]" using p(2) by (simp add: distinct_singleton_list)
  then show ?thesis using p(1) by (simp add: path_string_def example_strings)
qed

text \<open>
  C8. \<open>get_all_nodes\<close> and \<open>get_all_edges\<close> return, for every limit but the largest, one row
  for each node or edge with an id up to the limit, in the order of the ids. The limit bounds
  the ids: what has a larger id is left out even when fewer rows than the limit are returned.
\<close>

theorem get_all_correct:
  assumes "wf_graph gs" and "limit \<noteq> - 1"
  shows "(\<exists>gs'. get_all_nodes limit gs =
            Some (Inr \<lparr>columns = [''id'', ''properties''],
                       rows = pg_node_rows (abs_graph gs) (ids_upto limit)\<rparr>, gs') \<and>
          same_graph gs gs') \<and>
    (\<exists>gs'. get_all_edges limit gs =
       Some (Inr \<lparr>columns = [''id'', ''from_node'', ''to_node'', ''properties''],
                  rows = pg_edge_rows (abs_graph gs) (ids_upto limit)\<rparr>, gs') \<and>
     same_graph gs gs')"
  using node_loader.scan_rows_ok [OF assms(2,1), of 1 "new_QueryResult [''id'', ''properties'']" node_row]
    edge_loader.scan_rows_ok [OF assms(2,1), of 1
      "new_QueryResult [''id'', ''from_node'', ''to_node'', ''properties'']" edge_row]
  by (simp add: get_all_nodes_def get_all_edges_def node_rows_pg [OF assms(1)] edge_rows_pg [OF assms(1)]
      ids_upto_def result_eq del: upt_Suc)

lemma get_all_correct_witness:
  "(\<exists>gs'. get_all_nodes 3 example_db =
      Some (Inr \<lparr>columns = [''id'', ''properties''],
                 rows = [[''1'', ''name:a''], [''2'', ''age:3'']]\<rparr>, gs')) \<and>
   (\<exists>gs'. get_all_edges 3 example_db =
      Some (Inr \<lparr>columns = [''id'', ''from_node'', ''to_node'', ''properties''],
                 rows = [[''1'', ''1'', ''2'', []]]\<rparr>, gs'))"
proof -
  have three: "ids_upto 3 = [1, 2, 3]" by (simp add: ids_upto_def upt_rec)
  have "(3 :: u64) \<noteq> - 1" by simp
  from get_all_correct [OF example_db(1) this] show ?thesis
    unfolding three example_rows by blast
qed

text \<open>
  The batch queries and the queries by a property return one row for each id that exists,
  in the order of the list or of the index, and skip the others.
\<close>

theorem query_by_ids_correct:
  assumes "wf_graph gs"
  shows "(\<exists>gs'. batch_get_nodes ids gs =
            (Inr \<lparr>columns = [''id'', ''properties''], rows = pg_node_rows (abs_graph gs) ids\<rparr>, gs') \<and>
          same_graph gs gs') \<and>
    (\<exists>gs'. batch_get_edges ids gs =
       (Inr \<lparr>columns = [''id'', ''from_node'', ''to_node'', ''properties''],
             rows = pg_edge_rows (abs_graph gs) ids\<rparr>, gs') \<and> same_graph gs gs') \<and>
    (\<exists>gs'. get_nodes_by_property k v im gs =
       (Inr \<lparr>columns = [''id'', ''properties''],
             rows = pg_node_rows (abs_graph gs) (find_nodes_by_property k v im)\<rparr>, gs') \<and>
     same_graph gs gs') \<and>
    (\<exists>gs'. get_edges_by_property k v im gs =
       (Inr \<lparr>columns = [''id'', ''from_node'', ''to_node'', ''properties''],
             rows = pg_edge_rows (abs_graph gs) (find_edges_by_property k v im)\<rparr>, gs') \<and>
     same_graph gs gs')"
  using node_loader.add_rows_ok [OF assms, where q = "new_QueryResult [''id'', ''properties'']" and row = node_row]
    edge_loader.add_rows_ok [OF assms,
      where q = "new_QueryResult [''id'', ''from_node'', ''to_node'', ''properties'']" and row = edge_row]
  by (simp add: batch_get_nodes_def batch_get_edges_def get_nodes_by_property_def
      get_edges_by_property_def node_rows_pg [OF assms] edge_rows_pg [OF assms] result_eq)

lemma query_by_ids_correct_witness:
  "(\<exists>gs'. batch_get_nodes [2, 7] example_db =
      (Inr \<lparr>columns = [''id'', ''properties''], rows = [[''2'', ''age:3'']]\<rparr>, gs')) \<and>
   (\<exists>gs'. batch_get_edges [1, 2] example_db =
      (Inr \<lparr>columns = [''id'', ''from_node'', ''to_node'', ''properties''],
            rows = [[''1'', ''1'', ''2'', []]]\<rparr>, gs'))"
proof -
  have "\<exists>gs'. batch_get_nodes [2, 7] example_db =
      (Inr \<lparr>columns = [''id'', ''properties''], rows = [[''2'', ''age:3'']]\<rparr>, gs')"
    using query_by_ids_correct [OF example_db(1), of "[2, 7]", THEN conjunct1]
    unfolding example_rows by blast
  moreover have "\<exists>gs'. batch_get_edges [1, 2] example_db =
      (Inr \<lparr>columns = [''id'', ''from_node'', ''to_node'', ''properties''],
            rows = [[''1'', ''1'', ''2'', []]]\<rparr>, gs')"
    using query_by_ids_correct [OF example_db(1), of "[1, 2]", THEN conjunct2, THEN conjunct1]
    unfolding example_rows by blast
  ultimately show ?thesis by blast
qed

end
