(* ===== verification/CypherReads.thy ===== *)
theory CypherReads
  imports CypherExecutor QueryResults
begin

text \<open>
  Reading queries: what matching, conditions and \<open>RETURN\<close> compute, as functions of the graph
  the transaction sees. \<open>reads_as gs m v\<close> states that a computation yields \<open>v\<close> on the store
  and on every store that no reading can tell from it, and leaves such a store; its rules
  follow the structure of the code.
\<close>

section \<open>A calculus of reading computations\<close>

named_theorems reads \<open>rules for reading computations\<close>

definition outcome_is :: "GraphStore \<Rightarrow> 'a io \<Rightarrow> 'a result \<Rightarrow> bool" where
  "outcome_is gs m r \<longleftrightarrow>
     (\<forall>s. same_graph gs s \<longrightarrow> (\<exists>s'. m s = Some (r, s') \<and> same_graph gs s'))"

abbreviation reads_as :: "GraphStore \<Rightarrow> 'a io \<Rightarrow> 'a \<Rightarrow> bool" where
  "reads_as gs m v \<equiv> outcome_is gs m (Inr v)"

text \<open>The computation ends with an error value.\<close>

abbreviation fails_as :: "GraphStore \<Rightarrow> 'a io \<Rightarrow> error \<Rightarrow> bool" where
  "fails_as gs m e \<equiv> outcome_is gs m (Inl e)"

lemma reads_ret [reads]: "reads_as gs (ret v) v"
  by (simp add: outcome_is_def ret_def)

lemma reads_ret_eq: "v = w \<Longrightarrow> reads_as gs (ret v) w"
  by (simp add: reads_ret)

lemma fails_fail [reads]: "fails_as gs (fail e) e"
  by (simp add: outcome_is_def fail_def)

lemma reads_bind [reads]: "reads_as gs m x \<Longrightarrow> outcome_is gs (f x) r \<Longrightarrow> outcome_is gs (bind_io m f) r"
  by (fastforce simp: outcome_is_def bind_io_def)

lemma fails_bind: "fails_as gs m e \<Longrightarrow> fails_as gs (bind_io m f) e"
  by (fastforce simp: outcome_is_def bind_io_def)

lemma reads_attempt [reads]:
  "reads_as gs m x \<Longrightarrow> outcome_is gs (f x) r \<Longrightarrow> outcome_is gs (attempt m f h) r"
  by (fastforce simp: outcome_is_def attempt_def)

lemma fails_attempt:
  "fails_as gs m e \<Longrightarrow> \<not> abrupt e \<Longrightarrow> outcome_is gs (h e) r \<Longrightarrow> outcome_is gs (attempt m f h) r"
  by (fastforce simp: outcome_is_def attempt_def)

text \<open>A loop whose body reads is a fold.\<close>

lemma reads_for_each:
  assumes "\<And>x a. x \<in> set xs \<Longrightarrow> reads_as gs (body x a) (g x a)"
  shows "reads_as gs (for_each xs acc body) (fold g xs acc)"
  using assms
proof (induction xs arbitrary: acc)
  case (Cons x xs)
  then show ?case by (auto intro!: reads_bind)
qed (simp add: reads_ret)

text \<open>A loop that appends what each element contributes.\<close>

lemma fold_append: "fold (\<lambda>x a. a @ f x) xs acc = acc @ concat (map f xs)"
  by (induction xs arbitrary: acc) simp_all

lemma reads_for_each_append:
  assumes "\<And>x a. x \<in> set xs \<Longrightarrow> reads_as gs (body x a) (a @ f x)"
  shows "reads_as gs (for_each xs acc body) (acc @ concat (map f xs))"
  using reads_for_each [of xs gs body "\<lambda>x a. a @ f x" acc] assms by (simp add: fold_append)

section \<open>What a transaction sees\<close>

definition seen_node :: "transaction_id \<Rightarrow> GraphStore \<Rightarrow> node_id \<rightharpoonup> NodeRecord \<times> Property list" where
  "seen_node tx gs n =
     (case mvcc_manager gs of
        None \<Rightarrow> node_at gs n
      | Some m \<Rightarrow>
          (case read_version n tx m of
             Inr ver \<Rightarrow>
               (case ver_data ver of
                  NodeData nr \<Rightarrow> Some (nr, ver_properties ver)
                | EdgeData er \<Rightarrow> node_at gs n)
           | Inl e \<Rightarrow> None))"

definition seen_edge :: "transaction_id \<Rightarrow> GraphStore \<Rightarrow> edge_id \<rightharpoonup> EdgeRecord \<times> Property list" where
  "seen_edge tx gs e =
     (case mvcc_manager gs of
        None \<Rightarrow> edge_at gs e
      | Some m \<Rightarrow>
          (case read_version e tx m of
             Inr ver \<Rightarrow>
               (case ver_data ver of
                  EdgeData er \<Rightarrow> Some (er, ver_properties ver)
                | NodeData nr \<Rightarrow> edge_at gs e)
           | Inl err \<Rightarrow> None))"

lemma seen_same:
  assumes "same_graph gs s"
  shows "seen_node tx s = seen_node tx gs" "seen_edge tx s = seen_edge tx gs"
  unfolding fun_eq_iff seen_node_def seen_edge_def same_graphD(1,2,10) [OF assms] by blast+

lemma read_version_error:
  "read_version k tx m = Inl e \<Longrightarrow> \<exists>msg. e = MVCCError MVCC_NOT_FOUND msg"
  by (auto simp: read_version_def split: option.splits)

lemma fetch_node_outcome:
  assumes "wf_graph gs"
  shows "\<exists>r s. fetch_node tx n gs = Some (r, s) \<and> same_graph gs s \<and>
           (case seen_node tx gs n of Some x \<Rightarrow> r = Inr x | None \<Rightarrow> \<exists>msg. r = Inl (Error NOT_FOUND msg))"
proof -
  have stored: "\<exists>r s. get_node n gs = (r, s) \<and> same_graph gs s \<and>
      (case node_at gs n of Some x \<Rightarrow> r = Inr x | None \<Rightarrow> \<exists>msg. r = Inl (Error NOT_FOUND msg))"
    using get_node_found [OF assms] get_node_missing [OF assms] same_graph_refl [OF assms]
    by (cases "node_at gs n") auto
  show ?thesis
    using stored same_graph_refl [OF assms]
    by (auto simp: fetch_node_def lift_def has_mvcc_def get_node_tx_def seen_node_def
        dest!: read_version_error split: option.splits sum.splits version_data.splits)
qed

lemma fetch_edge_outcome:
  assumes "wf_graph gs"
  shows "\<exists>r s. fetch_edge tx n gs = Some (r, s) \<and> same_graph gs s \<and>
           (case seen_edge tx gs n of Some x \<Rightarrow> r = Inr x | None \<Rightarrow> \<exists>msg. r = Inl (Error NOT_FOUND msg))"
proof -
  have stored: "\<exists>r s. get_edge n gs = (r, s) \<and> same_graph gs s \<and>
      (case edge_at gs n of Some x \<Rightarrow> r = Inr x | None \<Rightarrow> \<exists>msg. r = Inl (Error NOT_FOUND msg))"
    using get_edge_found [OF assms] get_edge_missing [OF assms] same_graph_refl [OF assms]
    by (cases "edge_at gs n") auto
  show ?thesis
    using stored same_graph_refl [OF assms]
    by (auto simp: fetch_edge_def lift_def has_mvcc_def get_edge_tx_def seen_edge_def
        dest!: read_version_error split: option.splits sum.splits version_data.splits)
qed

text \<open>Testing whether a node or an edge is there.\<close>

lemma attempt_fetch_node [reads]:
  assumes "wf_graph gs"
    and "\<And>x. seen_node tx gs n = Some x \<Longrightarrow> outcome_is gs (f x) r"
    and "\<And>msg. seen_node tx gs n = None \<Longrightarrow> outcome_is gs (h (Error NOT_FOUND msg)) r"
  shows "outcome_is gs (attempt (fetch_node tx n) f h) r"
  unfolding outcome_is_def
proof (intro allI impI)
  fix s assume s: "same_graph gs s"
  obtain q t where t: "fetch_node tx n s = Some (q, t)" "same_graph s t"
    "case seen_node tx gs n of Some x \<Rightarrow> q = Inr x | None \<Rightarrow> \<exists>msg. q = Inl (Error NOT_FOUND msg)"
    using fetch_node_outcome [OF same_graph_wf [OF s assms(1)], of tx n] by (auto simp: seen_same [OF s])
  note st = same_graph_trans [OF s t(2)]
  show "\<exists>s'. attempt (fetch_node tx n) f h s = Some (r, s') \<and> same_graph gs s'"
  proof (cases "seen_node tx gs n")
    case None
    then show ?thesis using t st assms(3) by (fastforce simp: attempt_def abrupt_def outcome_is_def)
  next
    case (Some x)
    then show ?thesis using t st assms(2) by (fastforce simp: attempt_def outcome_is_def)
  qed
qed

lemma attempt_fetch_edge [reads]:
  assumes "wf_graph gs"
    and "\<And>x. seen_edge tx gs n = Some x \<Longrightarrow> outcome_is gs (f x) r"
    and "\<And>msg. seen_edge tx gs n = None \<Longrightarrow> outcome_is gs (h (Error NOT_FOUND msg)) r"
  shows "outcome_is gs (attempt (fetch_edge tx n) f h) r"
  unfolding outcome_is_def
proof (intro allI impI)
  fix s assume s: "same_graph gs s"
  obtain q t where t: "fetch_edge tx n s = Some (q, t)" "same_graph s t"
    "case seen_edge tx gs n of Some x \<Rightarrow> q = Inr x | None \<Rightarrow> \<exists>msg. q = Inl (Error NOT_FOUND msg)"
    using fetch_edge_outcome [OF same_graph_wf [OF s assms(1)], of tx n] by (auto simp: seen_same [OF s])
  note st = same_graph_trans [OF s t(2)]
  show "\<exists>s'. attempt (fetch_edge tx n) f h s = Some (r, s') \<and> same_graph gs s'"
  proof (cases "seen_edge tx gs n")
    case None
    then show ?thesis using t st assms(3) by (fastforce simp: attempt_def abrupt_def outcome_is_def)
  next
    case (Some x)
    then show ?thesis using t st assms(2) by (fastforce simp: attempt_def outcome_is_def)
  qed
qed

section \<open>Matching nodes\<close>

text \<open>The pattern holds of a node the transaction sees.\<close>

definition node_fits :: "transaction_id \<Rightarrow> GraphStore \<Rightarrow> NodePattern \<Rightarrow> node_id \<Rightarrow> bool" where
  "node_fits tx gs pattern n \<longleftrightarrow>
     (case seen_node tx gs n of
        None \<Rightarrow> False
      | Some (record, ps) \<Rightarrow> matches_property_constraints (node_constraints pattern) ps)"

lemma matches_node_pattern_reads [reads]:
  "wf_graph gs \<Longrightarrow> reads_as gs (matches_node_pattern pattern n tx) (node_fits tx gs pattern n)"
  unfolding matches_node_pattern_def by (intro reads) (auto simp: node_fits_def intro: reads)

lemma scan_nodes_reads:
  assumes wf: "wf_graph gs" and "limit \<noteq> - 1"
  shows "same_graph gs s \<Longrightarrow> 1 \<le> i \<Longrightarrow>
    \<exists>s'. scan_nodes tx keep limit i acc s =
      Some (Inr (acc @ filter (\<lambda>n. case seen_node tx gs n of None \<Rightarrow> False | Some (r, ps) \<Rightarrow> keep ps)
                         (map word_of_nat [unat i ..< Suc (unat limit)])), s') \<and> same_graph gs s'"
proof (induction "Suc (unat limit) - unat i" arbitrary: i acc s)
  case 0
  then have "\<not> i \<le> limit" by (simp add: word_le_nat_alt)
  moreover have "[unat i ..< Suc (unat limit)] = []" using 0 by simp
  ultimately show ?case using 0(2) by (subst scan_nodes.simps) (simp del: upt_Suc)
next
  case (Suc n)
  have le: "i \<le> limit" using Suc(2) by (simp add: word_le_nat_alt)
  have more: "i \<noteq> - 1" using le assms(2) by (metis word_order.extremum_unique)
  have next1: "n = Suc (unat limit) - unat (i + 1)" "1 \<le> i + 1"
    using unat_plus1 [OF more] Suc(2) by (simp_all add: word_le_nat_alt)
  obtain q t where t: "fetch_node tx i s = Some (q, t)" "same_graph s t"
    "case seen_node tx gs i of Some x \<Rightarrow> q = Inr x | None \<Rightarrow> \<exists>msg. q = Inl (Error NOT_FOUND msg)"
    using fetch_node_outcome [OF same_graph_wf [OF Suc(3) wf], of tx i] by (auto simp: seen_same [OF Suc(3)])
  note IH = Suc(1) [OF next1(1) same_graph_trans [OF Suc(3) t(2)] next1(2)]
  show ?case
    using t le IH [of acc] IH [of "acc @ [i]"]
    by (subst scan_nodes.simps)
      (auto simp: ids_from [OF le assms(2)] abrupt_def split: option.splits simp del: upt_Suc)
qed

text \<open>The nodes a pattern finds: those with ids up to the number of nodes.\<close>

definition found_nodes :: "transaction_id \<Rightarrow> GraphStore \<Rightarrow> NodePattern \<Rightarrow> node_id list" where
  "found_nodes tx gs pattern = filter (node_fits tx gs pattern) (ids_upto (node_count gs))"

lemma find_nodes_by_pattern_reads [reads]:
  assumes "wf_graph gs" and "node_count gs \<noteq> - 1"
  shows "reads_as gs (find_nodes_by_pattern pattern tx) (found_nodes tx gs pattern)"
  unfolding outcome_is_def
proof (intro allI impI)
  fix s assume s: "same_graph gs s"
  have "node_constraints pattern = [] \<Longrightarrow>
      (\<lambda>ps. True) = matches_property_constraints (node_constraints pattern)"
    by (simp add: fun_eq_iff matches_property_constraints_def)
  then have keep: "(if node_constraints pattern \<noteq> []
      then matches_property_constraints (node_constraints pattern) else (\<lambda>ps. True)) =
      matches_property_constraints (node_constraints pattern)" by simp
  show "\<exists>s'. find_nodes_by_pattern pattern tx s = Some (Inr (found_nodes tx gs pattern), s') \<and>
      same_graph gs s'"
    using scan_nodes_reads [OF assms s, of 1 tx "matches_property_constraints (node_constraints pattern)" "[]"]
    unfolding find_nodes_by_pattern_def keep
    by (simp add: get_node_count_def same_graphD(12) [OF s] found_nodes_def node_fits_def [abs_def]
        ids_upto_def del: upt_Suc)
qed

lemma match_node_reads [reads]:
  assumes "wf_graph gs" and "node_count gs \<noteq> - 1"
  shows "reads_as gs (match_node pattern tx)
    (map (\<lambda>n. bind_variable (node_variable pattern) (NodeBinding n) []) (found_nodes tx gs pattern))"
  unfolding match_node_def by (rule reads_bind [OF find_nodes_by_pattern_reads [OF assms] reads_ret])

section \<open>Matching edges\<close>

text \<open>The listed edges of a node that the transaction sees and the pattern admits.\<close>

definition listed :: "GraphStore \<Rightarrow> EdgePattern \<Rightarrow> node_id \<Rightarrow> edge_id list" where
  "listed gs pattern n =
     get_outgoing_edges n gs @ (if directed pattern then [] else get_incoming_edges n gs)"

definition edge_fits :: "transaction_id \<Rightarrow> GraphStore \<Rightarrow> EdgePattern \<Rightarrow> edge_id \<Rightarrow> bool" where
  "edge_fits tx gs pattern e \<longleftrightarrow>
     (case seen_edge tx gs e of None \<Rightarrow> False | Some (record, ps) \<Rightarrow> matches_edge_pattern pattern ps)"

definition found_edges :: "transaction_id \<Rightarrow> GraphStore \<Rightarrow> EdgePattern \<Rightarrow> node_id \<Rightarrow> edge_id list" where
  "found_edges tx gs pattern n = filter (edge_fits tx gs pattern) (listed gs pattern n)"

lemma filter_concat: "filter P xs = concat (map (\<lambda>x. if P x then [x] else []) xs)"
  by (induction xs) simp_all

lemma find_edges_by_pattern_reads [reads]:
  assumes "wf_graph gs"
  shows "reads_as gs (find_edges_by_pattern pattern n 0 tx) (found_edges tx gs pattern n)"
  unfolding outcome_is_def
proof (intro allI impI)
  fix s assume s: "same_graph gs s"
  have listed: "get_outgoing_edges n s @ (if directed pattern then [] else get_incoming_edges n s) =
      listed gs pattern n"
    by (simp add: listed_def get_outgoing_edges_def get_incoming_edges_def same_graphD(3,4) [OF s])
  let ?body = "\<lambda>edge_id filtered.
    attempt (fetch_edge tx edge_id)
      (\<lambda>(record, properties).
         ret (if matches_edge_pattern pattern properties \<and>
                 ((0 :: u64) = 0 \<or> to_node record = 0 \<or> (\<not> directed pattern \<and> from_node record = 0))
              then filtered @ [edge_id] else filtered))
      (\<lambda>e. ret filtered)"
  have "reads_as gs (?body e a) (a @ (if edge_fits tx gs pattern e then [e] else []))" for e a
    using assms by (intro attempt_fetch_edge) (auto simp: edge_fits_def intro: reads)
  then have "reads_as gs (for_each (listed gs pattern n) [] ?body) (found_edges tx gs pattern n)"
    unfolding found_edges_def filter_concat by (subst append_Nil [symmetric]) (rule reads_for_each_append)
  then show "\<exists>s'. find_edges_by_pattern pattern n 0 tx s = Some (Inr (found_edges tx gs pattern n), s') \<and>
      same_graph gs s'"
    using s unfolding outcome_is_def find_edges_by_pattern_def listed by blast
qed

text \<open>
  What an edge adds to a row: its end is always taken to be the node it points to, in an
  undirected pattern too.
\<close>

definition rows_for_edge ::
  "transaction_id \<Rightarrow> GraphStore \<Rightarrow> EdgePattern \<Rightarrow> NodePattern \<Rightarrow> VariableMap \<Rightarrow> edge_id \<Rightarrow> ResultSet" where
  "rows_for_edge tx gs edge to_pattern row e =
     (case seen_edge tx gs e of
        None \<Rightarrow> []
      | Some (record, ps) \<Rightarrow>
          if \<not> node_fits tx gs to_pattern (to_node record) then []
          else
            (let new_row = bind_variable (edge_variable edge) (EdgeBinding e) row
             in (case node_variable to_pattern of
                   None \<Rightarrow> [new_row]
                 | Some v \<Rightarrow>
                     (case map_of new_row v of
                        None \<Rightarrow> [AList.update v (NodeBinding (to_node record)) new_row]
                      | Some b \<Rightarrow> if b = NodeBinding (to_node record) then [new_row] else []))))"

lemma expand_edge_reads:
  assumes "wf_graph gs"
  shows "reads_as gs (expand_edge edge to_pattern tx row e results)
           (results @ rows_for_edge tx gs edge to_pattern row e)"
  unfolding expand_edge_def
proof (rule attempt_fetch_edge [OF assms])
  fix x assume "seen_edge tx gs e = Some x"
  then show "reads_as gs
      ((\<lambda>(record, properties).
          bind_io (matches_node_pattern to_pattern (to_node record) tx)
            (\<lambda>matches.
               if \<not> matches then ret results
               else
                 let new_row = bind_variable (edge_variable edge) (EdgeBinding e) row
                 in case node_variable to_pattern of
                      None \<Rightarrow> ret (results @ [new_row])
                    | Some v \<Rightarrow>
                        (case map_of new_row v of
                           None \<Rightarrow>
                             ret (results @ [AList.update v (NodeBinding (to_node record)) new_row])
                         | Some b \<Rightarrow>
                             if b = NodeBinding (to_node record) then ret (results @ [new_row])
                             else ret results))) x)
      (results @ rows_for_edge tx gs edge to_pattern row e)"
    by (auto simp: rows_for_edge_def Let_def split: prod.splits option.splits
        intro!: reads_bind [OF matches_node_pattern_reads [OF assms]] reads)
qed (auto simp: rows_for_edge_def intro: reads)

definition expanded ::
  "transaction_id \<Rightarrow> GraphStore \<Rightarrow> string \<Rightarrow> EdgePattern \<Rightarrow> NodePattern \<Rightarrow> VariableMap \<Rightarrow> ResultSet" where
  "expanded tx gs v edge to_pattern row =
     (case map_of row v of
        Some (NodeBinding n) \<Rightarrow>
          concat (map (rows_for_edge tx gs edge to_pattern row) (found_edges tx gs edge n))
      | _ \<Rightarrow> [])"

lemma expand_results_reads:
  assumes "wf_graph gs" and "node_variable from_pattern = Some v"
  shows "reads_as gs (expand_results previous from_pattern edge to_pattern tx)
           (concat (map (expanded tx gs v edge to_pattern) previous))"
proof -
  have "reads_as gs
      (case map_of row v of
         Some (NodeBinding from_id) \<Rightarrow>
           attempt (find_edges_by_pattern edge from_id 0 tx)
             (\<lambda>edge_ids. for_each edge_ids results (expand_edge edge to_pattern tx row))
             (\<lambda>e. ret results)
       | _ \<Rightarrow> ret results) (results @ expanded tx gs v edge to_pattern row)" for row results
    by (auto simp: expanded_def split: option.splits VariableBinding.splits
        intro!: reads reads_attempt [OF find_edges_by_pattern_reads [OF assms(1)]]
          reads_for_each_append expand_edge_reads assms(1))
  then show ?thesis
    unfolding expand_results_def assms(2) option.case
    by (subst append_Nil [symmetric]) (rule reads_for_each_append)
qed

section \<open>Chains of edges\<close>

fun chain_rows ::
  "transaction_id \<Rightarrow> GraphStore \<Rightarrow> NodePattern list \<Rightarrow> EdgePattern list \<Rightarrow> ResultSet \<Rightarrow> ResultSet" where
  "chain_rows tx gs (from_pattern # to_pattern # nodes) (edge # rels) found =
     chain_rows tx gs (to_pattern # nodes) rels
       (concat (map (expanded tx gs (the (node_variable from_pattern)) edge to_pattern) found))"
| "chain_rows tx gs nodes rels found = found"

lemma chain_rows_Nil: "chain_rows tx gs nodes rels [] = []"
  by (induction tx gs nodes rels "[] :: ResultSet" rule: chain_rows.induct) simp_all

text \<open>A pattern without a variable length in which every edge starts at a named node.\<close>

definition plain_pattern :: "Pattern \<Rightarrow> bool" where
  "plain_pattern p \<longleftrightarrow>
     length (pattern_nodes p) = Suc (length (pattern_edges p)) \<and>
     list_all (\<lambda>n. node_variable n \<noteq> None) (butlast (pattern_nodes p)) \<and>
     list_all (\<lambda>e. min_hops e = 1 \<and> max_hops e = 1) (pattern_edges p)"

lemma expand_chain_reads:
  assumes "wf_graph gs"
  shows "length nodes = Suc (length rels) \<Longrightarrow> list_all (\<lambda>n. node_variable n \<noteq> None) (butlast nodes) \<Longrightarrow>
    reads_as gs (expand_chain nodes rels found tx) (chain_rows tx gs nodes rels found)"
proof (induction nodes rels found tx rule: expand_chain.induct)
  case (2 from_pattern to_pattern nodes edge rels found tx)
  obtain v where v: "node_variable from_pattern = Some v" using 2(3) by auto
  let ?next = "concat (map (expanded tx gs v edge to_pattern) found)"
  have "reads_as gs
      (if ?next = [] then ret ?next else expand_chain (to_pattern # nodes) rels ?next tx)
      (chain_rows tx gs (to_pattern # nodes) rels ?next)"
  proof (cases "?next = []")
    case True
    show ?thesis unfolding True chain_rows_Nil by (simp add: reads_ret)
  next
    case False
    have "reads_as gs (expand_chain (to_pattern # nodes) rels ?next tx)
        (chain_rows tx gs (to_pattern # nodes) rels ?next)"
      by (rule 2(1)) (use False 2(2,3) v in auto)
    then show ?thesis using False by (simp only: if_False)
  qed
  then show ?case
    using v by (auto intro!: reads_bind [OF expand_results_reads [OF assms v]])
qed (auto intro: reads)

definition pattern_rows :: "transaction_id \<Rightarrow> GraphStore \<Rightarrow> Pattern \<Rightarrow> ResultSet" where
  "pattern_rows tx gs p =
     chain_rows tx gs (pattern_nodes p) (pattern_edges p)
       (map (\<lambda>n. bind_variable (node_variable (hd (pattern_nodes p))) (NodeBinding n) [])
         (found_nodes tx gs (hd (pattern_nodes p))))"

lemma match_pattern_reads:
  assumes "wf_graph gs" and "node_count gs \<noteq> - 1" and "plain_pattern p"
  shows "reads_as gs (match_pattern p tx) (pattern_rows tx gs p)"
proof -
  obtain node nodes where n: "pattern_nodes p = node # nodes"
    using assms(3) by (cases "pattern_nodes p") (auto simp: plain_pattern_def)
  note start = match_node_reads [OF assms(1,2), where tx = tx]
  show ?thesis
  proof (cases "pattern_edges p")
    case Nil
    then have "nodes = []" using assms(3) n by (simp add: plain_pattern_def)
    then show ?thesis using Nil n start by (simp add: match_pattern_def pattern_rows_def)
  next
    case (Cons edge rels)
    then have "match_pattern p tx =
        bind_io (match_node node tx) (\<lambda>found. expand_chain (node # nodes) (edge # rels) found tx)"
      using assms(3) n by (cases nodes) (auto simp: match_pattern_def plain_pattern_def)
    moreover have "reads_as gs \<dots> (pattern_rows tx gs p)"
      unfolding pattern_rows_def n Cons list.sel
      using assms(3) n Cons
      by (intro reads_bind [OF start] expand_chain_reads [OF assms(1)]) (auto simp: plain_pattern_def)
    ultimately show ?thesis by simp
  qed
qed

section \<open>Values and conditions\<close>

text \<open>The value of an expression in a row; \<open>None\<close> where the evaluator reports an error.\<close>

definition expr_value :: "transaction_id \<Rightarrow> GraphStore \<Rightarrow> VariableMap \<Rightarrow> Expression \<Rightarrow> cypher_value option" where
  "expr_value tx gs row expr =
     (case expr of
        Literal v \<Rightarrow> Some v
      | Identifier name \<Rightarrow>
          map_option
            (\<lambda>b. case b of LiteralBinding v \<Rightarrow> v | NodeBinding i \<Rightarrow> StrVal (u64_string i)
                         | EdgeBinding i \<Rightarrow> StrVal (u64_string i))
            (map_of row name)
      | PropertyAccess entity property \<Rightarrow>
          (case map_of row entity of
             Some (NodeBinding n) \<Rightarrow>
               (case seen_node tx gs n of
                  None \<Rightarrow> None
                | Some (record, ps) \<Rightarrow>
                    map_option (value_of_storage \<circ> prop_value) (find_property property ps))
           | _ \<Rightarrow> None)
      | _ \<Rightarrow> None)"

lemma evaluate_expression_outcome:
  assumes "wf_graph gs"
  shows "case expr_value tx gs row expr of
           Some v \<Rightarrow> reads_as gs (evaluate_expression expr row tx) v
         | None \<Rightarrow> \<exists>msg. fails_as gs (evaluate_expression expr row tx) (Error INVALID_ARGUMENT msg)"
proof (cases expr)
  case (PropertyAccess entity property)
  show ?thesis
  proof (cases "\<exists>n. map_of row entity = Some (NodeBinding n)")
    case True
    then obtain n where n: "map_of row entity = Some (NodeBinding n)" by blast
    let ?missing = "invalid_argument (''Property not found: '' @ entity @ ''.'' @ property)"
    have "outcome_is gs (evaluate_expression expr row tx)
        (case expr_value tx gs row expr of Some v \<Rightarrow> Inr v | None \<Rightarrow> Inl ?missing)"
      unfolding evaluate_expression_def PropertyAccess
      using n by (auto simp: expr_value_def PropertyAccess Let_def split: option.splits prod.splits
        intro!: attempt_fetch_node [OF assms] reads_ret_eq fails_fail)
    then show ?thesis by (auto simp: invalid_argument_def split: option.splits)
  next
    case False
    then show ?thesis
      by (auto simp: PropertyAccess expr_value_def evaluate_expression_def invalid_argument_def Let_def
          split: option.splits VariableBinding.splits intro: reads)
  qed
qed (auto simp: expr_value_def evaluate_expression_def invalid_argument_def
      split: option.splits VariableBinding.splits intro: reads)

lemma attempt_evaluate:
  assumes "wf_graph gs"
    and "\<And>v. expr_value tx gs row expr = Some v \<Longrightarrow> outcome_is gs (f v) r"
    and "\<And>e. expr_value tx gs row expr = None \<Longrightarrow> outcome_is gs (h e) r"
  shows "outcome_is gs (attempt (evaluate_expression expr row tx) f h) r"
  using evaluate_expression_outcome [OF assms(1), where tx = tx and row = row and expr = expr] assms(2,3)
  by (auto simp: abrupt_def split: option.splits intro: reads_attempt fails_attempt)

text \<open>Conditions have two values: what cannot be evaluated inside one counts as false.\<close>

primrec truth :: "transaction_id \<Rightarrow> GraphStore \<Rightarrow> VariableMap \<Rightarrow> Expression \<Rightarrow> bool" where
  "truth tx gs row (Comparison left op right) =
     (case (expr_value tx gs row left, expr_value tx gs row right) of
        (Some a, Some b) \<Rightarrow> compare_values op a b
      | _ \<Rightarrow> False)"
| "truth tx gs row (LogicalAnd left right) = (truth tx gs row left \<and> truth tx gs row right)"
| "truth tx gs row (LogicalOr left right) = (truth tx gs row left \<or> truth tx gs row right)"
| "truth tx gs row (LogicalNot e) = False"
| "truth tx gs row (Literal v) = False"
| "truth tx gs row (PropertyAccess entity property) = False"
| "truth tx gs row (Identifier name) = False"

definition is_condition :: "Expression \<Rightarrow> bool" where
  "is_condition e \<longleftrightarrow> expr_type e \<in> {COMPARISON, LOGICAL_AND, LOGICAL_OR}"

lemma is_true_reads:
  assumes "outcome_is gs (evaluate_boolean_expression e row tx)
    (if is_condition e then Inr (truth tx gs row e)
     else Inl (invalid_argument ''Boolean expression type not implemented''))"
  shows "reads_as gs (is_true (evaluate_boolean_expression e row tx)) (truth tx gs row e)"
  using assms unfolding is_true_def
  by (cases e) (auto simp: is_condition_def invalid_argument_def abrupt_def
      intro: reads fails_attempt)

lemma evaluate_boolean_outcome:
  assumes "wf_graph gs"
  shows "outcome_is gs (evaluate_boolean_expression e row tx)
    (if is_condition e then Inr (truth tx gs row e)
     else Inl (invalid_argument ''Boolean expression type not implemented''))"
proof (induction e)
  case (Comparison left op right)
  then show ?case
    by (auto simp: is_condition_def intro!: attempt_evaluate [OF assms] reads_ret_eq)
next
  case (LogicalAnd left right)
  show ?case
    using is_true_reads [OF LogicalAnd(2)]
    by (auto simp: is_condition_def intro!: reads_bind [OF is_true_reads [OF LogicalAnd(1)]] reads_ret_eq)
next
  case (LogicalOr left right)
  show ?case
    using is_true_reads [OF LogicalOr(2)]
    by (auto simp: is_condition_def intro!: reads_bind [OF is_true_reads [OF LogicalOr(1)]] reads_ret_eq)
qed (auto simp: is_condition_def intro: reads)

lemma apply_where_reads:
  assumes "wf_graph gs" and "is_condition c"
  shows "reads_as gs (apply_where c input tx) (filter (\<lambda>row. truth tx gs row c) input)"
proof -
  have "reads_as gs
      (bind_io (evaluate_boolean_expression c row tx)
        (\<lambda>holds. ret (if holds then found @ [row] else found)))
      (found @ (if truth tx gs row c then [row] else []))" for row found
    using evaluate_boolean_outcome [OF assms(1), where e = c and row = row and tx = tx] assms(2) by (auto intro!: reads)
  then show ?thesis
    unfolding apply_where_def filter_concat
    by (subst append_Nil [symmetric]) (rule reads_for_each_append)
qed

text \<open>A condition that is none makes the query fail as soon as there is a row.\<close>

lemma apply_where_fails:
  assumes "wf_graph gs" and "\<not> is_condition c"
  shows "fails_as gs (apply_where c (row # input) tx)
    (invalid_argument ''Boolean expression type not implemented'')"
  using evaluate_boolean_outcome [OF assms(1), where e = c and row = row and tx = tx] assms(2)
  unfolding apply_where_def for_each.simps by (auto intro!: fails_bind)

section \<open>The rows of RETURN\<close>

definition return_row :: "transaction_id \<Rightarrow> GraphStore \<Rightarrow> ReturnItem list \<Rightarrow> VariableMap \<Rightarrow> string list" where
  "return_row tx gs items row =
     map (\<lambda>item. property_value_to_string (the (expr_value tx gs row (item_expression item)))) items"

definition returnable :: "transaction_id \<Rightarrow> GraphStore \<Rightarrow> ReturnItem list \<Rightarrow> ResultSet \<Rightarrow> bool" where
  "returnable tx gs items found \<longleftrightarrow>
     list_all (\<lambda>row. list_all (\<lambda>item. expr_value tx gs row (item_expression item) \<noteq> None) items) found"

lemma execute_return_reads:
  assumes "wf_graph gs" and "returnable tx gs (return_items clause) input"
  shows "reads_as gs (execute_return clause input tx)
    \<lparr>columns = return_columns (return_items clause),
     rows = map (return_row tx gs (return_items clause)) input\<rparr>"
proof -
  have item: "reads_as gs
      (bind_io (evaluate_expression (item_expression item) row tx)
        (\<lambda>v. ret (out @ [property_value_to_string v])))
      (out @ [property_value_to_string (the (expr_value tx gs row (item_expression item)))])"
    if "row \<in> set input" "item \<in> set (return_items clause)" for row item out
    using evaluate_expression_outcome [OF assms(1), where tx = tx and row = row and expr = "item_expression item"] assms(2) that
    by (fastforce simp: returnable_def list_all_iff intro: reads)
  have row: "reads_as gs
      (for_each (return_items clause) []
        (\<lambda>item out. bind_io (evaluate_expression (item_expression item) row tx)
           (\<lambda>v. ret (out @ [property_value_to_string v]))))
      (return_row tx gs (return_items clause) row)" if "row \<in> set input" for row
    using reads_for_each_append [OF item [OF that], where acc = "[]"]
    by (simp add: return_row_def)
  have "reads_as gs
      (for_each input []
        (\<lambda>row rs. bind_io
           (for_each (return_items clause) []
             (\<lambda>item out. bind_io (evaluate_expression (item_expression item) row tx)
                (\<lambda>v. ret (out @ [property_value_to_string v]))))
           (\<lambda>out. ret (rs @ [out]))))
      ([] @ concat (map (\<lambda>row. [return_row tx gs (return_items clause) row]) input))"
    by (rule reads_for_each_append) (rule reads_bind [OF row reads_ret])
  then show ?thesis
    unfolding execute_return_def by (auto intro: reads)
qed

end
