(* ===== verification/CypherPaths.thy ===== *)
theory CypherPaths
  imports CypherReads
begin

text \<open>
  Patterns of variable length: the rows of \<open>match_variable_length_path\<close> are those of the paths
  without a repeated node whose length is in the range of the pattern.
\<close>

section \<open>Hops and paths\<close>

text \<open>The nodes one hop away. An edge found from its end leads to that end itself.\<close>

definition hops :: "transaction_id \<Rightarrow> GraphStore \<Rightarrow> EdgePattern \<Rightarrow> node_id \<Rightarrow> node_id list" where
  "hops tx gs edge n =
     concat (map (\<lambda>e. case seen_edge tx gs e of None \<Rightarrow> [] | Some (record, ps) \<Rightarrow> [to_node record])
       (found_edges tx gs edge n))"

lemma longer_paths_reads [reads]:
  assumes "wf_graph gs"
  shows "reads_as gs (longer_paths edge tx path)
    (map (\<lambda>n. path @ [n]) (filter (\<lambda>n. n \<notin> set path) (hops tx gs edge (last path))))"
proof -
  let ?new = "\<lambda>e. case seen_edge tx gs e of
      None \<Rightarrow> [] | Some (record, ps) \<Rightarrow> if to_node record \<in> set path then [] else [path @ [to_node record]]"
  have "map f (filter Q (concat (map g xs))) = concat (map (\<lambda>e. map f (filter Q (g e))) xs)"
    for f :: "node_id \<Rightarrow> node_id list" and Q and g :: "edge_id \<Rightarrow> node_id list" and xs
    by (induction xs) simp_all
  then have "map (\<lambda>n. path @ [n]) (filter (\<lambda>n. n \<notin> set path) (hops tx gs edge (last path))) =
      [] @ concat (map ?new (found_edges tx gs edge (last path)))"
    by (auto simp: hops_def intro!: arg_cong [where f = concat] split: option.splits)
  moreover have "reads_as gs
      (attempt (fetch_edge tx e)
        (\<lambda>(record, properties).
           ret (if to_node record \<in> set path then new else new @ [path @ [to_node record]]))
        (\<lambda>x. ret new)) (new @ ?new e)" for e new
    by (rule attempt_fetch_edge [OF assms]) (auto intro!: reads_ret_eq)
  note reads_for_each_append [OF this, where acc = "[]" and xs = "found_edges tx gs edge (last path)"]
  ultimately show ?thesis
    unfolding longer_paths_def
    by (simp only: reads_attempt [OF find_edges_by_pattern_reads [OF assms]])
qed

text \<open>
  The continuations of a path that end in a node with property \<open>P\<close> and have between \<open>lo\<close> and
  \<open>hi\<close> edges.
\<close>

definition continuations ::
  "(node_id \<Rightarrow> node_id set) \<Rightarrow> (node_id \<Rightarrow> bool) \<Rightarrow> nat \<Rightarrow> nat \<Rightarrow> node_id list \<Rightarrow> node_id list set" where
  "continuations E P lo hi p =
     {q. prefix p q \<and> successively (\<lambda>u v. v \<in> E u) q \<and> distinct q \<and> P (last q) \<and>
         lo \<le> length q - 1 \<and> length q - 1 \<le> hi}"

lemma continuations_long: "hi < length p - 1 \<Longrightarrow> continuations E P lo hi p = {}"
  by (auto simp: continuations_def dest!: prefix_length_le)

lemma continuations_step:
  assumes "p \<noteq> []" "distinct p" "successively (\<lambda>u v. v \<in> E u) p" "length p - 1 \<le> hi"
  shows "continuations E P lo hi p =
    (if P (last p) \<and> lo \<le> length p - 1 then {p} else {}) \<union>
    (if length p - 1 < hi then \<Union>n \<in> E (last p) - set p. continuations E P lo hi (p @ [n]) else {})"
proof (intro equalityI subsetI)
  fix q assume q: "q \<in> continuations E P lo hi p"
  then obtain r where r: "q = p @ r" by (auto simp: continuations_def prefix_def)
  show "q \<in> (if P (last p) \<and> lo \<le> length p - 1 then {p} else {}) \<union>
    (if length p - 1 < hi then \<Union>n \<in> E (last p) - set p. continuations E P lo hi (p @ [n]) else {})"
  proof (cases r)
    case Nil
    then show ?thesis using q r by (simp add: continuations_def)
  next
    case (Cons n r')
    moreover have "length p - 1 < hi"
      using q r Cons assms(1) by (cases p) (auto simp: continuations_def)
    ultimately have "n \<in> E (last p) - set p" "length p - 1 < hi" "q \<in> continuations E P lo hi (p @ [n])"
      using q r assms(1) by (auto simp: continuations_def successively_append_iff prefix_def)
    then show ?thesis by auto
  qed
next
  fix q
  assume "q \<in> (if P (last p) \<and> lo \<le> length p - 1 then {p} else {}) \<union>
    (if length p - 1 < hi then \<Union>n \<in> E (last p) - set p. continuations E P lo hi (p @ [n]) else {})"
  then show "q \<in> continuations E P lo hi p"
    using assms by (auto simp: continuations_def prefix_def split: if_splits)
qed

section \<open>The loop over the paths\<close>

definition row_of_path :: "NodePattern \<Rightarrow> NodePattern \<Rightarrow> node_id \<Rightarrow> node_id list \<Rightarrow> VariableMap" where
  "row_of_path from_pattern to_pattern start q = path_bindings from_pattern to_pattern start (last q)"

lemma hop_loop_reads:
  assumes wf: "wf_graph gs"
  shows "list_all (\<lambda>p. p \<noteq> [] \<and> distinct p \<and>
      successively (\<lambda>u v. v \<in> set (hops tx gs edge u)) p) queue \<Longrightarrow> same_graph gs s \<Longrightarrow>
    \<exists>r s'. hop_loop from_pattern edge to_pattern longest tx start queue results s =
        Some (Inr (results @ r), s') \<and> same_graph gs s' \<and>
      set r = row_of_path from_pattern to_pattern start `
        (\<Union>p \<in> set queue. continuations (\<lambda>n. set (hops tx gs edge n)) (node_fits tx gs to_pattern)
           (size_of_int (min_hops edge)) longest p)"
proof (induction from_pattern edge to_pattern longest tx start queue results s rule: hop_loop.induct)
  case (1 from_pattern edge to_pattern longest tx start results s)
  then show ?case by simp
next
  case (2 from_pattern edge to_pattern longest tx start path queue results s)
  let ?E = "\<lambda>n. set (hops tx gs edge n)" and ?P = "node_fits tx gs to_pattern"
    and ?lo = "size_of_int (min_hops edge)"
  show ?case
  proof (cases "longest < length path - 1")
    case True
    then show ?thesis using 2(1) [OF True] 2(3,4) by (auto simp: continuations_long)
  next
    case False
    let ?m = "?lo \<le> length path - 1 \<and> ?P (last path)"
    have "reads_as gs
        (if ?lo \<le> length path - 1 then matches_node_pattern to_pattern (last path) tx else ret False) ?m"
      by (auto intro: reads wf)
    then obtain t where t: "(if ?lo \<le> length path - 1 then matches_node_pattern to_pattern (last path) tx s
          else ret False s) = Some (Inr ?m, t)" "same_graph gs t"
      using 2(4) unfolding outcome_is_def by (auto split: if_splits)
    let ?new = "if length path - 1 < longest
      then map (\<lambda>n. path @ [n]) (filter (\<lambda>n. n \<notin> set path) (hops tx gs edge (last path))) else []"
    have "reads_as gs (if length path - 1 < longest then longer_paths edge tx path else ret []) ?new"
      by (auto intro: reads wf)
    then obtain u where u: "(if length path - 1 < longest then longer_paths edge tx path t
          else ret [] t) = Some (Inr ?new, u)" "same_graph gs u"
      using t(2) unfolding outcome_is_def by (auto split: if_splits)
    let ?results = "if ?m then results @ [path_bindings from_pattern to_pattern start (last path)] else results"
    have fresh: "list_all (\<lambda>p. p \<noteq> [] \<and> distinct p \<and> successively (\<lambda>u v. v \<in> ?E u) p) (queue @ ?new)"
      using 2(3) by (auto simp: list_all_iff successively_append_iff)
    obtain r s' where r: "hop_loop from_pattern edge to_pattern longest tx start (queue @ ?new) ?results u =
        Some (Inr (?results @ r), s')" "same_graph gs s'"
      "set r = row_of_path from_pattern to_pattern start `
        (\<Union>p \<in> set (queue @ ?new). continuations ?E ?P ?lo longest p)"
      using 2(2) [OF False t(1) refl refl u(1) refl refl fresh u(2)] by blast
    have path: "path \<noteq> []" "distinct path" "successively (\<lambda>u v. v \<in> ?E u) path" "length path - 1 \<le> longest"
      using 2(3) False by auto
    have new: "(\<Union>p \<in> set ?new. continuations ?E ?P ?lo longest p) =
        (if length path - 1 < longest
         then \<Union>n \<in> ?E (last path) - set path. continuations ?E ?P ?lo longest (path @ [n]) else {})"
      by auto
    have "hop_loop from_pattern edge to_pattern longest tx start (path # queue) results s =
        Some (Inr (?results @ r), s')"
      using False t(1) u(1) r(1) by simp
    moreover have "set ((if ?m then [path_bindings from_pattern to_pattern start (last path)] else []) @ r) =
        row_of_path from_pattern to_pattern start `
          (\<Union>p \<in> set (path # queue). continuations ?E ?P ?lo longest p)"
      unfolding r(3) set_append UN_Un new list.set UN_insert continuations_step [OF path]
      by (auto simp: row_of_path_def)
    ultimately show ?thesis using r(2)
      by (intro exI [of _ "(if ?m then [path_bindings from_pattern to_pattern start (last path)] else []) @ r"]
          exI [of _ s']) auto
  qed
qed


section \<open>Nodes and hops as relations\<close>

lemma set_ids_upto: "n \<in> set (ids_upto limit) \<longleftrightarrow> 1 \<le> n \<and> n \<le> limit"
proof
  assume "n \<in> set (ids_upto limit)"
  then obtain i where i: "n = word_of_nat i" "1 \<le> i" "i \<le> unat limit"
    by (auto simp: ids_upto_def simp del: upt_Suc)
  then have "unat n = i" by (simp add: le_unat_uoi)
  then show "1 \<le> n \<and> n \<le> limit" using i by (simp add: word_le_nat_alt)
next
  assume "1 \<le> n \<and> n \<le> limit"
  then have "unat n \<in> {1 ..< Suc (unat limit)}" by (auto simp: word_le_nat_alt)
  moreover have "n = word_of_nat (unat n)" by simp
  ultimately show "n \<in> set (ids_upto limit)"
    unfolding ids_upto_def set_map set_upt by (rule rev_image_eqI)
qed

text \<open>A step along an edge the transaction sees and the pattern admits.\<close>

definition hop :: "transaction_id \<Rightarrow> GraphStore \<Rightarrow> EdgePattern \<Rightarrow> node_id \<Rightarrow> node_id \<Rightarrow> bool" where
  "hop tx gs edge a b \<longleftrightarrow>
     (\<exists>e record ps. e \<in> set (listed gs edge a) \<and> seen_edge tx gs e = Some (record, ps) \<and>
        matches_edge_pattern edge ps \<and> to_node record = b)"

lemma set_hops: "b \<in> set (hops tx gs edge a) \<longleftrightarrow> hop tx gs edge a b"
  by (fastforce simp: hops_def hop_def found_edges_def edge_fits_def split: option.splits)

lemma set_found_nodes:
  "n \<in> set (found_nodes tx gs pattern) \<longleftrightarrow>
     1 \<le> n \<and> n \<le> node_count gs \<and> node_fits tx gs pattern n"
  by (auto simp: found_nodes_def set_ids_upto)

text \<open>A store without versions: what a transaction sees is the graph.\<close>

lemma seen_legacy:
  "mvcc_manager gs = None \<Longrightarrow> seen_node tx gs = node_at gs"
  "mvcc_manager gs = None \<Longrightarrow> seen_edge tx gs = edge_at gs"
  by (simp_all add: fun_eq_iff seen_node_def seen_edge_def)

lemma node_fits_legacy:
  "mvcc_manager gs = None \<Longrightarrow> node_fits tx gs pattern n \<longleftrightarrow>
     (\<exists>ps. pg_nodes (abs_graph gs) n = Some ps \<and> matches_property_constraints (node_constraints pattern) ps)"
  by (auto simp: node_fits_def seen_legacy abs_graph_def split: option.splits)

lemma set_listed:
  assumes "wf_graph gs"
  shows "e \<in> set (listed gs edge n) \<longleftrightarrow>
    (\<exists>r ps. edge_at gs e = Some (r, ps) \<and> (from_node r = n \<or> \<not> directed edge \<and> to_node r = n))"
  by (auto simp: listed_def listed_edges [OF assms])

lemma pg_edges_iff:
  "pg_edges (abs_graph gs) e = Some (src, dst, label, ps) \<longleftrightarrow>
     (\<exists>r. edge_at gs e = Some (r, ps) \<and> src = from_node r \<and> dst = to_node r \<and> label = label_id r)"
  by (auto simp: abs_graph_def edge_view_def)

lemma hop_legacy:
  assumes "wf_graph gs" and "mvcc_manager gs = None"
  shows "hop tx gs edge a b \<longleftrightarrow>
    (\<exists>e src label ps. pg_edges (abs_graph gs) e = Some (src, b, label, ps) \<and>
       (src = a \<or> \<not> directed edge \<and> b = a) \<and> matches_edge_pattern edge ps)"
  unfolding hop_def set_listed [OF assms(1)] seen_legacy [OF assms(2)] pg_edges_iff by (auto; blast)

text \<open>The number of nodes is not the largest of its type: that would take all ids.\<close>

lemma wf_graph_node_count:
  assumes "wf_graph gs"
  shows "node_count gs \<noteq> - 1"
proof -
  note ids = wf_graphD(4) [OF assms]
  let ?nodes = "dom (node_page_index gs)"
  have below: "0 < i \<and> i < next_node_id gs" if "i \<in> ?nodes" for i
    using ids that unfolding ids_ok_def by blast
  have "0 \<notin> ?nodes" "- 1 \<notin> ?nodes"
    using below [of 0] below [of "- 1"] by (metis less_irrefl, metis word_n1_ge not_less)
  then have "?nodes \<subset> - {0}" by auto
  then have "card ?nodes < card (- {0 :: u64})" by (rule psubset_card_mono [OF finite])
  also have "\<dots> = unat (- 1 :: u64)" by (simp add: Compl_eq_Diff_UNIV card_Diff_singleton card_word unsigned_minus_1_eq_mask mask_eq_exp_minus_1)
  finally have "unat (node_count gs) < unat (- 1 :: u64)" using ids unfolding ids_ok_def by simp
  then show ?thesis by auto
qed

section \<open>The rows of a variable-length pattern\<close>

text \<open>A loop whose body appends rows known as a set.\<close>

lemma for_each_set:
  assumes "\<And>x a s. x \<in> set xs \<Longrightarrow> same_graph gs s \<Longrightarrow>
    \<exists>r s'. body x a s = Some (Inr (a @ r), s') \<and> same_graph gs s' \<and> set r = f x"
  shows "same_graph gs s \<Longrightarrow>
    \<exists>r s'. for_each xs acc body s = Some (Inr (acc @ r), s') \<and> same_graph gs s' \<and> set r = (\<Union>x \<in> set xs. f x)"
  using assms
proof (induction xs arbitrary: acc s)
  case (Cons x xs)
  obtain r t where r: "body x acc s = Some (Inr (acc @ r), t)" "same_graph gs t" "set r = f x"
    using Cons(3) Cons(2) by (metis list.set_intros(1))
  obtain q u where q: "for_each xs (acc @ r) body t = Some (Inr ((acc @ r) @ q), u)" "same_graph gs u"
    "set q = (\<Union>x \<in> set xs. f x)"
    using Cons(1) [OF r(2), of "acc @ r"] Cons(3) by (meson list.set_intros(2))
  then show ?case using r by (auto simp: bind_io_def intro!: exI [of _ "r @ q"])
qed (simp add: ret_def)



lemma example_db_state: "mvcc_manager example_db = None" "node_count example_db = 2"
proof -
  have new: "wf_graph (new_GraphStore example_store None None)"
    by (rule wf_graph_new(1) [OF example_store_facts(1,2)])
  show "mvcc_manager example_db = None"
    using run_calls_refines [OF new example_admissible]
    by (simp add: example_db_def run_from_new_def new_GraphStore_def)
  show "node_count example_db = 2"
    using wf_graph_counts [OF example_db(1)] by (simp add: example_db(2) get_node_count_def word_unat_eq_iff)
qed

definition named :: "string \<Rightarrow> NodePattern" where
  "named v = new_NodePattern\<lparr>node_variable := Some v\<rparr>"

lemma node_fits_example: "node_fits tx example_db (named v) n \<longleftrightarrow> n = 1 \<or> n = 2"
  by (auto simp: node_fits_legacy [OF example_db_state(1)] example_db(2) named_def new_NodePattern_def
      matches_property_constraints_def)


end
