(* ===== verification/CypherResults.thy ===== *)
theory CypherResults
  imports CypherPaths
begin

text \<open>
  What reading queries answer: the rows of a pattern with one edge, the whole of
  \<open>MATCH \<dots> WHERE \<dots> RETURN \<dots> ORDER BY \<dots> LIMIT\<close>, and the order of the rows.
\<close>

section \<open>A pattern with one edge\<close>

lemma AList_update_new: "map_of row k = None \<Longrightarrow> AList.update k v row = row @ [(k, v)]"
  by (induction row) (auto split: if_splits)

text \<open>The rows of a pattern of two nodes and an edge, all named differently.\<close>

lemma expanded_hop:
  assumes "node_variable to_pattern = Some b" and "edge_variable edge = Some r" and "distinct [a, r, b]"
  shows "expanded tx gs a edge to_pattern [(a, NodeBinding n)] =
    concat (map (\<lambda>e.
      case seen_edge tx gs e of
        None \<Rightarrow> []
      | Some (record, ps) \<Rightarrow>
          if node_fits tx gs to_pattern (to_node record)
          then [[(a, NodeBinding n), (r, EdgeBinding e), (b, NodeBinding (to_node record))]] else [])
      (found_edges tx gs edge n))"
  using assms
  by (auto simp: expanded_def rows_for_edge_def bind_variable_def AList_update_new
      intro!: arg_cong [where f = concat] split: option.splits)



definition one_hop :: "bool \<Rightarrow> Pattern" where
  "one_hop direction =
     \<lparr>pattern_nodes = [named ''a'', named ''b''],
      pattern_edges = [new_EdgePattern\<lparr>edge_variable := Some ''r'', directed := direction\<rparr>]\<rparr>"


section \<open>The order of the rows\<close>

text \<open>A strict weak order on a set, which the comparison of a sort has to be.\<close>

definition strict_weak :: "('a \<Rightarrow> 'a \<Rightarrow> bool) \<Rightarrow> 'a set \<Rightarrow> bool" where
  "strict_weak before A \<longleftrightarrow>
     (\<forall>x \<in> A. \<forall>y \<in> A. before x y \<longrightarrow> \<not> before y x) \<and>
     (\<forall>x \<in> A. \<forall>y \<in> A. \<forall>z \<in> A. before x z \<longrightarrow> before x y \<or> before y z)"

lemma strict_weak_less: "strict_weak (\<lambda>x y. f x < (f y :: 'b :: linorder)) A"
  and strict_weak_greater: "strict_weak (\<lambda>x y. f y < (f x :: 'b :: linorder)) A"
  unfolding strict_weak_def by (auto dest: less_trans)

lemma strict_weak_lex:
  assumes "strict_weak lt A" and "strict_weak before A"
    and "\<And>x y. x \<in> A \<Longrightarrow> y \<in> A \<Longrightarrow> f x \<noteq> f y \<Longrightarrow> lt x y \<or> lt y x"
    and "\<And>x y. lt x y \<Longrightarrow> f x \<noteq> (f y :: 'b)"
  shows "strict_weak (\<lambda>x y. if f x \<noteq> f y then lt x y else before x y) A"
  using assms unfolding strict_weak_def by (smt (verit, ccfv_threshold))

lemma index_of_less: "index_of c cols = Some i \<Longrightarrow> i < length cols"
  by (induction cols arbitrary: i) (auto split: if_splits)

lemma row_before_strict_weak:
  "strict_weak (row_before cols items) {row. length row = length cols}"
proof (induction items)
  case Nil
  show ?case by (simp add: strict_weak_def)
next
  case (Cons item items)
  show ?case
  proof (cases "index_of (order_column item) cols")
    case None
    then show ?thesis using Cons by (simp add: strict_weak_def)
  next
    case (Some i)
    let ?A = "{row :: string list. length row = length cols}"
    let ?less = "\<lambda>x y :: string list. case order_direction item of ASC \<Rightarrow> x ! i < y ! i | DESC \<Rightarrow> y ! i < x ! i"
    have less: "strict_weak ?less ?A"
      by (cases "order_direction item") (simp_all add: strict_weak_less strict_weak_greater)
    have "strict_weak (\<lambda>x y. if x ! i \<noteq> y ! i then ?less x y else row_before cols items x y) ?A"
      by (rule strict_weak_lex [OF less Cons]) (auto split: OrderDirection.splits)
    moreover have "row_before cols (item # items) x y =
        (if x ! i \<noteq> y ! i then ?less x y else row_before cols items x y)" if "x \<in> ?A" "y \<in> ?A" for x y
      using that index_of_less [OF Some] Some by simp
    ultimately show ?thesis unfolding strict_weak_def by simp
  qed
qed

text \<open>What \<open>std::sort\<close> promises.\<close>

definition sorts :: "row_sort \<Rightarrow> bool" where
  "sorts std_sort \<longleftrightarrow>
     (\<forall>before xs. strict_weak before (set xs) \<longrightarrow>
        mset (std_sort before xs) = mset xs \<and> sorted_wrt (\<lambda>x y. \<not> before y x) (std_sort before xs))"

lemma strict_weak_subset: "strict_weak before B \<Longrightarrow> A \<subseteq> B \<Longrightarrow> strict_weak before A"
  unfolding strict_weak_def by blast



text \<open>Insertion sort is a sort in this sense.\<close>

fun insert_by :: "('a \<Rightarrow> 'a \<Rightarrow> bool) \<Rightarrow> 'a \<Rightarrow> 'a list \<Rightarrow> 'a list" where
  "insert_by before x [] = [x]"
| "insert_by before x (y # ys) = (if before y x then y # insert_by before x ys else x # y # ys)"

definition insertion_sort :: row_sort where
  "insertion_sort before xs = foldr (insert_by before) xs []"

lemma mset_insert_by: "mset (insert_by before x ys) = add_mset x (mset ys)"
  by (induction ys) auto

lemma sorted_insert_by:
  "strict_weak before (insert x (set ys)) \<Longrightarrow> sorted_wrt (\<lambda>a b. \<not> before b a) ys \<Longrightarrow>
     sorted_wrt (\<lambda>a b. \<not> before b a) (insert_by before x ys)"
proof (induction ys)
  case (Cons y ys)
  have set: "set (insert_by before x ys) = insert x (set ys)"
    using mset_insert_by [of before x ys] by (metis set_mset_add_mset_insert set_mset_mset)
  have sub: "strict_weak before (insert x (set ys))"
    by (rule strict_weak_subset [OF Cons.prems(1)]) auto
  show ?case
    using Cons.IH [OF sub] Cons.prems unfolding strict_weak_def by (auto simp: set)
qed simp

lemma insertion_sorts: "sorts insertion_sort"
proof -
  have "mset (foldr (insert_by before) xs []) = mset xs \<and>
      (strict_weak before (set xs) \<longrightarrow> sorted_wrt (\<lambda>x y. \<not> before y x) (foldr (insert_by before) xs []))"
    for before and xs :: "string list list"
  proof (induction xs)
    case (Cons x xs)
    then have "set (foldr (insert_by before) xs []) = set xs" by (metis set_mset_mset)
    then show ?case
      using Cons sorted_insert_by [of before x "foldr (insert_by before) xs []"]
      by (auto simp: mset_insert_by intro: strict_weak_subset)
  qed simp
  then show ?thesis unfolding sorts_def insertion_sort_def by blast
qed


section \<open>Reading queries\<close>

text \<open>The rows that are left by \<open>WHERE\<close>.\<close>

definition selected_rows :: "transaction_id \<Rightarrow> GraphStore \<Rightarrow> Pattern \<Rightarrow> Expression option \<Rightarrow> ResultSet" where
  "selected_rows tx gs p condition =
     (case condition of
        None \<Rightarrow> pattern_rows tx gs p
      | Some c \<Rightarrow> filter (\<lambda>row. truth tx gs row c) (pattern_rows tx gs p))"

lemma optional_where_reads:
  assumes "wf_graph gs" and "\<And>c. condition = Some c \<Longrightarrow> is_condition c"
  shows "reads_as gs (optional condition (\<lambda>c input. apply_where c input tx) (pattern_rows tx gs p))
    (selected_rows tx gs p condition)"
  using apply_where_reads [OF assms(1)] assms(2)
  by (auto simp: optional_def selected_rows_def split: option.splits intro: reads)

lemma outcome_lift: "outcome_is gs (lift (\<lambda>gs. (r, gs))) r"
  by (simp add: outcome_is_def lift_def)



text \<open>\<open>MATCH (a)-[r]->(b) WHERE b.age = '3' RETURN b.age, a ORDER BY a DESC LIMIT 5\<close>\<close>

definition example_query :: Query where
  "example_query = new_Query
     \<lparr>query_match := Some [one_hop True],
      query_where := Some (Comparison (PropertyAccess ''b'' ''age'') EQUAL (Literal (StrVal ''3''))),
      query_return := Some
        \<lparr>return_items =
           [\<lparr>item_expression = PropertyAccess ''b'' ''age'', item_alias = None\<rparr>,
            \<lparr>item_expression = Identifier ''a'', item_alias = None\<rparr>],
         return_distinct = False\<rparr>,
      query_limit := Some 5,
      query_order_by := Some [\<lparr>order_expression = Identifier ''a'', order_direction = DESC\<rparr>]\<rparr>"

lemma example_listed:
  "get_outgoing_edges 1 example_db = [1]" "get_outgoing_edges 2 example_db = []"
proof -
  have set: "e \<in> set (get_outgoing_edges n example_db) \<longleftrightarrow> e = 1 \<and> n = 1" for e n
  proof -
    have "e \<in> set (get_outgoing_edges n example_db) \<longleftrightarrow>
        (\<exists>dst label ps. pg_edges (abs_graph example_db) e = Some (n, dst, label, ps))"
      unfolding listed_edges(1) [OF example_db(1)] pg_edges_iff by auto
    then show ?thesis by (auto simp: example_db(2))
  qed
  have "distinct (get_outgoing_edges n example_db)" for n
    by (rule adjacency_okD(1) [OF wf_graphD(6) [OF example_db(1)]])
  then show "get_outgoing_edges 1 example_db = [1]"
    by (rule distinct_singleton_list) (use set in auto)
  show "get_outgoing_edges 2 example_db = []"
    using set [of _ 2] by (cases "get_outgoing_edges 2 example_db") auto
qed


lemma example_pattern_rows:
  "pattern_rows 9 example_db (one_hop True) =
    [[(''a'', NodeBinding 1), (''r'', EdgeBinding 1), (''b'', NodeBinding 2)]]"
proof -
  let ?edge = "new_EdgePattern\<lparr>edge_variable := Some ''r'', directed := True\<rparr>"
  have two: "ids_upto 2 = [1, 2]" by (simp add: ids_upto_def upt_rec)
  have nodes: "found_nodes 9 example_db (named ''a'') = [1, 2]"
    by (simp add: found_nodes_def example_db_state(2) two node_fits_example)
  obtain r where r: "edge_at example_db 1 = Some (r, [])" "to_node r = 2"
    using pg_edges_iff [of example_db 1 1 2 5 "[]"] by (auto simp: example_db(2))
  have found: "found_edges 9 example_db ?edge 1 = [1]" "found_edges 9 example_db ?edge 2 = []"
    by (simp_all add: found_edges_def listed_def example_listed edge_fits_def r new_EdgePattern_def
        seen_legacy [OF example_db_state(1)] matches_edge_pattern_def matches_property_constraints_def)
  have v: "node_variable (named x) = Some x" for x by (simp add: named_def)
  have e: "edge_variable ?edge = Some ''r''" by simp
  have ars: "distinct [''a'', ''r'', ''b'']" by simp
  have rows: "expanded 9 example_db ''a'' ?edge (named ''b'') [(''a'', NodeBinding 1)] =
      [[(''a'', NodeBinding 1), (''r'', EdgeBinding 1), (''b'', NodeBinding 2)]]"
    "expanded 9 example_db ''a'' ?edge (named ''b'') [(''a'', NodeBinding 2)] = []"
    unfolding expanded_hop [OF v e ars] found
    by (simp_all add: r seen_legacy [OF example_db_state(1)] node_fits_example)
  show ?thesis
    unfolding one_hop_def pattern_rows_def Pattern.simps list.sel nodes
    by (simp add: v bind_variable_def rows)
qed



end
