(* ===== verification/CypherTransactions.thy ===== *)
theory CypherTransactions
  imports CypherResults
begin

text \<open>
  The transaction around a query. A relation that every operation of the store keeps is kept
  by queries; for what other transactions see this gives that a failed query leaves no trace.
\<close>

section \<open>What every query keeps\<close>

text \<open>
  A relation between the stores before and after an operation of a transaction that holds of
  every operation a query uses holds of the query.
\<close>

definition keeps :: "(GraphStore \<Rightarrow> GraphStore \<Rightarrow> bool) \<Rightarrow> 'a io \<Rightarrow> bool" where
  "keeps R m \<longleftrightarrow> (\<forall>s r s'. m s = Some (r, s') \<longrightarrow> R s s')"

named_theorems keeps \<open>rules for computations that keep a relation\<close>

locale store_relation =
  fixes R :: "GraphStore \<Rightarrow> GraphStore \<Rightarrow> bool" and tx :: transaction_id
  assumes keep_refl: "R s s"
    and keep_trans: "R s t \<Longrightarrow> R t u \<Longrightarrow> R s u"
    and keep_get_node: "R s (snd (get_node n s))" "R s (snd (get_node_tx tx n s))"
    and keep_get_edge: "R s (snd (get_edge e s))" "R s (snd (get_edge_tx tx e s))"
    and keep_create_node: "R s (snd (create_node ps s))" "R s (snd (create_node_tx tx ps s))"
    and keep_update_node: "R s (snd (update_node n ps s))" "R s (snd (update_node_tx tx n ps s))"
    and keep_delete_node: "R s (snd (delete_node n s))" "R s (snd (delete_node_tx tx n s))"
    and keep_delete_edge: "R s (snd (delete_edge e s))" "R s (snd (delete_edge_tx tx e s))"
begin

lemma keep_ret [keeps]: "keeps R (ret x)"
  by (simp add: keeps_def ret_def keep_refl)

lemma keep_fail [keeps]: "keeps R (fail e)"
  by (simp add: keeps_def fail_def keep_refl)

lemma keep_lift [keeps]: "(\<And>s. R s (snd (f s))) \<Longrightarrow> keeps R (lift f)"
  by (metis keeps_def lift_def option.inject snd_conv)

lemma keep_bind [keeps]: "keeps R m \<Longrightarrow> (\<And>x. keeps R (f x)) \<Longrightarrow> keeps R (bind_io m f)"
  unfolding keeps_def bind_io_def
  by (auto split: option.splits sum.splits) (blast intro: keep_trans)

lemma keep_attempt [keeps]:
  "keeps R m \<Longrightarrow> (\<And>x. keeps R (f x)) \<Longrightarrow> (\<And>e. keeps R (h e)) \<Longrightarrow> keeps R (attempt m f h)"
  unfolding keeps_def attempt_def
  by (auto split: option.splits sum.splits if_splits) (blast intro: keep_trans)+

lemma keep_for_each [keeps]: "(\<And>x a. keeps R (body x a)) \<Longrightarrow> keeps R (for_each xs acc body)"
  by (induction xs arbitrary: acc) (simp_all add: keep_ret keep_bind)

lemma keep_fetch [keeps]: "keeps R (fetch_node tx n)" "keeps R (fetch_edge tx e)"
  by (simp_all add: fetch_node_def fetch_edge_def keep_lift keep_get_node keep_get_edge)

lemma keep_scan_nodes:
  assumes "scan_nodes tx keep limit i found s = Some y"
  shows "R s (snd y)"
proof -
  have "tx = tx \<longrightarrow> R s (snd y)"
  proof (rule scan_nodes.raw_induct [where P = "\<lambda>t keep limit i found s y. t = tx \<longrightarrow> R s (snd y)",
        OF _ assms], intro impI)
    fix scan t keep limit i found s y
    assume IH: "\<And>keep limit i found s b y. scan keep limit i found s b = Some y \<Longrightarrow>
        keep = tx \<longrightarrow> R b (snd y)"
      and step: "(if i \<le> limit
        then case fetch_node t i s of
            None \<Rightarrow> None
          | Some (Inl e, gs) \<Rightarrow> if abrupt e then Some (Inl e, gs) else scan t keep limit (i + 1) found gs
          | Some (Inr (record, properties), gs) \<Rightarrow>
              scan t keep limit (i + 1) (if keep properties then found @ [i] else found) gs
        else Some (Inr found, s)) = Some y"
      and t: "t = tx"
    have fetch: "R s u" if "fetch_node tx i s = Some (r, u)" for r u
      using keep_fetch(1) [of i] that by (auto simp: keeps_def)
    have rest: "R u (snd y)" if "scan tx keep limit (i + 1) found u = Some y" for found u
      using IH that by blast
    show "R s (snd y)"
    proof (cases "fetch_node tx i s")
      case None
      then show ?thesis using step t by (auto intro: keep_refl split: if_splits)
    next
      case (Some z)
      obtain q u where z: "z = (q, u)" by fastforce
      note su = fetch [OF Some [unfolded z]]
      then have "R s (snd y)" if "scan tx keep limit (i + 1) found u = Some y" for found
        using rest [OF that] by (rule keep_trans)
      then show ?thesis
        using step su unfolding t Some z
        by (cases q) (auto intro: keep_refl split: if_splits prod.splits)
    qed
  qed
  then show ?thesis by simp
qed

lemma keep_find [keeps]:
  "keeps R (find_nodes_by_pattern pattern tx)" "keeps R (find_edges_by_pattern edge source target tx)"
proof -
  show "keeps R (find_nodes_by_pattern pattern tx)"
    unfolding keeps_def find_nodes_by_pattern_def by (auto dest: keep_scan_nodes)
  have "keeps R (for_each (get_outgoing_edges source gs @
        (if directed edge then [] else get_incoming_edges source gs)) []
      (\<lambda>edge_id filtered.
         attempt (fetch_edge tx edge_id)
           (\<lambda>(record, properties).
              ret (if matches_edge_pattern edge properties \<and>
                      (target = 0 \<or> to_node record = target \<or>
                       (\<not> directed edge \<and> from_node record = target))
                   then filtered @ [edge_id] else filtered))
           (\<lambda>e. ret filtered)))" for gs
    by (auto intro!: keeps split: prod.splits)
  then show "keeps R (find_edges_by_pattern edge source target tx)"
    unfolding keeps_def find_edges_by_pattern_def by blast
qed

lemma keep_matches_node_pattern [keeps]: "keeps R (matches_node_pattern pattern n tx)"
  unfolding matches_node_pattern_def by (auto intro!: keeps split: prod.splits)

lemma keep_longer_paths [keeps]: "keeps R (longer_paths edge tx path)"
  unfolding longer_paths_def by (auto intro!: keeps split: prod.splits)

lemma keep_hop_loop:
  "t = tx \<Longrightarrow> hop_loop from_pattern edge to_pattern longest t start queue results s = Some y \<Longrightarrow> R s (snd y)"
proof (induction from_pattern edge to_pattern longest t start queue results s rule: hop_loop.induct)
  case (1 from_pattern edge to_pattern longest t start results s)
  then show ?case by (auto intro: keep_refl)
next
  case (2 from_pattern edge to_pattern longest t start path queue results s)
  have first: "R s u" if "(if b then matches_node_pattern to_pattern (last path) tx s else ret False s) =
      Some (r, u)" for b r u
    using keep_matches_node_pattern [of to_pattern "last path"] that
    by (auto simp: keeps_def ret_def keep_refl split: if_splits)
  have second: "R u v" if "(if b then longer_paths edge tx path u else ret [] u) = Some (r, v)" for b r u v
    using keep_longer_paths [of edge path] that
    by (auto simp: keeps_def ret_def keep_refl split: if_splits)
  show ?case
  proof (cases "longest < length path - 1")
    case True
    then show ?thesis using 2 by simp
  next
    case False
    let ?A = "if size_of_int (min_hops edge) \<le> length path - 1
      then matches_node_pattern to_pattern (last path) tx s else ret False s"
    let ?B = "\<lambda>u. if length path - 1 < longest then longer_paths edge tx path u else ret [] u"
    consider (none) "?A = None" | (error) e u where "?A = Some (Inl e, u)"
      | (ok) b u where "?A = Some (Inr b, u)"
      by (metis old.sum.exhaust option.exhaust surj_pair)
    then show ?thesis
    proof cases
      case (ok b u)
      note su = first [OF ok]
      consider (none) "?B u = None" | (error) e v where "?B u = Some (Inl e, v)"
        | (ok2) new v where "?B u = Some (Inr new, v)"
        by (metis old.sum.exhaust option.exhaust surj_pair)
      then show ?thesis
      proof cases
        case (ok2 new v)
        have "R v (snd y)"
          using 2(2) [OF False ok [folded 2(3)] refl refl ok2 [folded 2(3)] refl refl 2(3)]
            2(3,4) ok ok2 False by simp
        then show ?thesis using su second [OF ok2] keep_trans by blast
      qed (use 2(3,4) False ok second su keep_trans in auto)
    qed (use 2(3,4) False first in auto)
  qed
qed

lemma keep_match_variable_length_path [keeps]:
  "keeps R (match_variable_length_path from_pattern edge to_pattern tx)"
proof -
  have "keeps R (hop_loop from_pattern edge to_pattern longest tx start [[start]] results)"
    for longest start results
    unfolding keeps_def by (metis keep_hop_loop snd_conv)
  then show ?thesis unfolding match_variable_length_path_def Let_def by (intro keeps)
qed

lemma keep_expand_edge [keeps]: "keeps R (expand_edge edge to_pattern tx row e results)"
  unfolding expand_edge_def Let_def
  by (auto intro!: keeps split: prod.splits option.splits)

lemma keep_expand_results [keeps]: "keeps R (expand_results previous from_pattern edge to_pattern tx)"
  unfolding expand_results_def
  by (auto intro!: keeps split: option.splits VariableBinding.splits)

lemma keep_expand_chain [keeps]: "keeps R (expand_chain nodes rels found tx)"
proof -
  have "t = tx \<Longrightarrow> keeps R (expand_chain nodes rels found t)" for t
    by (induction nodes rels found t rule: expand_chain.induct) (auto intro!: keeps)
  then show ?thesis by simp
qed

lemma keep_match [keeps]:
  "keeps R (match_node node tx)" "keeps R (match_pattern p tx)" "keeps R (execute_match pats tx)"
proof -
  show node: "keeps R (match_node node tx)" for node unfolding match_node_def by (intro keeps)
  show pattern: "keeps R (match_pattern p tx)" for p
    unfolding match_pattern_def by (auto intro!: keeps node split: list.splits)
  show "keeps R (execute_match pats tx)"
    unfolding execute_match_def by (auto intro!: keeps pattern split: list.splits)
qed

lemma keep_evaluate [keeps]: "keeps R (evaluate_expression e row tx)"
  unfolding evaluate_expression_def Let_def
  by (auto intro!: keeps split: Expression.splits option.splits VariableBinding.splits prod.splits)

lemma keep_is_true: "keeps R m \<Longrightarrow> keeps R (is_true m)"
  unfolding is_true_def by (intro keeps)

lemma keep_evaluate_boolean [keeps]: "keeps R (evaluate_boolean_expression e row tx)"
  by (induction e) (auto intro!: keeps keep_is_true)

lemma keep_where_return [keeps]:
  "keeps R (apply_where c input tx)" "keeps R (execute_return clause input tx)"
  unfolding apply_where_def execute_return_def by (intro keeps)+

lemma keep_create [keeps]: "keeps R (execute_create pats tx)"
  unfolding execute_create_def create_node_from_pattern_def Let_def
  by (auto intro!: keeps keep_create_node split: prod.splits)

lemma keep_set [keeps]: "keeps R (execute_set clause input tx)"
  unfolding execute_set_def Let_def
  by (auto intro!: keeps keep_update_node split: prod.splits option.splits VariableBinding.splits)

lemma keep_delete [keeps]: "keeps R (execute_delete clause input tx)"
  unfolding execute_delete_def
  by (auto intro!: keeps keep_delete_node keep_delete_edge split: prod.splits option.splits VariableBinding.splits)

lemma keep_optional: "(\<And>c x. keeps R (f c x)) \<Longrightarrow> keeps R (optional clause f x)"
  by (auto simp: optional_def intro!: keeps split: option.splits)

lemma keep_run_query: "keeps R (run_query std_sort q tx)"
  unfolding run_query_def by (auto intro!: keeps keep_optional keep_refl)

end

section \<open>Writes seen from outside\<close>

text \<open>
  To a reader for whom the writer does not count, under whatever state of the transactions,
  all keys have the same visible versions; and the transactions themselves are untouched.
\<close>

definition outside_manager :: "transaction_id \<Rightarrow> MVCCManager \<Rightarrow> MVCCManager \<Rightarrow> bool" where
  "outside_manager tx m m' \<longleftrightarrow>
     txn_manager m' = txn_manager m \<and>
     (\<forall>tm reader key. \<not> counts_for tm reader tx \<longrightarrow>
        map_option payload (visible_version tm reader (versions_at m' key)) =
        map_option payload (visible_version tm reader (versions_at m key)))"

definition outside :: "transaction_id \<Rightarrow> GraphStore \<Rightarrow> GraphStore \<Rightarrow> bool" where
  "outside tx s s' \<longleftrightarrow> rel_option (outside_manager tx) (mvcc_manager s) (mvcc_manager s')"

lemma outside_manager_refl: "outside_manager tx m m"
  by (simp add: outside_manager_def)

lemma outside_refl: "outside tx s s"
  by (simp add: outside_def outside_manager_refl option.rel_refl)

lemma outside_trans: "outside tx s t \<Longrightarrow> outside tx t u \<Longrightarrow> outside tx s u"
  unfolding outside_def outside_manager_def
  by (cases "mvcc_manager s"; cases "mvcc_manager t"; cases "mvcc_manager u") auto

lemma outside_same: "mvcc_manager s' = mvcc_manager s \<Longrightarrow> outside tx s s'"
  by (simp add: outside_def outside_manager_refl option.rel_refl)

lemma mvcc_untouched [simp]:
  "mvcc_manager (snd (get_node n s)) = mvcc_manager s"
  "mvcc_manager (snd (get_edge e s)) = mvcc_manager s"
  "mvcc_manager (snd (create_node ps s)) = mvcc_manager s"
  "mvcc_manager (snd (update_node n ps s)) = mvcc_manager s"
  "mvcc_manager (snd (delete_node n s)) = mvcc_manager s"
  "mvcc_manager (snd (delete_edge e s)) = mvcc_manager s"
  "mvcc_manager (wal_line op i s) = mvcc_manager s"
  by (simp_all add: get_node_def get_edge_def create_node_def update_node_def delete_node_def delete_edge_def
      get_next_node_id_def store_node_record_def update_adjacency_lists_other wal_line_def Let_def
      split: prod.splits sum.splits option.splits)

lemma outside_write_version:
  "outside_manager (created_tx_id ver) m (snd (write_version key ver m))"
  by (auto simp: outside_manager_def write_version_def versions_at_def Let_def visible_after_uncounted_write
      split: prod.splits lock_outcome.splits option.splits)

lemma outside_put_version: "outside (created_tx_id ver) s (snd (put_version key ver e s))"
proof (cases "mvcc_manager s")
  case None
  then show ?thesis by (simp add: put_version_def outside_refl)
next
  case (Some m)
  have "mvcc_manager (snd (put_version key ver e s)) = Some (snd (write_version key ver m))"
    using Some by (auto simp: put_version_def split: prod.splits sum.splits mvcc_error.splits)
  then show ?thesis using outside_write_version [of ver m key] Some by (simp add: outside_def)
qed

lemma outside_put_version_ignored: "outside (created_tx_id ver) s (snd (put_version_ignored key ver s))"
  using outside_put_version [of ver s key "Error CORRUPTION []"]
  by (auto simp: put_version_ignored_def split: prod.splits sum.splits)

text \<open>An operation on the pages, a version, a line in the log.\<close>

lemma outside_steps:
  assumes "mvcc_manager t = mvcc_manager s" and "outside tx t u" and "mvcc_manager v = mvcc_manager u"
  shows "outside tx s v"
  using assms by (simp add: outside_def)

lemma outside_create_node_tx: "outside tx s (snd (create_node_tx tx ps s))"
proof (cases "create_node ps s")
  case (Pair r t)
  then have t: "mvcc_manager t = mvcc_manager s" using mvcc_untouched(3) [of ps s] by simp
  show ?thesis
    using outside_put_version [of "\<lparr>created_tx_id = tx, deleted_tx_id = 0, ver_data = d, ver_properties = ps\<rparr>" t k e for d k e]
    by (auto simp: create_node_tx_def Pair Let_def intro: outside_same outside_steps [OF t] t
        split: sum.splits prod.splits) (metis outside_steps [OF t] snd_conv mvcc_untouched(7))+
qed

lemma outside_update_node_tx: "outside tx s (snd (update_node_tx tx n ps s))"
proof (cases "update_node n ps s")
  case (Pair r t)
  then have t: "mvcc_manager t = mvcc_manager s" using mvcc_untouched(4) [of n ps s] by simp
  show ?thesis
    using outside_put_version [of "\<lparr>created_tx_id = tx, deleted_tx_id = 0, ver_data = d, ver_properties = ps\<rparr>" t k e for d k e]
    by (auto simp: update_node_tx_def Pair Let_def intro: outside_same t split: sum.splits prod.splits)
      (metis outside_steps [OF t] snd_conv mvcc_untouched(7))+
qed

lemma outside_delete_node_tx: "outside tx s (snd (delete_node_tx tx n s))"
proof (cases "get_node n s")
  case (Pair r t)
  then have t: "mvcc_manager t = mvcc_manager s" using mvcc_untouched(1) [of n s] by simp
  have d: "mvcc_manager u = mvcc_manager t" if "delete_node n t = (q, u)" for q u
    using mvcc_untouched(5) [of n t] that by simp
  show ?thesis
    using outside_put_version [of "\<lparr>created_tx_id = tx, deleted_tx_id = tx, ver_data = d, ver_properties = []\<rparr>" t k e for d k e]
    by (auto simp: delete_node_tx_def Pair Let_def intro: outside_same t dest!: d
        split: sum.splits prod.splits if_splits)
      (metis outside_steps [OF t] outside_same snd_conv mvcc_untouched(7))+
qed

lemma outside_delete_edge_tx: "outside tx s (snd (delete_edge_tx tx e s))"
proof (cases "delete_edge e s")
  case (Pair r t)
  then have t: "mvcc_manager t = mvcc_manager s" using mvcc_untouched(6) [of e s] by simp
  show ?thesis
    using outside_put_version_ignored [of "\<lparr>created_tx_id = tx, deleted_tx_id = tx, ver_data = d, ver_properties = []\<rparr>" t k for d k]
    by (auto simp: delete_edge_tx_def Pair Let_def intro: outside_same t split: sum.splits prod.splits)
      (metis outside_steps [OF t] snd_conv mvcc_untouched(7))+
qed

lemma outside_get_tx: "outside tx s (snd (get_node_tx tx n s))" "outside tx s (snd (get_edge_tx tx e s))"
  by (auto simp: get_node_tx_def get_edge_tx_def intro: outside_refl outside_same
      split: option.splits sum.splits version_data.splits mvcc_error.splits mvcc_error_code.splits)

interpretation outside: store_relation "outside tx" tx for tx
  by unfold_locales
    (simp_all add: outside_refl outside_same outside_get_tx outside_create_node_tx outside_update_node_tx
      outside_delete_node_tx outside_delete_edge_tx, rule outside_trans)

section \<open>The transaction of a query\<close>

lemma executor_mvcc_set [simp]: "executor_mvcc (set_executor_mvcc m cx) = m"
  by (simp add: executor_mvcc_def set_executor_mvcc_def split: option.splits)

text \<open>The transaction a query begins, and the executor it runs in.\<close>

definition query_tx :: "CypherExecutor \<Rightarrow> transaction_id" where
  "query_tx cx = next_transaction_id (txn_manager (executor_mvcc cx))"

definition query_start :: "CypherExecutor \<Rightarrow> CypherExecutor" where
  "query_start cx =
     set_executor_mvcc
       ((executor_mvcc cx)\<lparr>txn_manager := snd (begin_transaction (txn_manager (executor_mvcc cx)))\<rparr>) cx"

definition query_txn :: "CypherExecutor \<Rightarrow> Transaction" where
  "query_txn cx = fst (begin_transaction (txn_manager (executor_mvcc cx)))"

lemma query_txn: "txn_id (query_txn cx) = query_tx cx" "txn_state (query_txn cx) = ACTIVE"
  by (simp_all add: query_txn_def query_tx_def begin_transaction_def get_current_timestamp_def
      new_Transaction_def Let_def)

lemma execute_query_eq:
  "execute_query std_sort q cx =
     (case run_query std_sort q (query_tx cx) (cypher_graph (query_start cx)) of
        None \<Rightarrow> None
      | Some (r, gs) \<Rightarrow>
          let cx' = (query_start cx)\<lparr>cypher_graph := gs\<rparr>
          in Some (case r of
               Inr result \<Rightarrow> (Inr result, end_transaction commit_transaction (query_txn cx) cx')
             | Inl (Error code msg) \<Rightarrow>
                 (Inl (Error code msg), end_transaction abort_transaction (query_txn cx) cx')
             | Inl (Exception what) \<Rightarrow>
                 (Inl (invalid_argument (''Query execution error: '' @ what)),
                  end_transaction abort_transaction (query_txn cx) cx')
             | Inl e \<Rightarrow> (Inl e, cx')))"
  unfolding execute_query_def Let_def case_prod_unfold query_txn(1) [symmetric]
  unfolding query_start_def query_txn_def by (rule refl)

text \<open>An error value ends a query with an abort.\<close>

lemma execute_query_error:
  assumes "execute_query std_sort q cx = Some (Inl (Error code msg), cx')"
  obtains r gs where "run_query std_sort q (query_tx cx) (cypher_graph (query_start cx)) = Some (r, gs)"
    and "cx' = end_transaction abort_transaction (query_txn cx) ((query_start cx)\<lparr>cypher_graph := gs\<rparr>)"
  using assms unfolding execute_query_eq Let_def
  by (auto split: option.splits sum.splits error.splits)

lemma executor_mvcc_end:
  "executor_mvcc (end_transaction finish txn cx) =
     (let m = executor_mvcc cx
      in m\<lparr>txn_manager := snd (snd (finish txn (txn_manager m))),
           lock_manager := unlock_all (txn_id txn) (lock_manager m)\<rparr>)"
  by (simp add: end_transaction_def Let_def)

text \<open>
  The store's own version manager after the query: the versions of the run, and the
  transactions of the start with the query's ended.
\<close>

lemma graph_mvcc_end:
  assumes "mvcc_manager (cypher_graph cx) = Some m"
  shows "mvcc_manager (cypher_graph (end_transaction finish txn cx)) =
     Some (m\<lparr>txn_manager := snd (snd (finish txn (txn_manager m))),
             lock_manager := unlock_all (txn_id txn) (lock_manager m)\<rparr>)"
  using assms by (simp add: end_transaction_def executor_mvcc_def set_executor_mvcc_def Let_def)

lemma graph_mvcc_start:
  "mvcc_manager (cypher_graph cx) = Some m \<Longrightarrow> mvcc_manager (cypher_graph (query_start cx)) =
     Some (m\<lparr>txn_manager := snd (begin_transaction (txn_manager m))\<rparr>)"
  by (simp add: query_start_def executor_mvcc_def set_executor_mvcc_def)

text \<open>The state of the other transactions is what it was before the query.\<close>

lemma ended_transactions:
  fixes tm :: TransactionManager
  defines "tx \<equiv> next_transaction_id tm"
  defines "tm1 \<equiv> snd (begin_transaction tm)" and "txn \<equiv> fst (begin_transaction tm)"
  shows "t \<noteq> tx \<Longrightarrow> is_transaction_committed t (snd (snd (abort_transaction txn tm1))) = is_transaction_committed t tm"
    "\<not> is_transaction_committed tx (snd (snd (abort_transaction txn tm1)))"
  by (simp_all add: assms begin_transaction_def get_current_timestamp_def new_Transaction_def
      abort_transaction_def is_transaction_committed_def Let_def split: option.splits)

lemma visible_version_cong:
  assumes "\<And>v. v \<in> set vec \<Longrightarrow> is_transaction_committed (created_tx_id v) tm = is_transaction_committed (created_tx_id v) tm'"
    and "\<And>v. v \<in> set vec \<Longrightarrow> is_transaction_committed (deleted_tx_id v) tm = is_transaction_committed (deleted_tx_id v) tm'"
  shows "visible_version tm reader vec = visible_version tm' reader vec"
  unfolding visible_version_def
  by (rule find_cong) (use assms in \<open>auto simp: is_version_visible_def\<close>)

text \<open>What a reader gets to see of a key.\<close>

lemma read_payload:
  "(\<exists>v. read_version key tx m = Inr v \<and> payload v = p) \<longleftrightarrow>
     map_option payload (visible_version (txn_manager m) tx (versions_at m key)) = Some p"
  unfolding read_version_visible by (cases "visible_version (txn_manager m) tx (versions_at m key)") auto


text \<open>A store with one committed version, and a query without clauses, which is refused.\<close>

definition example_manager :: MVCCManager where
  "example_manager =
     (new_MVCCManager
        (new_TransactionManager
           \<lparr>next_transaction_id := 2, current_timestamp := 3, completed_transactions := [1 \<mapsto> COMMITTED]\<rparr>))
       \<lparr>versions := [1 \<mapsto> [example_version 1]]\<rparr>"

definition example_executor :: CypherExecutor where
  "example_executor =
     \<lparr>cypher_graph = new_GraphStore example_store (Some example_manager) None,
      own_mvcc = new_MVCCManager new_TransactionManager\<rparr>"


end
