(* ===== verification/CypherOutcomes.thy ===== *)
theory CypherOutcomes
  imports CypherTransactions
begin

text \<open>
  Every query ends, and its transaction with it; every result is a table.
\<close>

section \<open>Every query ends\<close>

definition returns :: "'a io \<Rightarrow> bool" where
  "returns m \<longleftrightarrow> (\<forall>s. m s \<noteq> None)"

named_theorems returning \<open>rules for computations that return\<close>

lemma returns_basic [returning]: "returns (ret x)" "returns (fail e)" "returns (lift f)"
  by (simp_all add: returns_def ret_def fail_def lift_def)

lemma bind_not_None:
  "m s \<noteq> None \<Longrightarrow> (\<And>x. returns (f x)) \<Longrightarrow> bind_io m f s \<noteq> None"
  by (auto simp: returns_def bind_io_def split: option.splits sum.splits)

lemma returns_bind [returning]: "returns m \<Longrightarrow> (\<And>x. returns (f x)) \<Longrightarrow> returns (bind_io m f)"
  by (metis bind_not_None returns_def)

lemma returns_attempt [returning]:
  "returns m \<Longrightarrow> (\<And>x. returns (f x)) \<Longrightarrow> (\<And>e. returns (h e)) \<Longrightarrow> returns (attempt m f h)"
  by (auto simp: returns_def attempt_def split: option.splits sum.splits)

lemma returns_for_each [returning]: "(\<And>x a. returns (body x a)) \<Longrightarrow> returns (for_each xs acc body)"
  by (induction xs arbitrary: acc) (simp_all add: returning)

lemma returns_fetch [returning]: "returns (fetch_node tx n)" "returns (fetch_edge tx e)"
  by (simp_all add: fetch_node_def fetch_edge_def returning)

lemma returns_find_edges [returning]: "returns (find_edges_by_pattern edge source target tx)"
proof -
  have "returns (for_each es []
      (\<lambda>edge_id filtered.
         attempt (fetch_edge tx edge_id)
           (\<lambda>(record, properties).
              ret (if matches_edge_pattern edge properties \<and>
                      (target = 0 \<or> to_node record = target \<or>
                       (\<not> directed edge \<and> from_node record = target))
                   then filtered @ [edge_id] else filtered))
           (\<lambda>e. ret filtered)))" for es
    by (auto intro!: returning split: prod.splits)
  then show ?thesis
    unfolding returns_def find_edges_by_pattern_def by blast
qed

lemma returns_matches_node_pattern [returning]: "returns (matches_node_pattern pattern n tx)"
  unfolding matches_node_pattern_def by (auto intro!: returning split: prod.splits)

lemma returns_longer_paths [returning]: "returns (longer_paths edge tx path)"
  unfolding longer_paths_def by (auto intro!: returning split: prod.splits)

lemma returns_hop_loop: "hop_loop from_pattern edge to_pattern longest tx start queue results s \<noteq> None"
proof (induction from_pattern edge to_pattern longest tx start queue results s rule: hop_loop.induct)
  case (2 from_pattern edge to_pattern longest tx start path queue results s)
  have "(if b then matches_node_pattern to_pattern (last path) tx s else ret False s) \<noteq> None"
    "(if b then longer_paths edge tx path u else ret [] u) \<noteq> None" for b u
    using returns_matches_node_pattern [of to_pattern "last path" tx] returns_longer_paths [of edge tx path]
    by (simp_all add: returns_def ret_def)
  note total = this(1) [of "size_of_int (min_hops edge) \<le> length path - 1"]
    this(2) [of "length path - 1 < longest"]
  show ?case
  proof (cases "longest < length path - 1")
    case True
    then show ?thesis using 2(1) by simp
  next
    case False
    obtain q u where first: "(if size_of_int (min_hops edge) \<le> length path - 1
        then matches_node_pattern to_pattern (last path) tx s else ret False s) = Some (q, u)"
      using total(1) by (metis not_None_eq surj_pair)
    obtain q' v where second: "(if length path - 1 < longest then longer_paths edge tx path u else ret [] u) =
        Some (q', v)"
      using total(2) by (metis not_None_eq surj_pair)
    show ?thesis
      using False first second 2(2) [OF False first refl _ second refl]
      by (cases q; cases q') simp_all
  qed
qed simp

lemma returns_hops [returning]: "returns (hop_loop from_pattern edge to_pattern longest tx start queue results)"
  unfolding returns_def using returns_hop_loop by blast

text \<open>The scan over the ids ends unless it has to pass the largest one.\<close>

lemma scan_nodes_returns:
  assumes "limit \<noteq> - 1"
  shows "scan_nodes tx keep limit i found s \<noteq> None"
proof (induction "Suc (unat limit) - unat i" arbitrary: i found s)
  case 0
  then have "\<not> i \<le> limit" by (simp add: word_le_nat_alt)
  then show ?case by (subst scan_nodes.simps) simp
next
  case (Suc n)
  have le: "i \<le> limit" using Suc(2) by (simp add: word_le_nat_alt)
  then have more: "i \<noteq> - 1" using assms by (metis word_order.extremum_unique)
  have "n = Suc (unat limit) - unat (i + 1)" using unat_plus1 [OF more] Suc(2) by simp
  note rest = Suc(1) [OF this]
  have "fetch_node tx i s \<noteq> None" using returns_fetch(1) by (simp add: returns_def)
  then show ?case
    using le rest by (subst scan_nodes.simps) (auto split: option.split sum.split prod.split)
qed

text \<open>Otherwise it never does, here in a store in which no id is found.\<close>

lemma scan_nodes_never:
  assumes none: "\<And>n. fetch_node tx n s = Some (Inl e, s)" and "\<not> abrupt e"
  shows "scan_nodes tx keep (- 1) i found s = None"
proof (rule ccontr)
  assume "scan_nodes tx keep (- 1) i found s \<noteq> None"
  then obtain y where y: "scan_nodes tx keep (- 1) i found s = Some y" by blast
  have "tx = tx \<and> s = s \<longrightarrow> (- 1 :: u64) \<noteq> - 1"
  proof (rule scan_nodes.raw_induct [where P = "\<lambda>t keep limit i found u y. t = tx \<and> u = s \<longrightarrow> limit \<noteq> - 1",
        OF _ y], intro impI)
    fix scan t keep limit i found u y
    assume IH: "\<And>keep node_total i found gs b y. scan keep node_total i found gs b = Some y \<Longrightarrow>
        keep = tx \<and> b = s \<longrightarrow> i \<noteq> (- 1 :: u64)"
      and step: "(if i \<le> limit
        then case fetch_node t i u of
            None \<Rightarrow> None
          | Some (Inl e, gs) \<Rightarrow> if abrupt e then Some (Inl e, gs) else scan t keep limit (i + 1) found gs
          | Some (Inr (record, properties), gs) \<Rightarrow>
              scan t keep limit (i + 1) (if keep properties then found @ [i] else found) gs
        else Some (Inr found, u)) = Some y"
      and u: "t = tx \<and> u = s"
    show "limit \<noteq> - 1"
    proof
      assume max: "limit = - 1"
      then have "i \<le> limit" by simp
      then have "scan tx keep limit (i + 1) found s = Some y"
        using step u none assms(2) by simp
      then show False using IH max by blast
    qed
  qed
  then show False by simp
qed

lemma find_nodes_returns: "node_count s \<noteq> - 1 \<Longrightarrow> find_nodes_by_pattern pattern tx s \<noteq> None"
  by (simp add: find_nodes_by_pattern_def get_node_count_def scan_nodes_returns)

lemma returns_expand_edge [returning]: "returns (expand_edge edge to_pattern tx row e results)"
  unfolding expand_edge_def Let_def
  by (auto intro!: returning split: prod.splits option.splits)

lemma returns_expand_results [returning]: "returns (expand_results previous from_pattern edge to_pattern tx)"
  unfolding expand_results_def
  by (auto intro!: returning split: option.splits VariableBinding.splits)

lemma returns_expand_chain [returning]: "returns (expand_chain nodes rels found tx)"
  by (induction nodes rels found tx rule: expand_chain.induct) (auto intro!: returning)

lemma returns_execute_match:
  assumes "node_count s \<noteq> - 1"
  shows "execute_match pats tx s \<noteq> None"
proof -
  note find = find_nodes_returns [OF assms]
  have node: "match_node node tx s \<noteq> None" for node
    unfolding match_node_def by (rule bind_not_None, rule find) (rule returning)
  have path: "match_variable_length_path a e b tx s \<noteq> None" for a e b
    unfolding match_variable_length_path_def Let_def
    by (rule bind_not_None, rule find) (intro returning)
  have chain: "bind_io (match_node node tx) (\<lambda>results. expand_chain nodes rels results tx) s \<noteq> None"
    for node nodes rels
    by (rule bind_not_None, rule node) (rule returning)
  show ?thesis
    using node path chain
    by (auto simp: execute_match_def match_pattern_def ret_def fail_def simp del: expand_chain.simps
        split: list.splits)
qed

lemma returns_evaluate [returning]: "returns (evaluate_expression e row tx)"
  unfolding evaluate_expression_def Let_def
  by (auto intro!: returning split: Expression.splits option.splits VariableBinding.splits prod.splits)

lemma returns_evaluate_boolean [returning]: "returns (evaluate_boolean_expression e row tx)"
  by (induction e) (auto intro!: returning simp: is_true_def)

lemma returns_clauses [returning]:
  "returns (apply_where c input tx)" "returns (execute_return clause input tx)"
  "returns (execute_create pats tx)" "returns (execute_set set_clause input tx)"
  "returns (execute_delete delete_clause input tx)"
  unfolding apply_where_def execute_return_def execute_create_def create_node_from_pattern_def Let_def
    execute_set_def execute_delete_def
  by (auto intro!: returning split: prod.splits option.splits VariableBinding.splits)

lemma returns_optional: "(\<And>c x. returns (f c x)) \<Longrightarrow> returns (optional clause f x)"
  by (auto simp: optional_def intro!: returning split: option.splits)

lemma run_query_returns:
  assumes "node_count s \<noteq> - 1"
  shows "run_query std_sort q tx s \<noteq> None"
proof -
  define on where "on m \<longleftrightarrow> m s \<noteq> None" for m :: "QueryResult io"
  have match: "on (bind_io (execute_match pats tx) f)" if "\<And>x. returns (f x)" for pats f
    unfolding on_def by (rule bind_not_None, rule returns_execute_match [OF assms]) (rule that)
  have any: "on m" if "returns m" for m using that by (simp add: on_def returns_def)
  have "on (run_query std_sort q tx)"
    unfolding run_query_def
    by (auto intro!: match returning returns_optional any [OF returns_clauses(3)] any [OF returns_basic(2)])
  then show ?thesis by (simp add: on_def)
qed

text \<open>The outcome of a query on its transaction.\<close>

definition ended_as :: "transaction_state \<Rightarrow> transaction_id \<Rightarrow> MVCCManager \<Rightarrow> bool" where
  "ended_as state tx m \<longleftrightarrow>
     completed_transactions (txn_manager m) tx = Some state \<and>
     tx \<notin> active_transactions (txn_manager m) \<and>
     (\<forall>r. filter (\<lambda>req. req_tx req = tx) (requests_at (lock_manager m) r) = [])"

lemma ended_as_commit:
  "ended_as COMMITTED (query_tx cx) (executor_mvcc (end_transaction commit_transaction (query_txn cx) cx'))"
  "ended_as ABORTED (query_tx cx) (executor_mvcc (end_transaction abort_transaction (query_txn cx) cx'))"
  by (simp_all add: executor_mvcc_end ended_as_def query_txn commit_transaction_def abort_transaction_def
      get_current_timestamp_def requests_unlock_all Let_def)



section \<open>The shape of results\<close>

text \<open>What a computation that ends with a value yields has a property.\<close>

definition yields :: "('a \<Rightarrow> bool) \<Rightarrow> 'a io \<Rightarrow> bool" where
  "yields P m \<longleftrightarrow> (\<forall>s x s'. m s = Some (Inr x, s') \<longrightarrow> P x)"

named_theorems yields \<open>rules for what computations yield\<close>

lemma yields_ret [yields]: "P x \<Longrightarrow> yields P (ret x)"
  by (simp add: yields_def ret_def)

lemma yields_fail [yields]: "yields P (fail e)"
  by (simp add: yields_def fail_def)

lemma yields_bind: "yields Q m \<Longrightarrow> (\<And>x. Q x \<Longrightarrow> yields P (f x)) \<Longrightarrow> yields P (bind_io m f)"
  by (fastforce simp: yields_def bind_io_def split: option.splits sum.splits)

lemma yields_bind_any [yields]: "(\<And>x. yields P (f x)) \<Longrightarrow> yields P (bind_io m f)"
  by (fastforce simp: yields_def bind_io_def split: option.splits sum.splits)

text \<open>A loop that appends one element in every round.\<close>

lemma yields_for_each_length:
  "(\<And>x a. yields (\<lambda>r. length r = Suc (length a)) (body x a)) \<Longrightarrow>
     yields (\<lambda>r. length r = length acc + length xs) (for_each xs acc body)"
proof (induction xs arbitrary: acc)
  case (Cons x xs)
  have "yields (\<lambda>r. length r = length acc + length (x # xs)) (for_each xs a body)"
    if "length a = Suc (length acc)" for a
    using Cons(1) [OF Cons(2), of a] that by simp
  then show ?case unfolding for_each.simps by (rule yields_bind [OF Cons(2)])
qed (simp add: yields_ret)

lemma yields_for_each_all:
  "(\<And>x a. list_all P a \<Longrightarrow> yields (list_all P) (body x a)) \<Longrightarrow> list_all P acc \<Longrightarrow>
     yields (list_all P) (for_each xs acc body)"
proof (induction xs arbitrary: acc)
  case (Cons x xs)
  show ?case unfolding for_each.simps by (rule yields_bind [OF Cons(2) Cons(1)]) (simp_all add: Cons(2,3))
qed (simp add: yields_ret)

definition rectangular :: "QueryResult \<Rightarrow> bool" where
  "rectangular result \<longleftrightarrow> list_all (\<lambda>row. length row = length (columns result)) (rows result)"

lemma length_return_columns: "length (return_columns items) = length items"
proof -
  have "length (foldl (\<lambda>cols item. cols @ [column_name item (length cols)]) cs items) =
      length cs + length items" for cs
    by (induction items arbitrary: cs) simp_all
  then show ?thesis by (simp add: return_columns_def)
qed

lemma yields_return: "yields rectangular (execute_return clause input tx)"
proof -
  let ?P = "\<lambda>row :: string list. length row = length (return_items clause)"
  have row: "yields ?P (for_each (return_items clause) []
      (\<lambda>item out. bind_io (evaluate_expression (item_expression item) row tx)
         (\<lambda>v. ret (out @ [property_value_to_string v]))))" for row
    using yields_for_each_length [where acc = "[]" and xs = "return_items clause"
        and body = "\<lambda>item out. bind_io (evaluate_expression (item_expression item) row tx)
          (\<lambda>v. ret (out @ [property_value_to_string v]))"]
    by (simp add: yields)
  have "yields (list_all ?P) (for_each input []
      (\<lambda>row rs. bind_io (for_each (return_items clause) []
           (\<lambda>item out. bind_io (evaluate_expression (item_expression item) row tx)
              (\<lambda>v. ret (out @ [property_value_to_string v]))))
         (\<lambda>out. ret (rs @ [out]))))"
    by (rule yields_for_each_all) (auto intro!: yields_bind [OF row] yields_ret)
  then show ?thesis
    unfolding execute_return_def
    by (rule yields_bind) (simp add: yields_ret rectangular_def length_return_columns)
qed

lemma yields_writes:
  "yields rectangular (execute_create pats tx)" "yields rectangular (execute_set set_clause input tx)"
  "yields rectangular (execute_delete delete_clause input tx)"
  unfolding execute_create_def execute_set_def execute_delete_def
  by (auto intro!: yields simp: rectangular_def add_row_def new_QueryResult_def split: prod.splits)

lemma rectangular_order: "sorts std_sort \<Longrightarrow> rectangular q \<Longrightarrow> rectangular (apply_order_by std_sort q items)"
proof (cases "items = []")
  case False
  assume sorts: "sorts std_sort" and q: "rectangular q"
  have "set (rows q) \<subseteq> {row. length row = length (columns q)}"
    using q by (auto simp: rectangular_def list_all_iff)
  then have "strict_weak (row_before (columns q) items) (set (rows q))"
    by (rule strict_weak_subset [OF row_before_strict_weak])
  then have "set (std_sort (row_before (columns q) items) (rows q)) = set (rows q)"
    using sorts unfolding sorts_def by (metis set_mset_mset)
  then show "rectangular (apply_order_by std_sort q items)"
    using q False by (simp add: rectangular_def apply_order_by_def list_all_iff)
qed (simp add: apply_order_by_def)

lemma rectangular_limit: "rectangular q \<Longrightarrow> apply_limit q n = Inr r \<Longrightarrow> rectangular r"
  using set_take_subset [of "nat (sint n)" "rows q"]
  by (auto simp: rectangular_def apply_limit_def list_all_iff split: if_splits)

lemma yields_optional:
  "P x \<Longrightarrow> (\<And>c x. P x \<Longrightarrow> yields P (f c x)) \<Longrightarrow> yields P (optional clause f x)"
  by (simp add: optional_def yields_ret split: option.split)

text \<open>
  C25. Every result is a table: each of its rows has as many cells as there are columns,
  whatever the query, its clauses, the store and the order \<open>std::sort\<close> leaves equal rows in.
\<close>

theorem query_result_rectangular:
  assumes "sorts std_sort" and "execute_query std_sort q cx = Some (Inr result, cx')"
  shows "list_all (\<lambda>row. length row = length (columns result)) (rows result)"
proof -
  have limit: "yields rectangular (lift (\<lambda>gs. (apply_limit r n, gs)))" if "rectangular r" for r n
    using rectangular_limit [OF that] by (simp add: yields_def lift_def)
  have empty: "rectangular (new_QueryResult cols)" for cols
    by (simp add: rectangular_def new_QueryResult_def)
  have order: "yields rectangular (ret (apply_order_by std_sort r items))" if "rectangular r" for r items
    using rectangular_order [OF assms(1) that] by (rule yields_ret)
  have writing: "yields rectangular (bind_io
      (optional (query_set q) (\<lambda>c r. execute_set c found tx) (new_QueryResult cols))
      (optional (query_delete q) (\<lambda>c r. execute_delete c found tx)))" for found tx cols
    by (rule yields_bind [where Q = rectangular]; rule yields_optional) (auto intro: empty yields_writes)
  have read: "yields rectangular (bind_io (execute_return clause found tx)
      (\<lambda>result. bind_io
         (optional (query_order_by q) (\<lambda>items r. ret (apply_order_by std_sort r items)) result)
         (optional (query_limit q) (\<lambda>n r. lift (\<lambda>gs. (apply_limit r n, gs))))))" for clause found tx
    by (rule yields_bind [OF yields_return], rule yields_bind [where Q = rectangular]; rule yields_optional)
      (auto intro: order limit)
  have "yields rectangular (run_query std_sort q tx)" for tx
    unfolding run_query_def by (auto intro!: yields yields_writes writing read)
  moreover obtain gs where "run_query std_sort q (query_tx cx) (cypher_graph (query_start cx)) =
      Some (Inr result, gs)"
    using assms(2) unfolding execute_query_eq Let_def
    by (auto split: option.splits sum.splits error.splits)
  ultimately have "rectangular result" unfolding yields_def by blast
  then show ?thesis by (simp add: rectangular_def)
qed


lemma query_result_rectangular_witness:
  "\<exists>result cx'. execute_query insertion_sort (new_Query\<lparr>query_create := Some []\<rparr>) example_executor =
      Some (Inr result, cx') \<and>
    columns result = [''created_nodes'', ''created_edges''] \<and>
    filter (\<lambda>row. length row \<noteq> length (columns result)) (rows result) = []"
proof -
  obtain result cx' where run: "execute_query insertion_sort (new_Query\<lparr>query_create := Some []\<rparr>) example_executor =
      Some (Inr result, cx')" "columns result = [''created_nodes'', ''created_edges'']"
    by (simp add: execute_query_eq run_query_def new_Query_def is_read_query_def execute_create_def
        bind_io_def ret_def add_row_def new_QueryResult_def)
  show ?thesis
    using query_result_rectangular [OF insertion_sorts run(1)] run
    by (auto simp: list_all_iff filter_empty_conv)
qed

end
