(* ===== verification/CypherGrammar.thy ===== *)
theory CypherGrammar
  imports CypherEval
begin

text \<open>
  \<open>query/cypher/grammar.h\<close>: the rules of the grammar, which are data here, and what the
  combinators of PEGTL they are built from are documented to match. A text is matched with
  fuel; every text has an outcome, so that enough fuel exists for each.
\<close>

section \<open>Rules\<close>

text \<open>The structs of \<open>grammar.h\<close>, in four groups: tokens, expressions, patterns, clauses.\<close>

datatype token =
    RWs | ROptWs | RIdentifier | RLabel | RPropertyKey | RStringLiteral | RSingleQuoteString | RStringValue
  | RInteger | RDecimal | RNumber | RTrueLiteral | RFalseLiteral | RBoolean | RPropertyValue
  | RPropertyAccess | REqOp | RNeOp | RLtOp | RLeOp | RGtOp | RGeOp | RComparisonOp | RAndOp | ROrOp | RNotOp

datatype phrase =
    RLiteralExpression | RIdentifierExpression | RPropertyAccessExpression | RPrimaryExpression
  | RComparisonExpression | RNotExpression | RAndExpression | ROrExpression | RLogicalExpression
  | RExpression | RParenthesizedExpression

datatype part =
    RPropertyPair | RPropertyList | RPropertyMap | RNodeLabels | RNodePattern | REdgeType | REdgeTypes
  | RMinHops | RMaxHops | RRangeSpec | RVariableLengthRange | RDirectedEdge | RUndirectedEdge
  | RSimpleUndirectedEdge | REdgePattern | RPathElement | RPathPattern | RPattern

datatype clause =
    RMatchKeyword | RWhereKeyword | RReturnKeyword | RCreateKeyword | RSetKeyword | RDeleteKeyword
  | RDetachKeyword | RLimitKeyword | ROrderKeyword | RByKeyword | RAscKeyword | RDescKeyword
  | RDistinctKeyword | RAsKeyword | RPatternList | RMatchClause | RWhereClause | RReturnItem | RReturnList
  | RReturnClause | RCreateClause | RSetAssignment | RSetClause | RDeleteList | RDeleteClause | RLimitClause
  | ROrderDirection | ROrderItem | ROrderList | ROrderByClause | RQuery

text \<open>
  A rule is one of these structs or an instance of a template of PEGTL; \<open>Root\<close> is the rule
  of the root of a parse tree, which has none.
\<close>

datatype rule =
    Tok token | Phr phrase | Part part | Cla clause
  | One char | Ranges "(char \<times> char) list" | Str string | Keyword string | Space | Digit | Eof
  | Seq "rule list" | Sor "rule list" | Star rule | Plus rule | Opt rule
  | ListOf rule rule | IfMust rule rule | Until rule | Root

section \<open>The grammar\<close>

primrec token_base :: "token \<Rightarrow> rule" where
  "token_base RWs = Plus Space"
| "token_base ROptWs = Star Space"
| "token_base RIdentifier =
     Seq [Ranges [(CHR ''a'', CHR ''z''), (CHR ''A'', CHR ''Z''), (CHR ''_'', CHR ''_'')],
          Star (Ranges [(CHR ''a'', CHR ''z''), (CHR ''A'', CHR ''Z''), (CHR ''0'', CHR ''9''), (CHR ''_'', CHR ''_'')])]"
| "token_base RLabel = Seq [One (CHR '':''), Tok RIdentifier]"
| "token_base RPropertyKey =
     Seq [Ranges [(CHR ''a'', CHR ''z''), (CHR ''A'', CHR ''Z''), (CHR ''_'', CHR ''_'')],
          Star (Ranges [(CHR ''a'', CHR ''z''), (CHR ''A'', CHR ''Z''), (CHR ''0'', CHR ''9''), (CHR ''_'', CHR ''_'')])]"
| "token_base RStringLiteral = IfMust (One (CHR 0x22)) (Until (One (CHR 0x22)))"
| "token_base RSingleQuoteString = IfMust (One (CHR 0x27)) (Until (One (CHR 0x27)))"
| "token_base RStringValue = Sor [Tok RStringLiteral, Tok RSingleQuoteString]"
| "token_base RInteger = Seq [Opt (One (CHR ''-'')), Plus Digit]"
| "token_base RDecimal = Seq [Tok RInteger, One (CHR ''.''), Plus Digit]"
| "token_base RNumber = Sor [Tok RDecimal, Tok RInteger]"
| "token_base RTrueLiteral = Str ''true''"
| "token_base RFalseLiteral = Str ''false''"
| "token_base RBoolean = Sor [Tok RTrueLiteral, Tok RFalseLiteral]"
| "token_base RPropertyValue = Sor [Tok RStringValue, Tok RNumber, Tok RBoolean]"
| "token_base RPropertyAccess = Seq [Tok RIdentifier, One (CHR ''.''), Tok RPropertyKey]"
| "token_base REqOp = Str ''=''"
| "token_base RNeOp = Str ''<>''"
| "token_base RLtOp = Str ''<''"
| "token_base RLeOp = Str ''<=''"
| "token_base RGtOp = Str ''>''"
| "token_base RGeOp = Str ''>=''"
| "token_base RComparisonOp = Sor [Tok RLeOp, Tok RGeOp, Tok RNeOp, Tok REqOp, Tok RLtOp, Tok RGtOp]"
| "token_base RAndOp = Keyword ''AND''"
| "token_base ROrOp = Keyword ''OR''"
| "token_base RNotOp = Keyword ''NOT''"

text \<open>\<open>identifier_expression\<close> derives from \<open>identifier\<close>: the same text, but another rule.\<close>

primrec phrase_base :: "phrase \<Rightarrow> rule" where
  "phrase_base RLiteralExpression = token_base RPropertyValue"
| "phrase_base RIdentifierExpression = token_base RIdentifier"
| "phrase_base RPropertyAccessExpression = token_base RPropertyAccess"
| "phrase_base RPrimaryExpression =
     Sor [Phr RParenthesizedExpression, Phr RLiteralExpression, Phr RPropertyAccessExpression, Phr RIdentifierExpression]"
| "phrase_base RComparisonExpression =
     Seq [Phr RPrimaryExpression, Tok ROptWs, Tok RComparisonOp, Tok ROptWs, Phr RPrimaryExpression]"
| "phrase_base RNotExpression = Seq [Tok RNotOp, Tok RWs, Phr RPrimaryExpression]"
| "phrase_base RAndExpression = Seq [Phr RPrimaryExpression, Tok ROptWs, Tok RAndOp, Tok ROptWs, Phr RPrimaryExpression]"
| "phrase_base ROrExpression = Seq [Phr RPrimaryExpression, Tok ROptWs, Tok ROrOp, Tok ROptWs, Phr RPrimaryExpression]"
| "phrase_base RLogicalExpression = Sor [Phr ROrExpression, Phr RAndExpression, Phr RNotExpression]"
| "phrase_base RExpression = Sor [Phr RLogicalExpression, Phr RComparisonExpression, Phr RPrimaryExpression]"
| "phrase_base RParenthesizedExpression =
     Seq [One (CHR ''(''), Tok ROptWs, Phr RExpression, Tok ROptWs, One (CHR '')'')]"

definition comma :: rule where
  "comma = Seq [Tok ROptWs, One (CHR '',''), Tok ROptWs]"

primrec part_base :: "part \<Rightarrow> rule" where
  "part_base RPropertyPair = Seq [Tok RPropertyKey, Tok ROptWs, One (CHR '':''), Tok ROptWs, Tok RPropertyValue]"
| "part_base RPropertyList = ListOf (Part RPropertyPair) comma"
| "part_base RPropertyMap =
     Seq [One (CHR ''{''), Tok ROptWs, Opt (Part RPropertyList), Tok ROptWs, One (CHR ''}'')]"
| "part_base RNodeLabels = Star (Tok RLabel)"
| "part_base RNodePattern =
     Seq [One (CHR ''(''), Tok ROptWs, Opt (Tok RIdentifier), Tok ROptWs, Opt (Part RNodeLabels), Tok ROptWs,
          Opt (Part RPropertyMap), Tok ROptWs, One (CHR '')'')]"
| "part_base REdgeType = Seq [One (CHR '':''), Tok RIdentifier]"
| "part_base REdgeTypes = Star (Part REdgeType)"
| "part_base RMinHops = token_base RInteger"
| "part_base RMaxHops = token_base RInteger"
| "part_base RRangeSpec =
     Sor [Seq [Part RMinHops, Str ''..'', Part RMaxHops], Seq [Part RMinHops, Str ''..''],
          Seq [Str ''..'', Part RMaxHops], Part RMinHops]"
| "part_base RVariableLengthRange = Seq [One (CHR ''*''), Opt (Part RRangeSpec)]"
| "part_base RDirectedEdge =
     Seq [One (CHR ''-''), One (CHR ''[''), Tok ROptWs, Opt (Tok RIdentifier), Tok ROptWs, Opt (Part REdgeTypes),
          Tok ROptWs, Opt (Part RVariableLengthRange), Tok ROptWs, Opt (Part RPropertyMap), Tok ROptWs,
          One (CHR '']''), Str ''->'']"
| "part_base RUndirectedEdge =
     Seq [One (CHR ''-''), One (CHR ''[''), Tok ROptWs, Opt (Tok RIdentifier), Tok ROptWs, Opt (Part REdgeTypes),
          Tok ROptWs, Opt (Part RVariableLengthRange), Tok ROptWs, Opt (Part RPropertyMap), Tok ROptWs,
          One (CHR '']''), One (CHR ''-'')]"
| "part_base RSimpleUndirectedEdge = Seq [One (CHR ''-''), One (CHR ''-'')]"
| "part_base REdgePattern = Sor [Part RDirectedEdge, Part RUndirectedEdge, Part RSimpleUndirectedEdge]"
| "part_base RPathElement = Sor [Part RNodePattern, Part REdgePattern]"
| "part_base RPathPattern = Seq [Part RNodePattern, Star (Seq [Part REdgePattern, Part RNodePattern])]"
| "part_base RPattern = Seq [Part RNodePattern, Star (Seq [Part REdgePattern, Part RNodePattern])]"

primrec clause_base :: "clause \<Rightarrow> rule" where
  "clause_base RMatchKeyword = Keyword ''MATCH''"
| "clause_base RWhereKeyword = Keyword ''WHERE''"
| "clause_base RReturnKeyword = Keyword ''RETURN''"
| "clause_base RCreateKeyword = Keyword ''CREATE''"
| "clause_base RSetKeyword = Keyword ''SET''"
| "clause_base RDeleteKeyword = Keyword ''DELETE''"
| "clause_base RDetachKeyword = Keyword ''DETACH''"
| "clause_base RLimitKeyword = Keyword ''LIMIT''"
| "clause_base ROrderKeyword = Keyword ''ORDER''"
| "clause_base RByKeyword = Keyword ''BY''"
| "clause_base RAscKeyword = Keyword ''ASC''"
| "clause_base RDescKeyword = Keyword ''DESC''"
| "clause_base RDistinctKeyword = Keyword ''DISTINCT''"
| "clause_base RAsKeyword = Keyword ''AS''"
| "clause_base RPatternList = ListOf (Part RPattern) comma"
| "clause_base RMatchClause = Seq [Cla RMatchKeyword, Tok RWs, Cla RPatternList]"
| "clause_base RWhereClause = Seq [Cla RWhereKeyword, Tok RWs, Phr RExpression]"
| "clause_base RReturnItem = Seq [Phr RExpression, Opt (Seq [Tok RWs, Cla RAsKeyword, Tok RWs, Tok RIdentifier])]"
| "clause_base RReturnList = ListOf (Cla RReturnItem) comma"
| "clause_base RReturnClause =
     Seq [Cla RReturnKeyword, Opt (Seq [Tok RWs, Cla RDistinctKeyword]), Tok RWs, Cla RReturnList]"
| "clause_base RCreateClause = Seq [Cla RCreateKeyword, Tok RWs, Cla RPatternList]"
| "clause_base RSetAssignment = Seq [Tok RPropertyAccess, Tok ROptWs, One (CHR ''=''), Tok ROptWs, Phr RExpression]"
| "clause_base RSetClause = Seq [Cla RSetKeyword, Tok RWs, Cla RSetAssignment]"
| "clause_base RDeleteList = ListOf (Tok RIdentifier) comma"
| "clause_base RDeleteClause =
     Seq [Opt (Seq [Cla RDetachKeyword, Tok RWs]), Cla RDeleteKeyword, Tok RWs, Cla RDeleteList]"
| "clause_base RLimitClause = Seq [Cla RLimitKeyword, Tok RWs, Tok RInteger]"
| "clause_base ROrderDirection = Sor [Cla RAscKeyword, Cla RDescKeyword]"
| "clause_base ROrderItem = Seq [Phr RExpression, Opt (Seq [Tok RWs, Cla ROrderDirection])]"
| "clause_base ROrderList = ListOf (Cla ROrderItem) comma"
| "clause_base ROrderByClause = Seq [Cla ROrderKeyword, Tok RWs, Cla RByKeyword, Tok RWs, Cla ROrderList]"
| "clause_base RQuery =
     Seq [Tok ROptWs,
       Sor [
         Seq [Cla RMatchClause,
           Opt (Seq [Tok RWs, Cla RWhereClause]),
           Opt (Sor [
             Seq [Tok RWs, Cla RReturnClause, Opt (Seq [Tok RWs, Cla ROrderByClause]), Opt (Seq [Tok RWs, Cla RLimitClause])],
             Seq [Tok RWs, Cla RSetClause],
             Seq [Tok RWs, Cla RDeleteClause]])],
         Seq [Cla RCreateClause, Opt (Seq [Tok RWs, Cla RReturnClause])],
         Seq [Cla RSetClause, Opt (Seq [Tok RWs, Cla RReturnClause])],
         Seq [Cla RDeleteClause, Opt (Seq [Tok RWs, Cla RReturnClause])]],
       Tok ROptWs, Eof]"

fun base :: "rule \<Rightarrow> rule" where
  "base (Tok t) = token_base t"
| "base (Phr p) = phrase_base p"
| "base (Part p) = part_base p"
| "base (Cla c) = clause_base c"
| "base r = r"

section \<open>Parse trees\<close>

text \<open>A node: its rule, the text it matched, its children.\<close>

datatype tree = Tree (tree_rule: rule) (tree_text: string) (tree_children: "tree list")

definition is_space :: "char \<Rightarrow> bool" where
  "is_space c \<longleftrightarrow> c \<in> set [CHR '' '', CHR 0x09, CHR 0x0A, CHR 0x0B, CHR 0x0C, CHR 0x0D]"

definition is_digit :: "char \<Rightarrow> bool" where
  "is_digit c \<longleftrightarrow> 48 \<le> (of_char c :: nat) \<and> (of_char c :: nat) \<le> 57"

definition in_ranges :: "char \<Rightarrow> (char \<times> char) list \<Rightarrow> bool" where
  "in_ranges c ranges \<longleftrightarrow>
     list_ex (\<lambda>(a, b). (of_char a :: nat) \<le> of_char c \<and> (of_char c :: nat) \<le> of_char b) ranges"

text \<open>The characters that may not follow a keyword.\<close>

definition identifier_other :: "char \<Rightarrow> bool" where
  "identifier_other c \<longleftrightarrow>
     in_ranges c [(CHR ''a'', CHR ''z''), (CHR ''A'', CHR ''Z''), (CHR ''0'', CHR ''9''), (CHR ''_'', CHR ''_'')]"

section \<open>Matching\<close>

text \<open>
  What a rule does on a text: it matches a prefix, with its nodes and the rest, fails, or
  throws (\<open>if_must\<close>).
\<close>

datatype outcome = Matched "tree list" string | Fails | Throws

fun before :: "tree list \<Rightarrow> outcome \<Rightarrow> outcome" where
  "before ts (Matched us rest) = Matched (ts @ us) rest"
| "before ts Fails = Fails"
| "before ts Throws = Throws"

text \<open>One match and another one behind it, or instead of it. \<open>None\<close>: the fuel is used up.\<close>

definition followed :: "outcome option \<Rightarrow> (string \<Rightarrow> outcome option) \<Rightarrow> outcome option" where
  "followed a f =
     (case a of
        Some (Matched ts rest) \<Rightarrow> map_option (before ts) (f rest)
      | _ \<Rightarrow> a)"

definition or_else :: "outcome option \<Rightarrow> outcome option \<Rightarrow> outcome option" where
  "or_else a b = (if a = Some Fails then b else a)"

text \<open>In this form evaluation only takes the second match when it needs it.\<close>

lemma or_else_case [code_unfold]:
  "or_else a b =
     (case a of
        None \<Rightarrow> None
      | Some (Matched ts rest) \<Rightarrow> Some (Matched ts rest)
      | Some Throws \<Rightarrow> Some Throws
      | Some Fails \<Rightarrow> b)"
  by (simp add: or_else_def split: option.split outcome.split)

text \<open>A rule is matched by \<open>p\<close>.\<close>

type_synonym matcher = "rule \<Rightarrow> string \<Rightarrow> outcome option"

primrec match_seq :: "matcher \<Rightarrow> rule list \<Rightarrow> string \<Rightarrow> outcome option" where
  "match_seq p [] s = Some (Matched [] s)"
| "match_seq p (r # rs) s = followed (p r s) (match_seq p rs)"

primrec match_sor :: "matcher \<Rightarrow> rule list \<Rightarrow> string \<Rightarrow> outcome option" where
  "match_sor p [] s = Some Fails"
| "match_sor p (r # rs) s = or_else (p r s) (match_sor p rs s)"

primrec match_star :: "matcher \<Rightarrow> nat \<Rightarrow> rule list \<Rightarrow> string \<Rightarrow> outcome option" where
  "match_star p 0 rs s = None"
| "match_star p (Suc n) rs s =
     or_else (followed (match_seq p rs s) (match_star p n rs)) (Some (Matched [] s))"

primrec match_until :: "matcher \<Rightarrow> rule \<Rightarrow> string \<Rightarrow> outcome option" where
  "match_until p r [] = p r []"
| "match_until p r (c # cs) = or_else (p r (c # cs)) (match_until p r cs)"

definition match_if :: "bool \<Rightarrow> string \<Rightarrow> outcome option" where
  "match_if b rest = Some (if b then Matched [] rest else Fails)"

fun match_char :: "(char \<Rightarrow> bool) \<Rightarrow> string \<Rightarrow> outcome option" where
  "match_char f [] = Some Fails"
| "match_char f (c # cs) = match_if (f c) cs"

text \<open>The nodes inside a rule.\<close>

fun match_inside :: "matcher \<Rightarrow> nat \<Rightarrow> rule \<Rightarrow> string \<Rightarrow> outcome option" where
  "match_inside p n (One c) s = match_char (\<lambda>d. d = c) s"
| "match_inside p n (Ranges cs) s = match_char (\<lambda>c. in_ranges c cs) s"
| "match_inside p n Space s = match_char is_space s"
| "match_inside p n Digit s = match_char is_digit s"
| "match_inside p n (Str t) s = match_if (take (length t) s = t) (drop (length t) s)"
| "match_inside p n (Keyword t) s =
     match_if (take (length t) s = t \<and> (case drop (length t) s of [] \<Rightarrow> True | c # cs \<Rightarrow> \<not> identifier_other c))
       (drop (length t) s)"
| "match_inside p n Eof s = match_if (s = []) s"
| "match_inside p n (Seq rs) s = match_seq p rs s"
| "match_inside p n (Sor rs) s = match_sor p rs s"
| "match_inside p n (Star r) s = match_star p n [r] s"
| "match_inside p n (Plus r) s = followed (p r s) (match_star p n [r])"
| "match_inside p n (ListOf r sep) s = followed (p r s) (match_star p n [sep, r])"
| "match_inside p n (Opt r) s = or_else (p r s) (Some (Matched [] s))"
| "match_inside p n (IfMust r must) s = followed (p r s) (\<lambda>rest. or_else (p must rest) (Some Throws))"
| "match_inside p n (Until r) s = match_until p r s"
| "match_inside p n _ s = Some Fails"

text \<open>Every rule makes a node, as \<open>parse_tree_selector\<close> selects them all.\<close>

definition node_of :: "rule \<Rightarrow> string \<Rightarrow> outcome \<Rightarrow> outcome" where
  "node_of r s res =
     (case res of
        Matched ts rest \<Rightarrow> Matched [Tree r (take (length s - length rest) s) ts] rest
      | _ \<Rightarrow> res)"

primrec peg :: "nat \<Rightarrow> matcher" where
  "peg 0 = (\<lambda>r s. None)"
| "peg (Suc n) = (\<lambda>r s. map_option (node_of r s) (match_inside (peg n) n (base r) s))"

text \<open>
  What \<open>tao::pegtl::parse_tree::parse\<close> is documented to give: a root with the node of
  \<open>query\<close>, no tree when it does not match, an exception when it throws.
\<close>

definition follows_grammar :: "(string \<Rightarrow> string + tree option) \<Rightarrow> bool" where
  "follows_grammar pegtl \<longleftrightarrow>
     (\<forall>s n. case peg n (Cla RQuery) s of
        None \<Rightarrow> True
      | Some (Matched ts rest) \<Rightarrow> pegtl s = Inr (Some (Tree Root [] ts))
      | Some Fails \<Rightarrow> pegtl s = Inr None
      | Some Throws \<Rightarrow> isl (pegtl s))"

end
