(* ===== verification/CypherParser.thy ===== *)
theory CypherParser
  imports CypherGrammar
begin

text \<open>
  \<open>query/cypher/parser.h\<close> and \<open>query/cypher/parser.cpp\<close>: the query that is built from a parse
  tree. The parse tree itself comes from the PEGTL library, which is an argument.
\<close>

section \<open>Library functions on strings\<close>

text \<open>
  \<open>std::stoi\<close> and \<open>std::stoll\<close>: white space, a sign, and decimal digits as far as they go.
\<close>

definition string_to_int :: "string \<Rightarrow> int \<Rightarrow> string \<Rightarrow> int result" where
  "string_to_int name bound s =
     (let s = dropWhile is_space s;
          (neg, s) = (case s of [] \<Rightarrow> (False, s)
            | c # cs \<Rightarrow> if c = CHR ''-'' then (True, cs) else if c = CHR ''+'' then (False, cs) else (False, s));
          ds = takeWhile is_digit s;
          n = (if neg then - int (digits_value ds) else int (digits_value ds))
      in if ds = [] then Inl (Exception name)
         else if n < - bound \<or> bound \<le> n then Inl (Exception name)
         else Inr n)"

definition stoi :: "string \<Rightarrow> i32 result" where
  "stoi s = map_sum id word_of_int (string_to_int ''stoi'' (2 ^ 31) s)"

definition stoll :: "string \<Rightarrow> i64 result" where
  "stoll s = map_sum id word_of_int (string_to_int ''stoll'' (2 ^ 63) s)"

text \<open>\<open>find\<close> and the two calls of \<open>substr\<close>: the text before and after the first occurrence.\<close>

fun split_at :: "string \<Rightarrow> string \<Rightarrow> (string \<times> string) option" where
  "split_at sep [] = (if sep = [] then Some ([], []) else None)"
| "split_at sep (c # cs) =
     (if take (length sep) (c # cs) = sep then Some ([], drop (length sep) (c # cs))
      else map_option (\<lambda>(before, after). (c # before, after)) (split_at sep cs))"

text \<open>A string without its quotes.\<close>

definition unquote :: "string \<Rightarrow> string" where
  "unquote s =
     (if 2 \<le> length s \<and> (hd s = CHR 0x22 \<or> hd s = CHR 0x27) then butlast (tl s) else s)"

text \<open>
  The library's side: \<open>std::stod\<close>, whose rounding is not specified (\<open>None\<close> where it throws),
  and the order in which an \<open>unordered_map\<close> is iterated over.
\<close>

record cpp_library =
  stod :: "string \<Rightarrow> u64 option"
  map_order :: "PropertyMap \<Rightarrow> PropertyMap"

definition number_value :: "cpp_library \<Rightarrow> string \<Rightarrow> cypher_value result" where
  "number_value lib s =
     (if CHR ''.'' \<in> set s then
        (case stod lib s of None \<Rightarrow> Inl (Exception ''stod'') | Some d \<Rightarrow> Inr (DblVal d))
      else map_sum id IntVal (stoll s))"

section \<open>The state of the builder\<close>

text \<open>Stacks are lists, the top first. Three more members are never used.\<close>

record ParserState =
  built_query :: Query
  expression_stack :: "Expression list"
  pattern_stack :: "Pattern list"
  node_stack :: "NodePattern list"
  edge_stack :: "EdgePattern list"
  property_stack :: "PropertyMap list"
  return_stack :: "ReturnItem list list"
  temp_labels :: "string list"
  temp_edge_types :: "string list"

definition new_ParserState :: ParserState where
  "new_ParserState =
     \<lparr>built_query = new_Query, expression_stack = [], pattern_stack = [], node_stack = [],
      edge_stack = [], property_stack = [], return_stack = [], temp_labels = [], temp_edge_types = []\<rparr>"

definition push_expression :: "Expression \<Rightarrow> ParserState \<Rightarrow> ParserState" where
  "push_expression e st = st\<lparr>expression_stack := e # expression_stack st\<rparr>"

section \<open>Expressions\<close>

text \<open>The entity and the property of a property access, an empty name where there is none.\<close>

definition access_names :: "tree list \<Rightarrow> string \<times> string" where
  "access_names children =
     foldl (\<lambda>(entity, property) c.
         if tree_rule c = Tok RIdentifier then
           (if entity = [] then (tree_text c, property) else (entity, tree_text c))
         else if tree_rule c = Tok RPropertyKey then (entity, tree_text c)
         else (entity, property))
       ([], []) children"

definition build_property_access :: "tree list \<Rightarrow> ParserState \<Rightarrow> ParserState" where
  "build_property_access children st =
     (case access_names children of
        (entity, property) \<Rightarrow>
          if entity \<noteq> [] \<and> property \<noteq> [] then push_expression (PropertyAccess entity property) st else st)"

definition comparison_operator :: "string \<Rightarrow> ComparisonOperator" where
  "comparison_operator op =
     (if op = ''='' then EQUAL
      else if op = ''<>'' then NOT_EQUAL
      else if op = ''<'' then LESS_THAN
      else if op = ''<='' then LESS_EQUAL
      else if op = ''>'' then GREATER_THAN
      else if op = ''>='' then GREATER_EQUAL
      else EQUAL)"

definition build_comparison :: "tree list \<Rightarrow> ParserState \<Rightarrow> ParserState" where
  "build_comparison children st =
     (case expression_stack st of
        right # left # rest \<Rightarrow>
          let op = (case find (\<lambda>c. tree_rule c = Tok RComparisonOp) children of
                      None \<Rightarrow> EQUAL | Some c \<Rightarrow> comparison_operator (tree_text c))
          in st\<lparr>expression_stack := Comparison left op right # rest\<rparr>
      | _ \<Rightarrow> st)"

section \<open>Properties\<close>

text \<open>The value of a \<open>property_value\<close> node; a node without a literal leaves it as it was.\<close>

definition literal_of :: "cpp_library \<Rightarrow> tree \<Rightarrow> cypher_value \<Rightarrow> cypher_value result" where
  "literal_of lib t v =
     (case tree_rule t of
        Tok RStringValue \<Rightarrow> Inr (StrVal (unquote (tree_text t)))
      | Tok RNumber \<Rightarrow> number_value lib (tree_text t)
      | Tok RBoolean \<Rightarrow> Inr (BoolVal (tree_text t = ''true''))
      | _ \<Rightarrow> Inr v)"

fun fold_result :: "('x \<Rightarrow> 'a \<Rightarrow> 'a result) \<Rightarrow> 'x list \<Rightarrow> 'a \<Rightarrow> 'a result" where
  "fold_result f [] a = Inr a"
| "fold_result f (x # xs) a = (case f x a of Inl e \<Rightarrow> Inl e | Inr b \<Rightarrow> fold_result f xs b)"

text \<open>The key and the value of a pair; the value of a new variant is the empty string.\<close>

definition pair_of :: "cpp_library \<Rightarrow> tree list \<Rightarrow> (string \<times> cypher_value) result" where
  "pair_of lib children =
     fold_result
       (\<lambda>c (key, v).
          if tree_rule c = Tok RPropertyKey then Inr (tree_text c, v)
          else if tree_rule c = Tok RPropertyValue then
            map_sum id (\<lambda>v. (key, v)) (fold_result (literal_of lib) (tree_children c) v)
          else Inr (key, v))
       children ([], StrVal [])"

definition build_property_pair :: "cpp_library \<Rightarrow> tree list \<Rightarrow> ParserState \<Rightarrow> ParserState result" where
  "build_property_pair lib children st =
     (case pair_of lib children of
        Inl e \<Rightarrow> Inl e
      | Inr (key, v) \<Rightarrow>
          if key = [] then Inr st
          else
            Inr (case property_stack st of
                   [] \<Rightarrow> st\<lparr>property_stack := [[(key, v)]]\<rparr>
                 | props # rest \<Rightarrow> st\<lparr>property_stack := AList.update key v props # rest\<rparr>))"

text \<open>The map on the top of the stack, if any, moves to the node or edge.\<close>

definition pop_properties :: "cpp_library \<Rightarrow> ParserState \<Rightarrow> PropertyMap \<times> ParserState" where
  "pop_properties lib st =
     (case property_stack st of
        [] \<Rightarrow> ([], st)
      | props # rest \<Rightarrow> (map_order lib props, st\<lparr>property_stack := rest\<rparr>))"

section \<open>Nodes and edges\<close>

definition first_identifier :: "tree list \<Rightarrow> string list" where
  "first_identifier children =
     (case find (\<lambda>c. tree_rule c = Tok RIdentifier) children of None \<Rightarrow> [] | Some c \<Rightarrow> [tree_text c])"

definition variable_of :: "tree list \<Rightarrow> string option" where
  "variable_of children =
     map_option tree_text (find (\<lambda>c. tree_rule c = Opt (Tok RIdentifier) \<and> tree_text c \<noteq> []) children)"

definition build_node_pattern :: "cpp_library \<Rightarrow> tree list \<Rightarrow> ParserState \<Rightarrow> ParserState" where
  "build_node_pattern lib children st =
     (case pop_properties lib (st\<lparr>temp_labels := []\<rparr>) of
        (properties, st') \<Rightarrow>
          st'\<lparr>node_stack :=
                \<lparr>node_variable = variable_of children, node_labels = temp_labels st,
                 node_constraints = properties\<rparr> # node_stack st'\<rparr>)"

text \<open>The hops of a range without its star.\<close>

definition parse_range :: "string \<Rightarrow> EdgePattern \<Rightarrow> EdgePattern result" where
  "parse_range spec edge =
     (if spec = [] then Inr (edge\<lparr>max_hops := - 1\<rparr>)
      else
        (case split_at ''..'' spec of
          Some (first, second) \<Rightarrow>
            (case (if first = [] then Inr (min_hops edge) else stoi first) of
               Inl e \<Rightarrow> Inl e
             | Inr low \<Rightarrow>
                 (case (if second = [] then Inr (- 1) else stoi second) of
                    Inl e \<Rightarrow> Inl e
                  | Inr high \<Rightarrow> Inr (edge\<lparr>min_hops := low, max_hops := high\<rparr>)))
        | None \<Rightarrow>
            (case stoi spec of
               Inl e \<Rightarrow> Inl e
             | Inr n \<Rightarrow> Inr (edge\<lparr>min_hops := n, max_hops := n\<rparr>))))"

definition strip_star :: "string \<Rightarrow> string" where
  "strip_star s = (case s of [] \<Rightarrow> [] | c # cs \<Rightarrow> if c = CHR ''*'' then cs else c # cs)"

text \<open>The range of an edge, from its child; the lower bound is 1 already.\<close>

definition range_from_children :: "tree list \<Rightarrow> EdgePattern \<Rightarrow> EdgePattern result" where
  "range_from_children children edge =
     (case find (\<lambda>c. tree_rule c = Part RVariableLengthRange) children of
        None \<Rightarrow> Inr edge
      | Some c \<Rightarrow> parse_range (strip_star (tree_text c)) (edge\<lparr>min_hops := 1\<rparr>))"

text \<open>Otherwise from the text behind the first star of the edge, up to a bracket.\<close>

definition range_from_text :: "string \<Rightarrow> EdgePattern \<Rightarrow> EdgePattern result" where
  "range_from_text raw edge =
     (if min_hops edge = 1 \<and> max_hops edge = 1 \<and> CHR ''*'' \<in> set raw
      then parse_range (takeWhile (\<lambda>c. c \<noteq> CHR '']'') (tl (dropWhile (\<lambda>c. c \<noteq> CHR ''*'') raw))) edge
      else Inr edge)"

definition build_edge :: "cpp_library \<Rightarrow> tree \<Rightarrow> ParserState \<Rightarrow> ParserState result" where
  "build_edge lib node st =
     (case pop_properties lib (st\<lparr>temp_edge_types := []\<rparr>) of
        (properties, st') \<Rightarrow>
          let edge = new_EdgePattern
                \<lparr>directed := tree_rule node = Part RDirectedEdge,
                 edge_variable := variable_of (tree_children node),
                 edge_types := temp_edge_types st, edge_constraints := properties\<rparr>
          in (case range_from_children (tree_children node) edge of
                Inl e \<Rightarrow> Inl e
              | Inr edge \<Rightarrow>
                  (case range_from_text (tree_text node) edge of
                     Inl e \<Rightarrow> Inl e
                   | Inr edge \<Rightarrow> Inr (st'\<lparr>edge_stack := edge # edge_stack st'\<rparr>))))"

section \<open>Clauses\<close>

text \<open>The stacks are emptied into vectors and these reversed.\<close>

definition build_pattern :: "ParserState \<Rightarrow> ParserState" where
  "build_pattern st =
     st\<lparr>node_stack := [], edge_stack := [],
        pattern_stack :=
          \<lparr>pattern_nodes = rev (node_stack st), pattern_edges = rev (edge_stack st)\<rparr> # pattern_stack st\<rparr>"

definition build_match :: "ParserState \<Rightarrow> ParserState" where
  "build_match st =
     st\<lparr>pattern_stack := [],
        built_query := (built_query st)\<lparr>query_match := Some (rev (pattern_stack st))\<rparr>\<rparr>"

definition build_create :: "ParserState \<Rightarrow> ParserState" where
  "build_create st =
     st\<lparr>pattern_stack := [],
        built_query := (built_query st)\<lparr>query_create := Some (rev (pattern_stack st))\<rparr>\<rparr>"

definition build_return_item :: "ParserState \<Rightarrow> ParserState" where
  "build_return_item st =
     (case expression_stack st of
        [] \<Rightarrow> st
      | e # rest \<Rightarrow>
          let item = \<lparr>item_expression = e, item_alias = None\<rparr>
          in st\<lparr>expression_stack := rest,
                return_stack := (case return_stack st of
                    [] \<Rightarrow> [[item]] | items # stack \<Rightarrow> (items @ [item]) # stack)\<rparr>)"

definition build_return :: "ParserState \<Rightarrow> ParserState" where
  "build_return st =
     (let items = (case return_stack st of [] \<Rightarrow> [] | items # stack \<Rightarrow> items)
      in st\<lparr>return_stack := tl (return_stack st),
            built_query := (built_query st)
              \<lparr>query_return := Some \<lparr>return_items = items, return_distinct = False\<rparr>\<rparr>\<rparr>)"

definition build_where :: "ParserState \<Rightarrow> ParserState" where
  "build_where st =
     (case expression_stack st of
        [] \<Rightarrow> st
      | e # rest \<Rightarrow>
          st\<lparr>expression_stack := rest, built_query := (built_query st)\<lparr>query_where := Some e\<rparr>\<rparr>)"

definition build_limit :: "tree list \<Rightarrow> ParserState \<Rightarrow> ParserState result" where
  "build_limit children st =
     (case find (\<lambda>c. tree_rule c = Tok RInteger) children of
        None \<Rightarrow> Inr st
      | Some c \<Rightarrow>
          map_sum id (\<lambda>n. st\<lparr>built_query := (built_query st)\<lparr>query_limit := Some n\<rparr>\<rparr>)
            (stoll (tree_text c)))"

text \<open>Every expression left on the stack becomes an item.\<close>

definition build_order_by :: "tree list \<Rightarrow> ParserState \<Rightarrow> ParserState" where
  "build_order_by children st =
     (let direction =
            (case find (\<lambda>c. tree_rule c = Cla ROrderDirection) children of
               None \<Rightarrow> ASC | Some c \<Rightarrow> if tree_text c = ''DESC'' then DESC else ASC)
      in st\<lparr>expression_stack := [],
            built_query := (built_query st)
              \<lparr>query_order_by :=
                 Some (rev (map (\<lambda>e. \<lparr>order_expression = e, order_direction = direction\<rparr>)
                   (expression_stack st)))\<rparr>\<rparr>)"

text \<open>The variable is the first identifier that is not empty, the property the last key.\<close>

definition assigned_names :: "tree list \<Rightarrow> string \<times> string" where
  "assigned_names children =
     foldl (\<lambda>(variable, property) c.
         if tree_rule c = Tok RIdentifier \<and> variable = [] then (tree_text c, property)
         else if tree_rule c = Tok RPropertyKey then (variable, tree_text c)
         else (variable, property))
       ([], []) children"

definition set_target :: "tree list \<Rightarrow> string \<times> string" where
  "set_target children =
     (case find (\<lambda>c. tree_rule c = Tok RPropertyAccess \<or> tree_rule c = Cla RSetAssignment) children of
        None \<Rightarrow> ([], [])
      | Some c \<Rightarrow>
          if tree_rule c = Tok RPropertyAccess then assigned_names (tree_children c)
          else
            (case find (\<lambda>c. tree_rule c = Tok RPropertyAccess) (tree_children c) of
               None \<Rightarrow> ([], [])
             | Some access \<Rightarrow> assigned_names (tree_children access)))"

definition build_set :: "tree list \<Rightarrow> ParserState \<Rightarrow> ParserState" where
  "build_set children st =
     (case set_target children of
        (variable, property) \<Rightarrow>
          (case expression_stack st of
             [] \<Rightarrow> st
           | e # rest \<Rightarrow>
               let st = st\<lparr>expression_stack := rest\<rparr>
               in if variable \<noteq> [] \<and> property \<noteq> [] then
                    st\<lparr>built_query := (built_query st)
                         \<lparr>query_set := Some \<lparr>set_variable = variable, set_property = property, set_value = e\<rparr>\<rparr>\<rparr>
                  else st))"

definition deleted_variables :: "tree list \<Rightarrow> string list" where
  "deleted_variables children =
     concat (map (\<lambda>c.
       if tree_rule c = Tok RIdentifier then [tree_text c]
       else if tree_rule c = Cla RDeleteList then
         map tree_text (filter (\<lambda>g. tree_rule g = Tok RIdentifier) (tree_children c))
       else []) children)"

definition build_delete :: "tree list \<Rightarrow> ParserState \<Rightarrow> ParserState" where
  "build_delete children st =
     (let vars = deleted_variables children
      in if vars = [] then st
         else st\<lparr>built_query := (built_query st)
                \<lparr>query_delete := Some
                   \<lparr>delete_variables = vars,
                    detach = list_ex (\<lambda>c. tree_rule c = Cla RDetachKeyword) children\<rparr>\<rparr>\<rparr>)"

section \<open>The builder\<close>

definition build_node :: "cpp_library \<Rightarrow> tree \<Rightarrow> ParserState \<Rightarrow> ParserState result" where
  "build_node lib node st =
     (let children = tree_children node; txt = tree_text node
      in case tree_rule node of
           Tok RIdentifier \<Rightarrow> Inr (push_expression (Identifier txt) st)
         | Tok RStringValue \<Rightarrow> Inr (push_expression (Literal (StrVal (unquote txt))) st)
         | Tok RNumber \<Rightarrow> map_sum id (\<lambda>v. push_expression (Literal v) st) (number_value lib txt)
         | Tok RBoolean \<Rightarrow> Inr (push_expression (Literal (BoolVal (txt = ''true''))) st)
         | Phr RPropertyAccessExpression \<Rightarrow> Inr (build_property_access children st)
         | Phr RComparisonExpression \<Rightarrow> Inr (build_comparison children st)
         | Part RPropertyPair \<Rightarrow> build_property_pair lib children st
         | Part RPropertyMap \<Rightarrow>
             Inr (if property_stack st = [] then st\<lparr>property_stack := [[]]\<rparr> else st)
         | Tok RLabel \<Rightarrow> Inr (st\<lparr>temp_labels := temp_labels st @ first_identifier children\<rparr>)
         | Part REdgeType \<Rightarrow> Inr (st\<lparr>temp_edge_types := temp_edge_types st @ first_identifier children\<rparr>)
         | Part RNodePattern \<Rightarrow> Inr (build_node_pattern lib children st)
         | Part RDirectedEdge \<Rightarrow> build_edge lib node st
         | Part RUndirectedEdge \<Rightarrow> build_edge lib node st
         | Part RSimpleUndirectedEdge \<Rightarrow> build_edge lib node st
         | Part RPattern \<Rightarrow> Inr (build_pattern st)
         | Cla RMatchClause \<Rightarrow> Inr (build_match st)
         | Cla RCreateClause \<Rightarrow> Inr (build_create st)
         | Cla RReturnItem \<Rightarrow> Inr (build_return_item st)
         | Cla RReturnClause \<Rightarrow> Inr (build_return st)
         | Cla RWhereClause \<Rightarrow> Inr (build_where st)
         | Cla RLimitClause \<Rightarrow> build_limit children st
         | Cla ROrderByClause \<Rightarrow> Inr (build_order_by children st)
         | Cla RSetClause \<Rightarrow> Inr (build_set children st)
         | Cla RDeleteClause \<Rightarrow> Inr (build_delete children st)
         | _ \<Rightarrow> Inr st)"

fun build_ast_from_tree :: "cpp_library \<Rightarrow> tree \<Rightarrow> ParserState \<Rightarrow> ParserState result" 
  and build_children :: "cpp_library \<Rightarrow> tree list \<Rightarrow> ParserState \<Rightarrow> ParserState result" where
  "build_ast_from_tree lib (Tree r s ts) st =
     (case build_children lib ts st of
        Inl e \<Rightarrow> Inl e
      | Inr st \<Rightarrow> build_node lib (Tree r s ts) st)"
| "build_children lib [] st = Inr st"
| "build_children lib (t # ts) st =
     (case build_ast_from_tree lib t st of
        Inl e \<Rightarrow> Inl e
      | Inr st \<Rightarrow> build_children lib ts st)"

text \<open>
  \<open>tao::pegtl::parse_tree::parse\<close> is the argument \<open>pegtl\<close>: an exception, no tree, or a tree.
\<close>

definition parse_query :: "(string \<Rightarrow> string + tree option) \<Rightarrow> cpp_library \<Rightarrow> string \<Rightarrow> Query result" where
  "parse_query pegtl lib query_string =
     (case pegtl query_string of
        Inl what \<Rightarrow> Inl (Error INVALID_ARGUMENT (''Parse error: '' @ what))
      | Inr None \<Rightarrow> Inl (Error INVALID_ARGUMENT ''Parse error: invalid syntax'')
      | Inr (Some root) \<Rightarrow>
          (case build_ast_from_tree lib root new_ParserState of
             Inl (Exception what) \<Rightarrow> Inl (Error INVALID_ARGUMENT (''Parse error: '' @ what))
           | Inl e \<Rightarrow> Inl e
           | Inr st \<Rightarrow>
               if query_is_valid (built_query st) then Inr (built_query st)
               else Inl (Error INVALID_ARGUMENT ''Parser not fully implemented'')))"

section \<open>Helpers nothing calls\<close>

text \<open>
  \<open>parser.cpp\<close>. \<open>extract_property_value\<close> reads the first character of its text; there is none
  in an empty one.
\<close>

definition extract_property_value :: "cpp_library \<Rightarrow> tree \<Rightarrow> cypher_value result" where
  "extract_property_value lib node =
     (let content = tree_text node
      in if content = ''true'' \<or> content = ''false'' then Inr (BoolVal (content = ''true''))
         else if content = [] then Inl UndefinedBehaviour
         else if hd content = CHR 0x22 \<or> hd content = CHR 0x27 then
           Inr (StrVal (take (length content - 2) (tl content)))
         else if CHR ''.'' \<in> set content then
           Inr (case stod lib content of Some d \<Rightarrow> DblVal d | None \<Rightarrow> StrVal content)
         else Inr (case stoll content of Inr n \<Rightarrow> IntVal n | Inl e \<Rightarrow> StrVal content))"

definition upper :: "char \<Rightarrow> char" where
  "upper c = (if CHR ''a'' \<le> c \<and> c \<le> CHR ''z'' then char_of (of_char c - (32 :: nat)) else c)"

definition extract_order_direction :: "string \<Rightarrow> OrderDirection" where
  "extract_order_direction dir = (if map upper dir = ''DESC'' then DESC else ASC)"

end
