(* ===== verification/CypherSkeleton.thy ===== *)
theory CypherSkeleton
  imports CypherParser
begin

text \<open>
  The part of a parse tree the builder depends on: the nodes of the rules it asks for, with
  their texts where it reads them. All other nodes only group these.
\<close>

definition looked_at :: "rule \<Rightarrow> bool" where
  "looked_at r \<longleftrightarrow> List.member
     [Tok RIdentifier, Tok RStringValue, Tok RNumber, Tok RBoolean, Tok RPropertyKey, Tok RPropertyValue,
      Tok RPropertyAccess, Tok RComparisonOp, Tok RLabel, Tok RInteger, Phr RPropertyAccessExpression,
      Phr RComparisonExpression, Part RPropertyPair, Part RPropertyMap, Part REdgeType, Part RNodePattern,
      Part RDirectedEdge, Part RUndirectedEdge, Part RSimpleUndirectedEdge, Part RVariableLengthRange,
      Part RPattern, Cla RMatchClause, Cla RCreateClause, Cla RReturnItem, Cla RReturnClause, Cla RWhereClause,
      Cla RLimitClause, Cla ROrderDirection, Cla ROrderByClause, Cla RSetAssignment, Cla RSetClause,
      Cla RDetachKeyword, Cla RDeleteList, Cla RDeleteClause, Opt (Tok RIdentifier)] r"

definition text_read :: "rule \<Rightarrow> bool" where
  "text_read r \<longleftrightarrow> List.member
     [Tok RIdentifier, Tok RStringValue, Tok RNumber, Tok RBoolean, Tok RPropertyKey, Tok RComparisonOp,
      Tok RInteger, Part RDirectedEdge, Part RUndirectedEdge, Part RSimpleUndirectedEdge,
      Part RVariableLengthRange, Cla ROrderDirection, Opt (Tok RIdentifier)] r"

text \<open>
  The skeleton of a tree: the topmost nodes that are looked at. Among the children of such a
  node the others are kept as groups, unless they are empty.
\<close>

definition grouped :: "(tree \<Rightarrow> tree list) \<Rightarrow> tree \<Rightarrow> tree list" where
  "grouped f t = (if looked_at (tree_rule t) \<or> f t = [] then f t else [Tree Root [] (f t)])"

lemma grouped_cong [fundef_cong]: "t = u \<Longrightarrow> f u = g u \<Longrightarrow> grouped f t = grouped g u"
  by (simp add: grouped_def)

fun skeleton :: "tree \<Rightarrow> tree list" where
  "skeleton (Tree r s ts) =
     (if looked_at r then [Tree r (if text_read r then s else []) (concat (map (grouped skeleton) ts))]
      else concat (map skeleton ts))"

section \<open>The builder only depends on the skeleton\<close>

text \<open>The children that are looked at.\<close>

definition seen :: "tree list \<Rightarrow> tree list" where
  "seen ts = filter (\<lambda>t. looked_at (tree_rule t)) ts"

definition kids :: "tree list \<Rightarrow> tree list" where
  "kids ts = concat (map (grouped skeleton) ts)"

text \<open>A node of the skeleton.\<close>

definition bare :: "tree \<Rightarrow> tree" where
  "bare t = Tree (tree_rule t) (if text_read (tree_rule t) then tree_text t else []) (kids (tree_children t))"

lemma skeleton_bare: "looked_at (tree_rule t) \<Longrightarrow> skeleton t = [bare t]"
  by (cases t) (simp add: bare_def kids_def)

lemma bare_simps [simp]:
  "tree_rule (bare t) = tree_rule t" "tree_children (bare t) = kids (tree_children t)"
  "text_read (tree_rule t) \<Longrightarrow> tree_text (bare t) = tree_text t"
  by (simp_all add: bare_def)

lemma not_looked_at_Root [simp]: "\<not> looked_at Root"
  by (simp add: looked_at_def)

lemma seen_kids [simp]: "seen (kids ts) = map bare (seen ts)"
  by (induction ts) (auto simp: seen_def kids_def grouped_def skeleton_bare)

lemma find_seen: "(\<And>t. P t \<Longrightarrow> looked_at (tree_rule t)) \<Longrightarrow> find P ts = find P (seen ts)"
  by (induction ts) (auto simp: seen_def)

lemma find_map_bare: "(\<And>t. P (bare t) = P t) \<Longrightarrow> find P (map bare ts) = map_option bare (find P ts)"
  by (induction ts) auto

lemma find_kids:
  assumes "\<And>t. P t \<Longrightarrow> looked_at (tree_rule t)" and "\<And>t. P (bare t) = P t"
  shows "find P (kids ts) = map_option bare (find P ts)"
proof -
  have "find P (kids ts) = find P (seen (kids ts))" by (rule find_seen) (rule assms(1))
  also have "\<dots> = map_option bare (find P (seen ts))" using assms(2) by (simp add: find_map_bare)
  also have "find P (seen ts) = find P ts" by (rule find_seen [symmetric]) (rule assms(1))
  finally show ?thesis .
qed

lemma find_SomeD: "find P xs = Some x \<Longrightarrow> P x"
  by (auto simp: find_Some_iff)

lemma foldl_seen: "(\<And>a t. \<not> looked_at (tree_rule t) \<Longrightarrow> f a t = a) \<Longrightarrow> foldl f a ts = foldl f a (seen ts)"
  by (induction ts arbitrary: a) (auto simp: seen_def)

lemma foldl_kids:
  assumes "\<And>a t. \<not> looked_at (tree_rule t) \<Longrightarrow> f a t = a" and "\<And>a t. f a (bare t) = f a t"
  shows "foldl f a (kids ts) = foldl f a ts"
proof -
  have "foldl f a (map bare us) = foldl f a us" for a us by (induction us arbitrary: a) (simp_all add: assms(2))
  then have "foldl f a (seen (kids ts)) = foldl f a (seen ts)" by simp
  moreover have "foldl f a us = foldl f a (seen us)" for us by (rule foldl_seen) (rule assms(1))
  ultimately show ?thesis by metis
qed

lemma fold_result_seen:
  "(\<And>a t. \<not> looked_at (tree_rule t) \<Longrightarrow> f t a = Inr a) \<Longrightarrow> fold_result f ts a = fold_result f (seen ts) a"
  by (induction ts arbitrary: a) (auto simp: seen_def split: sum.split)

lemma fold_result_kids:
  assumes "\<And>a t. \<not> looked_at (tree_rule t) \<Longrightarrow> f t a = Inr a" and "\<And>a t. f (bare t) a = f t a"
  shows "fold_result f (kids ts) a = fold_result f ts a"
proof -
  have "fold_result f (map bare us) a = fold_result f us a" for a us
    by (induction us arbitrary: a) (simp_all add: assms(2) split: sum.split)
  then have "fold_result f (seen (kids ts)) a = fold_result f (seen ts) a" by simp
  moreover have "fold_result f us a = fold_result f (seen us) a" for us by (rule fold_result_seen) (rule assms(1))
  ultimately show ?thesis by metis
qed

lemma concat_map_kids:
  assumes "\<And>t. \<not> looked_at (tree_rule t) \<Longrightarrow> f t = []" and "\<And>t. f (bare t) = f t"
  shows "concat (map f (kids ts)) = concat (map f ts)"
proof -
  have "concat (map f us) = concat (map f (seen us))" for us
    by (induction us) (simp_all add: seen_def assms(1))
  from this [of "kids ts"] this [of ts] show ?thesis by (simp add: assms(2) comp_def)
qed

text \<open>What the builder reads of a node.\<close>

lemma looked_at_simps [simp]:
  "looked_at (Tok RIdentifier)" "looked_at (Tok RPropertyKey)" "looked_at (Tok RComparisonOp)"
  "looked_at (Tok RStringValue)" "looked_at (Tok RNumber)" "looked_at (Tok RBoolean)"
  "looked_at (Tok RPropertyValue)" "looked_at (Tok RPropertyAccess)" "looked_at (Tok RInteger)"
  "looked_at (Part RVariableLengthRange)" "looked_at (Cla ROrderDirection)" "looked_at (Cla RSetAssignment)"
  "looked_at (Cla RDetachKeyword)" "looked_at (Cla RDeleteList)" "looked_at (Opt (Tok RIdentifier))"
  "text_read (Tok RIdentifier)" "text_read (Tok RPropertyKey)" "text_read (Tok RComparisonOp)"
  "text_read (Tok RStringValue)" "text_read (Tok RNumber)" "text_read (Tok RBoolean)" "text_read (Tok RInteger)"
  "text_read (Part RVariableLengthRange)" "text_read (Cla ROrderDirection)" "text_read (Opt (Tok RIdentifier))"
  by (simp_all add: looked_at_def text_read_def)

lemma access_names_kids: "access_names (kids ts) = access_names ts"
  unfolding access_names_def by (rule foldl_kids) (auto split: prod.split)

lemma assigned_names_kids: "assigned_names (kids ts) = assigned_names ts"
  unfolding assigned_names_def by (rule foldl_kids) (auto split: prod.split)

lemma literal_of_other: "\<not> looked_at (tree_rule t) \<Longrightarrow> literal_of lib t v = Inr v"
  by (auto simp: literal_of_def split: rule.splits token.splits)

lemma literal_of_bare: "literal_of lib (bare t) v = literal_of lib t v"
  by (auto simp: literal_of_def split: rule.splits token.splits)

lemma literals_kids: "fold_result (literal_of lib) (kids ts) v = fold_result (literal_of lib) ts v"
  by (rule fold_result_kids) (simp_all add: literal_of_other literal_of_bare)

lemma pair_of_kids: "pair_of lib (kids ts) = pair_of lib ts"
  unfolding pair_of_def by (rule fold_result_kids) (auto simp: literals_kids split: prod.split)

lemma first_identifier_kids: "first_identifier (kids ts) = first_identifier ts"
  unfolding first_identifier_def
  by (subst find_kids) (auto dest: find_SomeD split: option.split)

lemma text_kids:
  assumes "\<And>t. P t \<Longrightarrow> looked_at (tree_rule t) \<and> text_read (tree_rule t)" and "\<And>t. P (bare t) = P t"
  shows "map_option tree_text (find P (kids ts)) = map_option tree_text (find P ts)"
proof -
  have "find P (kids ts) = map_option bare (find P ts)"
    using assms by (intro find_kids) blast+
  then show ?thesis using assms(1) by (cases "find P ts") (auto dest: find_SomeD)
qed

lemma variable_of_kids: "variable_of (kids ts) = variable_of ts"
  unfolding variable_of_def by (rule text_kids) auto

lemma range_from_children_kids: "range_from_children (kids ts) e = range_from_children ts e"
  unfolding range_from_children_def
  by (subst find_kids) (auto dest: find_SomeD split: option.split)

lemma find_rule_kids:
  "looked_at r \<Longrightarrow> find (\<lambda>t. tree_rule t = r) (kids ts) = map_option bare (find (\<lambda>t. tree_rule t = r) ts)"
  by (rule find_kids) auto

lemma set_target_kids: "set_target (kids ts) = set_target ts"
  unfolding set_target_def
  by (subst find_kids) (auto simp: find_rule_kids assigned_names_kids split: option.split)

lemma names_of_kids:
  "map tree_text (filter (\<lambda>g. tree_rule g = Tok RIdentifier) (kids ts)) =
     map tree_text (filter (\<lambda>g. tree_rule g = Tok RIdentifier) ts)"
proof -
  have "concat (map (\<lambda>g. if tree_rule g = Tok RIdentifier then [tree_text g] else []) us) =
      map tree_text (filter (\<lambda>g. tree_rule g = Tok RIdentifier) us)" for us
    by (induction us) auto
  moreover have "concat (map (\<lambda>g. if tree_rule g = Tok RIdentifier then [tree_text g] else []) (kids ts)) =
      concat (map (\<lambda>g. if tree_rule g = Tok RIdentifier then [tree_text g] else []) ts)"
    by (rule concat_map_kids) auto
  ultimately show ?thesis by simp
qed

lemma deleted_variables_kids: "deleted_variables (kids ts) = deleted_variables ts"
  unfolding deleted_variables_def by (rule concat_map_kids) (auto simp: names_of_kids)

lemma detach_kids:
  "list_ex (\<lambda>c. tree_rule c = Cla RDetachKeyword) (kids ts) = list_ex (\<lambda>c. tree_rule c = Cla RDetachKeyword) ts"
proof -
  have "list_ex P us \<longleftrightarrow> find P us \<noteq> None" for P and us :: "tree list"
    by (induction us) auto
  then show ?thesis by (simp add: find_rule_kids)
qed

lemma build_node_other: "\<not> looked_at (tree_rule t) \<Longrightarrow> build_node lib t st = Inr st"
  by (cases t; cases "tree_rule t")
    (auto simp: build_node_def Let_def looked_at_def split: token.split phrase.split part.split clause.split)

lemma build_edge_bare:
  "text_read (tree_rule t) \<Longrightarrow> build_edge lib (bare t) st = build_edge lib t st"
  by (simp add: build_edge_def variable_of_kids range_from_children_kids cong: sum.case_cong)

lemma find_text_kids:
  "looked_at r \<Longrightarrow> text_read r \<Longrightarrow>
     map_option tree_text (find (\<lambda>t. tree_rule t = r) (kids ts)) = map_option tree_text (find (\<lambda>t. tree_rule t = r) ts)"
  by (rule text_kids) auto

lemma build_comparison_kids: "build_comparison (kids ts) st = build_comparison ts st"
  using find_text_kids [of "Tok RComparisonOp" ts]
  by (auto simp: build_comparison_def split: option.split list.split)

lemma build_limit_kids: "build_limit (kids ts) st = build_limit ts st"
  using find_text_kids [of "Tok RInteger" ts] by (auto simp: build_limit_def split: option.split)

lemma build_order_by_kids: "build_order_by (kids ts) st = build_order_by ts st"
  using find_text_kids [of "Cla ROrderDirection" ts] by (auto simp: build_order_by_def split: option.split)

lemma build_node_bare:
  "looked_at (tree_rule t) \<Longrightarrow> build_node lib (bare t) st = build_node lib t st"
  by (auto simp: build_node_def Let_def build_property_access_def build_property_pair_def build_node_pattern_def build_set_def
      build_delete_def access_names_kids pair_of_kids first_identifier_kids variable_of_kids set_target_kids
      deleted_variables_kids detach_kids build_comparison_kids build_limit_kids build_order_by_kids
      build_edge_bare text_read_def
      split: rule.split token.split phrase.split part.split clause.split)

lemma build_append:
  "build_children lib (ts @ us) st =
     (case build_children lib ts st of Inl e \<Rightarrow> Inl e | Inr st \<Rightarrow> build_children lib us st)"
  by (induction ts arbitrary: st) (simp_all split: sum.split)

lemma build_tree:
  "build_ast_from_tree lib t st =
     (case build_children lib (tree_children t) st of Inl e \<Rightarrow> Inl e | Inr st \<Rightarrow> build_node lib t st)"
  by (cases t) (simp split: sum.split)

lemma build_group: "build_children lib [Tree Root [] ts] st = build_children lib ts st"
  by (simp add: build_node_other split: sum.split)

lemma build_skeleton: "build_children lib (skeleton t) st = build_ast_from_tree lib t st"
proof (induction t arbitrary: st rule: skeleton.induct)
  case (1 r s ts)
  have grouped: "build_children lib (grouped skeleton t) st = build_children lib (skeleton t) st" for t st
    by (simp add: grouped_def build_group del: build_children.simps)
  have children: "build_children lib (concat (map f ts)) st = build_children lib ts st"
    if "\<And>t st. t \<in> set ts \<Longrightarrow> build_children lib (f t) st = build_ast_from_tree lib t st" for f st
    using that by (induction ts arbitrary: st) (auto simp: build_append split: sum.split)
  show ?case
  proof (cases "looked_at r")
    case True
    have "build_children lib (kids ts) st = build_children lib ts st"
      unfolding kids_def using 1(1) True by (intro children) (simp add: grouped)
    moreover have "build_node lib (bare (Tree r s ts)) u = build_node lib (Tree r s ts) u" for u
      using True by (intro build_node_bare) simp
    ultimately show ?thesis
      using True skeleton_bare [of "Tree r s ts"] build_tree [of lib "bare (Tree r s ts)" st]
      by (simp split: sum.split)
  next
    case False
    have "build_children lib (concat (map skeleton ts)) st = build_children lib ts st"
      using 1(2) False by (intro children) simp
    then show ?thesis using False by (simp add: build_node_other split: sum.split)
  qed
qed

end
