(* ===== verification/CypherBuild.thy ===== *)
theory CypherBuild
  imports CypherSkeleton
begin

text \<open>
  What the builder makes of the parse tree of a query: the skeletons of the trees the grammar
  gives queries, and the query each of them is read as.
\<close>

section \<open>Numbers\<close>

lemma is_digit_other:
  "is_digit c \<Longrightarrow> \<not> is_space c \<and> c \<notin> {CHR ''-'', CHR ''+'', CHR ''.'', CHR '']'', CHR ''*'', CHR '' ''}"
  by (auto simp: is_digit_def is_space_def)

lemma nat_string_digits: "nat_string n \<noteq> [] \<and> list_all is_digit (nat_string n)"
proof (induction n rule: nat_string.induct)
  case (1 n)
  have "is_digit (digit d)" if "d < 10" for d
    using that by (simp add: is_digit_def of_char_digit)
  then show ?case using 1 by (subst (1 2) nat_string.simps) auto
qed

lemma digit_char: "c \<in> set (nat_string n) \<Longrightarrow> c \<noteq> CHR '']'' \<and> c \<noteq> CHR ''.''"
  using nat_string_digits [of n] is_digit_other [of c] by (auto simp: list_all_iff)

lemma string_to_int_digits:
  assumes "ds \<noteq> []" and "list_all is_digit ds" and "rest = [] \<or> \<not> is_digit (hd rest)"
  shows "int (digits_value ds) < bound \<Longrightarrow> string_to_int name bound (ds @ rest) = Inr (int (digits_value ds))"
    and "int (digits_value ds) \<le> bound \<Longrightarrow> 0 < bound \<Longrightarrow>
      string_to_int name bound (CHR ''-'' # ds @ rest) = Inr (- int (digits_value ds))"
proof -
  obtain c cs where ds: "ds = c # cs" "is_digit c" using assms(1,2) by (cases ds) auto
  have "takeWhile is_digit (ds @ rest) = ds"
    using assms(2,3) by (cases rest) (auto simp: takeWhile_append list_all_iff)
  moreover have "dropWhile is_space (ds @ rest) = ds @ rest" "dropWhile is_space (CHR ''-'' # ds @ rest) = CHR ''-'' # ds @ rest"
    using is_digit_other [OF ds(2)] by (simp_all add: ds(1) is_space_def)
  ultimately show "int (digits_value ds) < bound \<Longrightarrow> string_to_int name bound (ds @ rest) = Inr (int (digits_value ds))"
    "int (digits_value ds) \<le> bound \<Longrightarrow> 0 < bound \<Longrightarrow>
      string_to_int name bound (CHR ''-'' # ds @ rest) = Inr (- int (digits_value ds))"
    using is_digit_other [OF ds(2)] by (simp_all add: string_to_int_def ds(1) Let_def)
qed

lemma stoll_i64_string: "stoll (i64_string i) = Inr i"
proof (cases "sint i < 0")
  case True
  have "- (2 ^ 63) \<le> sint i" using sint_greater_eq [of i] by simp
  then have "string_to_int ''stoll'' (2 ^ 63) (CHR ''-'' # nat_string (nat (- sint i)) @ []) = Inr (sint i)"
    using string_to_int_digits(2) [of "nat_string (nat (- sint i))" "[]" "2 ^ 63" "''stoll''"]
      nat_string_digits True by simp
  then show ?thesis using True by (simp add: stoll_def i64_string_def)
next
  case False
  have "sint i < 2 ^ 63" using sint_less [of i] by simp
  then have "string_to_int ''stoll'' (2 ^ 63) (nat_string (nat (sint i)) @ []) = Inr (sint i)"
    using string_to_int_digits(1) [of "nat_string (nat (sint i))" "[]" "2 ^ 63" "''stoll''"]
      nat_string_digits False by simp
  then show ?thesis using False by (simp add: stoll_def i64_string_def)
qed

lemma stoi_digits:
  assumes "n < 2 ^ 31" and "rest = [] \<or> \<not> is_digit (hd rest)"
  shows "stoi (nat_string n @ rest) = Inr (word_of_nat n)"
  using string_to_int_digits(1) [of "nat_string n" rest "2 ^ 31" "''stoi''"] nat_string_digits [of n] assms
  by (simp add: stoi_def)

section \<open>The trees of queries\<close>

definition inner :: "rule \<Rightarrow> tree list \<Rightarrow> tree" where
  "inner r ts = Tree r [] ts"

definition leaf :: "rule \<Rightarrow> string \<Rightarrow> tree" where
  "leaf r s = Tree r s []"

definition group :: "tree list \<Rightarrow> tree list" where
  "group ts = (if ts = [] then [] else [Tree Root [] ts])"

text \<open>Literals as they are written, and their trees: an integer or a decimal starts with an integer.\<close>

fun literal_text :: "cypher_value \<Rightarrow> string" where
  "literal_text (StrVal s) = CHR 0x22 # s @ [CHR 0x22]"
| "literal_text (IntVal i) = i64_string i"
| "literal_text (DblVal d) = double_to_string d"
| "literal_text (BoolVal b) = (if b then ''true'' else ''false'')"

definition literal_tree :: "cypher_value \<Rightarrow> tree" where
  "literal_tree v =
     (case v of
        StrVal s \<Rightarrow> leaf (Tok RStringValue) (literal_text v)
      | IntVal i \<Rightarrow> Tree (Tok RNumber) (literal_text v) [leaf (Tok RInteger) (literal_text v)]
      | DblVal d \<Rightarrow> Tree (Tok RNumber) (literal_text v)
          (group [leaf (Tok RInteger) (takeWhile (\<lambda>c. c \<noteq> CHR ''.'') (literal_text v))])
      | BoolVal b \<Rightarrow> leaf (Tok RBoolean) (literal_text v))"

definition operator_text :: "ComparisonOperator \<Rightarrow> string" where
  "operator_text op =
     (case op of EQUAL \<Rightarrow> ''='' | NOT_EQUAL \<Rightarrow> ''<>'' | LESS_THAN \<Rightarrow> ''<'' | LESS_EQUAL \<Rightarrow> ''<=''
               | GREATER_THAN \<Rightarrow> ''>'' | GREATER_EQUAL \<Rightarrow> ''>='')"

text \<open>
  An expression, in parentheses where the grammar requires them. The builder looks at no node
  of a variable (\<open>identifier_expression\<close>) and at none of a logical operator.
\<close>

primrec expression_trees :: "Expression \<Rightarrow> tree list" where
  "expression_trees (Literal v) = [literal_tree v]"
| "expression_trees (Identifier x) = []"
| "expression_trees (PropertyAccess x k) =
     [inner (Phr RPropertyAccessExpression) [leaf (Tok RIdentifier) x, leaf (Tok RPropertyKey) k]]"
| "expression_trees (Comparison l op r) =
     [inner (Phr RComparisonExpression)
        (group (expression_trees l) @ [leaf (Tok RComparisonOp) (operator_text op)] @ group (expression_trees r))]"
| "expression_trees (LogicalAnd l r) = expression_trees l @ expression_trees r"
| "expression_trees (LogicalOr l r) = expression_trees l @ expression_trees r"
| "expression_trees (LogicalNot e) = expression_trees e"

definition pair_tree :: "string \<times> cypher_value \<Rightarrow> tree" where
  "pair_tree kv =
     inner (Part RPropertyPair) [leaf (Tok RPropertyKey) (fst kv), inner (Tok RPropertyValue) [literal_tree (snd kv)]]"

definition properties_trees :: "PropertyMap \<Rightarrow> tree list" where
  "properties_trees ps = (if ps = [] then [] else group [inner (Part RPropertyMap) (group (map pair_tree ps))])"

definition variable_text :: "string option \<Rightarrow> string" where
  "variable_text v = (case v of None \<Rightarrow> [] | Some x \<Rightarrow> x)"

definition variable_tree :: "string option \<Rightarrow> tree" where
  "variable_tree v =
     Tree (Opt (Tok RIdentifier)) (variable_text v) (case v of None \<Rightarrow> [] | Some x \<Rightarrow> [leaf (Tok RIdentifier) x])"

definition name_tree :: "rule \<Rightarrow> string \<Rightarrow> tree" where
  "name_tree r x = inner r [leaf (Tok RIdentifier) x]"

definition node_tree :: "NodePattern \<Rightarrow> tree" where
  "node_tree n =
     inner (Part RNodePattern)
       (variable_tree (node_variable n) # group (map (name_tree (Tok RLabel)) (node_labels n)) @
        properties_trees (node_constraints n))"

definition range_text :: "EdgePattern \<Rightarrow> string" where
  "range_text e =
     (if min_hops e = 1 \<and> max_hops e = 1 then []
      else ''*'' @ nat_string (unat (min_hops e)) @ ''..'' @
        (if max_hops e = - 1 then [] else nat_string (unat (max_hops e))))"

fun properties_text :: "PropertyMap \<Rightarrow> string" where
  "properties_text [] = []"
| "properties_text [(k, v)] = k @ '': '' @ literal_text v"
| "properties_text ((k, v) # ps) = k @ '': '' @ literal_text v @ '', '' @ properties_text ps"

text \<open>The text of an edge matters, as the builder searches it for a range.\<close>

definition edge_text :: "EdgePattern \<Rightarrow> string" where
  "edge_text e =
     ''-['' @ variable_text (edge_variable e) @ concat (map (\<lambda>x. CHR '':'' # x) (edge_types e)) @ range_text e @
     (if edge_constraints e = [] then [] else ''{'' @ properties_text (edge_constraints e) @ ''}'') @
     '']'' @ (if directed e then ''->'' else ''-'')"

definition edge_tree :: "EdgePattern \<Rightarrow> tree" where
  "edge_tree e =
     Tree (Part (if directed e then RDirectedEdge else RUndirectedEdge)) (edge_text e)
       (variable_tree (edge_variable e) # group (map (name_tree (Part REdgeType)) (edge_types e)) @
        (if range_text e = [] then [] else group [leaf (Part RVariableLengthRange) (range_text e)]) @
        properties_trees (edge_constraints e))"

definition pattern_tree :: "Pattern \<Rightarrow> tree" where
  "pattern_tree p =
     inner (Part RPattern)
       (map node_tree (take 1 (pattern_nodes p)) @
        group (concat (map (\<lambda>(e, n). [edge_tree e, node_tree n]) (zip (pattern_edges p) (tl (pattern_nodes p))))))"

definition item_tree :: "ReturnItem \<Rightarrow> tree" where
  "item_tree item =
     inner (Cla RReturnItem)
       (group (expression_trees (item_expression item)) @
        (case item_alias item of None \<Rightarrow> [] | Some a \<Rightarrow> group [leaf (Tok RIdentifier) a]))"

definition order_trees :: "OrderByItem \<Rightarrow> tree list" where
  "order_trees item =
     expression_trees (order_expression item) @
     (case order_direction item of ASC \<Rightarrow> [] | DESC \<Rightarrow> [leaf (Cla ROrderDirection) ''DESC''])"

text \<open>
  The clauses, each if it is there. Nothing is looked at in \<open>DISTINCT\<close>; \<open>DETACH\<close> is not a
  direct part of its clause, a direction not one of \<open>ORDER BY\<close>.
\<close>

definition match_tree :: "Pattern list \<Rightarrow> tree" where
  "match_tree ps = inner (Cla RMatchClause) (group (map pattern_tree ps))"

definition create_tree :: "Pattern list \<Rightarrow> tree" where
  "create_tree ps = inner (Cla RCreateClause) (group (map pattern_tree ps))"

definition where_tree :: "Expression \<Rightarrow> tree" where
  "where_tree c = inner (Cla RWhereClause) (group (expression_trees c))"

definition set_tree :: "SetClause \<Rightarrow> tree" where
  "set_tree s =
     inner (Cla RSetClause) [inner (Cla RSetAssignment)
       (inner (Tok RPropertyAccess) [leaf (Tok RIdentifier) (set_variable s), leaf (Tok RPropertyKey) (set_property s)] #
        group (expression_trees (set_value s)))]"

definition delete_tree :: "DeleteClause \<Rightarrow> tree" where
  "delete_tree d =
     inner (Cla RDeleteClause)
       ((if detach d then group [leaf (Cla RDetachKeyword) []] else []) @
        [inner (Cla RDeleteList) (map (leaf (Tok RIdentifier)) (delete_variables d))])"

definition return_tree :: "ReturnClause \<Rightarrow> tree" where
  "return_tree r = inner (Cla RReturnClause) (group (map item_tree (return_items r)))"

definition order_by_tree :: "OrderByItem list \<Rightarrow> tree" where
  "order_by_tree items = inner (Cla ROrderByClause) (group (concat (map order_trees items)))"

definition limit_tree :: "i64 \<Rightarrow> tree" where
  "limit_tree n = inner (Cla RLimitClause) [leaf (Tok RInteger) (i64_string n)]"

definition optional :: "('a \<Rightarrow> tree) \<Rightarrow> 'a option \<Rightarrow> tree list" where
  "optional f x = (case x of None \<Rightarrow> [] | Some a \<Rightarrow> [f a])"

definition query_trees :: "Query \<Rightarrow> tree list" where
  "query_trees q =
     optional match_tree (query_match q) @ optional create_tree (query_create q) @
     optional where_tree (query_where q) @ optional set_tree (query_set q) @
     optional delete_tree (query_delete q) @ optional return_tree (query_return q) @
     optional order_by_tree (query_order_by q) @ optional limit_tree (query_limit q)"

section \<open>Expressions\<close>

text \<open>
  What an expression does to the stack of expressions, whose top comes first. A variable does
  nothing; an access of a property leaves its variable below it; a comparison takes the two
  topmost expressions, whatever they belong to; \<open>AND\<close>, \<open>OR\<close> and \<open>NOT\<close> are not built.
\<close>

primrec left :: "Expression \<Rightarrow> Expression list \<Rightarrow> Expression list" where
  "left (Literal v) s = Literal v # s"
| "left (Identifier x) s = s"
| "left (PropertyAccess x k) s = PropertyAccess x k # Identifier x # s"
| "left (Comparison l op r) s =
     (case left r (left l s) of
        a # b # rest \<Rightarrow> Comparison b op a # rest
      | es \<Rightarrow> es)"
| "left (LogicalAnd l r) s = left r (left l s)"
| "left (LogicalOr l r) s = left r (left l s)"
| "left (LogicalNot e) s = left e s"

text \<open>The literals are not doubles, the names not empty.\<close>

fun plain_value :: "cypher_value \<Rightarrow> bool" where
  "plain_value (DblVal d) = False"
| "plain_value v = True"

primrec plain_expression :: "Expression \<Rightarrow> bool" where
  "plain_expression (Literal v) = plain_value v"
| "plain_expression (Identifier x) = True"
| "plain_expression (PropertyAccess x k) = (x \<noteq> [] \<and> k \<noteq> [])"
| "plain_expression (Comparison l op r) = (plain_expression l \<and> plain_expression r)"
| "plain_expression (LogicalAnd l r) = (plain_expression l \<and> plain_expression r)"
| "plain_expression (LogicalOr l r) = (plain_expression l \<and> plain_expression r)"
| "plain_expression (LogicalNot e) = plain_expression e"

declare Let_def [simp]

lemma build_inner:
  "build_ast_from_tree lib (inner r ts) st =
     (case build_children lib ts st of Inl e \<Rightarrow> Inl e | Inr st \<Rightarrow> build_node lib (inner r ts) st)"
  by (simp add: inner_def split: sum.split)

lemma inner_simps [simp]:
  "tree_rule (inner r ts) = r" "tree_children (inner r ts) = ts" "tree_text (inner r ts) = []"
  "tree_rule (leaf r s) = r" "tree_children (leaf r s) = []" "tree_text (leaf r s) = s"
  by (simp_all add: inner_def leaf_def)

lemma build_group_children [simp]: "build_children lib (group ts) st = build_children lib ts st"
  by (simp add: group_def build_group del: build_children.simps(2)) 

lemma build_leaf: "build_ast_from_tree lib (leaf r s) st = build_node lib (leaf r s) st"
  by (simp add: leaf_def)

lemma build_identifier [simp]:
  "build_ast_from_tree lib (leaf (Tok RIdentifier) x) st = Inr (push_expression (Identifier x) st)"
  by (simp add: build_leaf build_node_def)

lemma build_quiet [simp]:
  "build_ast_from_tree lib (leaf (Tok RPropertyKey) x) st = Inr st"
  "build_ast_from_tree lib (leaf (Tok RComparisonOp) x) st = Inr st"
  "build_ast_from_tree lib (leaf (Tok RInteger) x) st = Inr st"
  "build_ast_from_tree lib (leaf (Part RVariableLengthRange) x) st = Inr st"
  "build_ast_from_tree lib (leaf (Cla ROrderDirection) x) st = Inr st"
  "build_ast_from_tree lib (leaf (Cla RDetachKeyword) x) st = Inr st"
  by (simp_all add: build_leaf build_node_def)

lemma no_dot: "CHR ''.'' \<notin> set (i64_string i)"
proof -
  have "CHR ''.'' \<notin> set (nat_string n)" for n using digit_char by blast
  then show ?thesis by (simp add: i64_string_def)
qed

lemma literal_leaf:
  "plain_value v \<Longrightarrow> build_ast_from_tree lib (literal_tree v) st = Inr (push_expression (Literal v) st)"
  "plain_value v \<Longrightarrow> literal_of lib (literal_tree v) w = Inr v"
  by (cases v; simp add: literal_tree_def leaf_def build_node_def literal_of_def unquote_def number_value_def
      no_dot stoll_i64_string)+

lemma comparison_operator_text [simp]: "comparison_operator (operator_text op) = op"
  by (cases op) (simp_all add: comparison_operator_def operator_text_def)

lemma find_group: "\<not> P (Tree Root [] ts) \<Longrightarrow> find P (group ts @ us) = find P us"
  by (simp add: group_def)

lemma build_expression:
  "plain_expression e \<Longrightarrow>
     build_children lib (expression_trees e) st = Inr (st\<lparr>expression_stack := left e (expression_stack st)\<rparr>)"
proof (induction e arbitrary: st)
  case (Comparison l op r)
  have find: "find (\<lambda>c. tree_rule c = Tok RComparisonOp)
      (group (expression_trees l) @ leaf (Tok RComparisonOp) (operator_text op) # group (expression_trees r)) =
      Some (leaf (Tok RComparisonOp) (operator_text op))"
    by (simp add: find_group)
  show ?case
    using Comparison
    by (simp add: build_inner build_append build_node_def build_comparison_def find split: list.split)
qed (simp_all add: literal_leaf push_expression_def build_inner build_node_def build_property_access_def
    access_names_def build_append)

section \<open>Properties, variables, labels\<close>

definition plain_properties :: "PropertyMap \<Rightarrow> bool" where
  "plain_properties ps \<longleftrightarrow> distinct (map fst ps) \<and> list_all (\<lambda>(k, v). k \<noteq> [] \<and> plain_value v) ps"

definition ordered :: "cpp_library \<Rightarrow> PropertyMap \<Rightarrow> PropertyMap" where
  "ordered lib ps = (if ps = [] then [] else map_order lib ps)"

lemma build_pair:
  assumes "plain_value v" and "k \<noteq> []"
  shows "build_ast_from_tree lib (pair_tree (k, v)) st =
    Inr (st\<lparr>expression_stack := Literal v # expression_stack st,
            property_stack := (case property_stack st of
                [] \<Rightarrow> [[(k, v)]] | props # rest \<Rightarrow> AList.update k v props # rest)\<rparr>)"
proof -
  have "pair_of lib [leaf (Tok RPropertyKey) k, inner (Tok RPropertyValue) [literal_tree v]] = Inr (k, v)"
    using literal_leaf(2) [OF assms(1)] by (simp add: pair_of_def)
  then show ?thesis
    using literal_leaf(1) [OF assms(1)] assms(2)
    by (simp add: pair_tree_def build_inner build_node_def build_property_pair_def push_expression_def split: list.split)
qed

lemma plain_properties_Nil [simp]: "plain_properties []"
  by (simp add: plain_properties_def)

lemma AList_update_append: "k \<notin> set (map fst ps) \<Longrightarrow> AList.update k v ps = ps @ [(k, v)]"
  by (induction ps) auto

lemma build_pairs:
  assumes "plain_properties (qs @ ps)" and "property_stack st = [qs]" and "qs \<noteq> []"
  shows "build_children lib (map pair_tree ps) st =
    Inr (st\<lparr>expression_stack := rev (map (Literal \<circ> snd) ps) @ expression_stack st,
            property_stack := [qs @ ps]\<rparr>)"
  using assms
proof (induction ps arbitrary: qs st)
  case (Cons kv ps)
  obtain k v where kv: "kv = (k, v)" by fastforce
  let ?st = "st\<lparr>expression_stack := Literal v # expression_stack st, property_stack := [qs @ [(k, v)]]\<rparr>"
  have "plain_properties ((qs @ [(k, v)]) @ ps)" using Cons(2) by (simp add: kv)
  from Cons(1) [OF this, of ?st]
  have "build_children lib (map pair_tree ps) ?st = Inr (?st\<lparr>expression_stack := rev (map (Literal \<circ> snd) ps) @
      expression_stack ?st, property_stack := [qs @ (k, v) # ps]\<rparr>)" by simp
  moreover have "build_ast_from_tree lib (pair_tree kv) st = Inr ?st"
    using Cons(2,3) build_pair [of v k lib st]
    by (auto simp: kv plain_properties_def AList_update_append)
  ultimately show ?case by (simp add: kv)
qed simp

lemma build_properties:
  assumes "plain_properties ps" and "property_stack st = []"
  shows "build_children lib (properties_trees ps) st =
    Inr (st\<lparr>expression_stack := rev (map (Literal \<circ> snd) ps) @ expression_stack st,
            property_stack := (if ps = [] then [] else [ps])\<rparr>)"
proof (cases ps)
  case Nil
  then show ?thesis using assms(2) by (simp add: properties_trees_def)
next
  case (Cons kv qs)
  obtain k v where kv: "kv = (k, v)" by fastforce
  let ?st = "st\<lparr>expression_stack := Literal v # expression_stack st, property_stack := [[(k, v)]]\<rparr>"
  have "build_ast_from_tree lib (pair_tree (k, v)) st = Inr ?st"
    using assms build_pair [of v k lib st] by (simp add: Cons kv plain_properties_def)
  moreover have "build_children lib (map pair_tree qs) ?st =
      Inr (?st\<lparr>expression_stack := rev (map (Literal \<circ> snd) qs) @ expression_stack ?st,
            property_stack := [[(k, v)] @ qs]\<rparr>)"
    using assms(1) by (intro build_pairs) (simp_all add: Cons kv)
  ultimately show ?thesis
    by (simp add: properties_trees_def Cons kv build_inner build_node_def)
qed

lemma build_variable:
  "build_ast_from_tree lib (variable_tree v) st =
     Inr (st\<lparr>expression_stack := map Identifier (case v of None \<Rightarrow> [] | Some x \<Rightarrow> [x]) @ expression_stack st\<rparr>)"
  by (simp add: variable_tree_def build_node_def push_expression_def split: option.split)

lemma build_names:
  assumes "r = Tok RLabel \<or> r = Part REdgeType"
  shows "build_children lib (map (name_tree r) names) st =
    Inr (st\<lparr>expression_stack := rev (map Identifier names) @ expression_stack st,
            temp_labels := temp_labels st @ (if r = Tok RLabel then names else []),
            temp_edge_types := temp_edge_types st @ (if r = Part REdgeType then names else [])\<rparr>)"
  using assms
  by (induction names arbitrary: st)
    (auto simp: name_tree_def build_inner build_node_def push_expression_def first_identifier_def)

section \<open>Nodes and edges\<close>

definition plain_node :: "NodePattern \<Rightarrow> bool" where
  "plain_node n \<longleftrightarrow> node_variable n \<noteq> Some [] \<and> plain_properties (node_constraints n)"

text \<open>The expressions a node leaves on the stack: its names and the values of its properties.\<close>

definition node_rest :: "NodePattern \<Rightarrow> Expression list" where
  "node_rest n =
     rev (map Identifier (case node_variable n of None \<Rightarrow> [] | Some x \<Rightarrow> [x]) @ map Identifier (node_labels n) @
       map (Literal \<circ> snd) (node_constraints n))"

lemma variable_of_groups: "variable_of (variable_tree v # group ts @ properties_trees ps) = (if v = Some [] then None else v)"
  "variable_of (variable_tree v # group ts @ (if b then [] else group us) @ properties_trees ps) =
     (if v = Some [] then None else v)"
  by (auto simp: variable_of_def variable_tree_def variable_text_def properties_trees_def group_def split: option.split)

text \<open>Nothing is left over from another node or edge.\<close>

definition clean :: "ParserState \<Rightarrow> bool" where
  "clean st \<longleftrightarrow> temp_labels st = [] \<and> temp_edge_types st = [] \<and> property_stack st = []"

lemma build_node_tree:
  assumes "plain_node n" and "clean st"
  shows "build_ast_from_tree lib (node_tree n) st =
    Inr (st\<lparr>expression_stack := node_rest n @ expression_stack st,
            node_stack := n\<lparr>node_constraints := ordered lib (node_constraints n)\<rparr> # node_stack st\<rparr>)"
  using assms
  by (cases st; cases n; cases "node_variable n")
    (simp_all add: node_tree_def build_inner build_append build_variable build_names build_properties plain_node_def
      clean_def build_node_def build_node_pattern_def variable_of_groups pop_properties_def
      ordered_def node_rest_def del: build_ast_from_tree.simps)

text \<open>An edge with a range has no properties, and no other star is in its text.\<close>

definition plain_edge :: "EdgePattern \<Rightarrow> bool" where
  "plain_edge e \<longleftrightarrow>
     edge_variable e \<noteq> Some [] \<and> plain_properties (edge_constraints e) \<and>
     CHR ''*'' \<notin> set (variable_text (edge_variable e)) \<and> CHR ''*'' \<notin> set (concat (edge_types e)) \<and>
     (if range_text e = [] then CHR ''*'' \<notin> set (properties_text (edge_constraints e))
      else edge_constraints e = [] \<and> 0 \<le> sint (min_hops e) \<and> - 1 \<le> sint (max_hops e))"

lemma split_at_digits:
  "list_all is_digit ds \<Longrightarrow> split_at ''..'' (ds @ ''..'' @ rest) = Some (ds, rest)"
proof (induction ds)
  case (Cons c ds)
  then show ?case using is_digit_other [of c] by simp
qed simp

lemma parse_range_text:
  assumes "0 \<le> sint (min_hops e)" and "- 1 \<le> sint (max_hops e)"
  shows "parse_range (nat_string (unat (min_hops e)) @ ''..'' @
      (if max_hops e = - 1 then [] else nat_string (unat (max_hops e)))) f =
    Inr (f\<lparr>min_hops := min_hops e, max_hops := max_hops e\<rparr>)"
proof -
  have small: "unat w < 2 ^ 31" if "0 \<le> sint w" for w :: i32
  proof -
    have "sint w < 2 ^ 31" using sint_less [of w] by simp
    then have "take_bit 32 (sint w) = sint w" using that by (intro take_bit_int_eq_self) simp_all
    then have "uint w = sint w" using uint_sint [of w] by simp
    then have "nat (uint w) < 2 ^ 31" using \<open>sint w < 2 ^ 31\<close> by (simp only: nat_less_iff) simp
    then show ?thesis by simp
  qed
  have "0 \<le> sint (max_hops e)" if "max_hops e \<noteq> - 1"
  proof -
    have "sint (max_hops e) \<noteq> sint (- 1 :: i32)" using that signed_word_eqI by blast
    then have "sint (max_hops e) \<noteq> - 1" by simp
    then show ?thesis using assms(2) by simp
  qed
  then show ?thesis
    using stoi_digits [OF small [OF assms(1)], of "[]"] stoi_digits [OF small, of "max_hops e" "[]"]
      nat_string_digits [of "unat (min_hops e)"] nat_string_digits [of "unat (max_hops e)"]
    by (simp add: parse_range_def split_at_digits [unfolded append.simps])
qed

lemma before_star: "CHR ''*'' \<notin> set xs \<Longrightarrow> dropWhile (\<lambda>c. c \<noteq> CHR ''*'') (xs @ ys) = dropWhile (\<lambda>c. c \<noteq> CHR ''*'') ys"
  by (induction xs) auto

lemma range_of_edge:
  assumes "plain_edge e" and "min_hops f = 1" and "max_hops f = 1"
  shows "range_from_text (edge_text e) f = Inr (f\<lparr>min_hops := min_hops e, max_hops := max_hops e\<rparr>)"
proof -
  let ?head = "''-['' @ variable_text (edge_variable e) @ concat (map (\<lambda>x. CHR '':'' # x) (edge_types e))"
  have head: "CHR ''*'' \<notin> set ?head" using assms(1) by (auto simp: plain_edge_def)
  show ?thesis
  proof (cases "range_text e = []")
    case True
    then have "CHR ''*'' \<notin> set (edge_text e)"
      using head assms(1) by (auto simp: edge_text_def plain_edge_def)
    moreover have "min_hops e = 1" "max_hops e = 1" using True by (auto simp: range_text_def split: if_splits)
    ultimately show ?thesis using assms(2,3) by (simp add: range_from_text_def)
  next
    case False
    let ?range = "nat_string (unat (min_hops e)) @ ''..'' @ (if max_hops e = - 1 then [] else nat_string (unat (max_hops e)))"
    have range: "range_text e = CHR ''*'' # ?range" using False by (auto simp: range_text_def split: if_splits)
    have plain: "edge_constraints e = []" "0 \<le> sint (min_hops e)" "- 1 \<le> sint (max_hops e)"
      using assms(1) False by (auto simp: plain_edge_def)
    have raw: "edge_text e = ?head @ CHR ''*'' # ?range @ CHR '']'' # (if directed e then ''->'' else ''-'')"
      unfolding edge_text_def range plain(1) by simp
    have "CHR '']'' \<notin> set ?range"
      by (auto dest: digit_char)
    then have "takeWhile (\<lambda>c. c \<noteq> CHR '']'') (?range @ CHR '']'' # ys) = ?range" for ys
      by (subst takeWhile_append2) auto
    then show ?thesis
      using parse_range_text [OF plain(2,3), of f] assms(2,3)
      unfolding range_from_text_def raw before_star [OF head] by simp
  qed
qed

text \<open>The expressions an edge leaves on the stack.\<close>

definition edge_rest :: "EdgePattern \<Rightarrow> Expression list" where
  "edge_rest e =
     rev (map Identifier (case edge_variable e of None \<Rightarrow> [] | Some x \<Rightarrow> [x]) @ map Identifier (edge_types e) @
       map (Literal \<circ> snd) (edge_constraints e))"

lemma edge_tree_simps:
  "tree_children (edge_tree e) =
    variable_tree (edge_variable e) # group (map (name_tree (Part REdgeType)) (edge_types e)) @
      (if range_text e = [] then [] else group [leaf (Part RVariableLengthRange) (range_text e)]) @
      properties_trees (edge_constraints e)"
  "tree_rule (edge_tree e) = Part (if directed e then RDirectedEdge else RUndirectedEdge)"
  "tree_text (edge_tree e) = edge_text e"
  by (simp_all add: edge_tree_def)

lemma range_from_groups: "range_from_children (tree_children (edge_tree e)) f = Inr f"
  by (simp add: edge_tree_simps range_from_children_def variable_tree_def properties_trees_def group_def)

lemma build_edge_rule:
  "tree_rule t = Part RDirectedEdge \<or> tree_rule t = Part RUndirectedEdge \<Longrightarrow>
     build_ast_from_tree lib t st =
       (case build_children lib (tree_children t) st of
          Inl err \<Rightarrow> Inl err
        | Inr u \<Rightarrow> build_edge lib t u)"
  by (cases t) (auto simp: build_node_def split: sum.split)

lemma build_edge_tree:
  assumes "plain_edge e" and "clean st"
  shows "build_ast_from_tree lib (edge_tree e) st =
    Inr (st\<lparr>expression_stack := edge_rest e @ expression_stack st,
            edge_stack := e\<lparr>edge_constraints := ordered lib (edge_constraints e)\<rparr> # edge_stack st\<rparr>)"
proof -
  have e: "edge_variable e \<noteq> Some []" "plain_properties (edge_constraints e)"
    using assms(1) by (simp_all add: plain_edge_def)
  let ?st = "st\<lparr>expression_stack := edge_rest e @ expression_stack st, temp_edge_types := edge_types e,
      property_stack := (if edge_constraints e = [] then [] else [edge_constraints e])\<rparr>"
  have children: "build_children lib (tree_children (edge_tree e)) st = Inr ?st"
    using assms(2) e
    by (cases st; cases "edge_variable e")
      (simp_all add: edge_tree_simps build_append build_variable build_names build_properties clean_def edge_rest_def
        del: build_ast_from_tree.simps)
  have variable: "variable_of (tree_children (edge_tree e)) = edge_variable e"
    using e(1) by (simp only: edge_tree_simps variable_of_groups if_False)
  let ?f = "new_EdgePattern\<lparr>directed := directed e, edge_variable := edge_variable e, edge_types := edge_types e,
      edge_constraints := ordered lib (edge_constraints e)\<rparr>"
  have "min_hops ?f = 1" "max_hops ?f = 1" by (simp_all add: new_EdgePattern_def)
  note range_of_edge [OF assms(1) this]
  also have "?f\<lparr>min_hops := min_hops e, max_hops := max_hops e\<rparr> =
      e\<lparr>edge_constraints := ordered lib (edge_constraints e)\<rparr>"
    by (cases e) (simp add: new_EdgePattern_def)
  finally have range: "range_from_text (edge_text e) ?f =
      Inr (e\<lparr>edge_constraints := ordered lib (edge_constraints e)\<rparr>)" .
  have pop: "pop_properties lib (?st\<lparr>temp_edge_types := []\<rparr>) =
      (ordered lib (edge_constraints e), st\<lparr>expression_stack := edge_rest e @ expression_stack st\<rparr>)"
    using assms(2) by (cases st) (simp add: pop_properties_def ordered_def clean_def)
  have directed: "(tree_rule (edge_tree e) = Part RDirectedEdge) = directed e" by (simp add: edge_tree_simps)
  have "build_edge lib (edge_tree e) ?st =
    Inr (st\<lparr>expression_stack := edge_rest e @ expression_stack st,
            edge_stack := e\<lparr>edge_constraints := ordered lib (edge_constraints e)\<rparr> # edge_stack st\<rparr>)"
    unfolding build_edge_def pop prod.case Let_def directed variable range_from_groups sum.case edge_tree_simps(3)
    by (simp add: range)
  moreover have "build_ast_from_tree lib (edge_tree e) st =
      (case build_children lib (tree_children (edge_tree e)) st of
         Inl err \<Rightarrow> Inl err
       | Inr u \<Rightarrow> build_edge lib (edge_tree e) u)"
    by (rule build_edge_rule) (simp add: edge_tree_simps)
  ultimately show ?thesis by (simp only: children sum.case)
qed

section \<open>Patterns and clauses\<close>

definition ordered_node :: "cpp_library \<Rightarrow> NodePattern \<Rightarrow> NodePattern" where
  "ordered_node lib n = n\<lparr>node_constraints := ordered lib (node_constraints n)\<rparr>"

definition ordered_edge :: "cpp_library \<Rightarrow> EdgePattern \<Rightarrow> EdgePattern" where
  "ordered_edge lib e = e\<lparr>edge_constraints := ordered lib (edge_constraints e)\<rparr>"

definition ordered_pattern :: "cpp_library \<Rightarrow> Pattern \<Rightarrow> Pattern" where
  "ordered_pattern lib p =
     \<lparr>pattern_nodes = map (ordered_node lib) (pattern_nodes p),
      pattern_edges = map (ordered_edge lib) (pattern_edges p)\<rparr>"

definition plain_path :: "Pattern \<Rightarrow> bool" where
  "plain_path p \<longleftrightarrow>
     length (pattern_nodes p) = Suc (length (pattern_edges p)) \<and>
     list_all plain_node (pattern_nodes p) \<and> list_all plain_edge (pattern_edges p)"

definition steps_rest :: "(EdgePattern \<times> NodePattern) list \<Rightarrow> Expression list" where
  "steps_rest steps = concat (rev (map (\<lambda>(e, n). node_rest n @ edge_rest e) steps))"

definition pattern_rest :: "Pattern \<Rightarrow> Expression list" where
  "pattern_rest p =
     steps_rest (zip (pattern_edges p) (tl (pattern_nodes p))) @ node_rest (hd (pattern_nodes p))"

lemma build_steps:
  assumes "list_all (\<lambda>(e, n). plain_edge e \<and> plain_node n) steps" and "clean st"
  shows "build_children lib (concat (map (\<lambda>(e, n). [edge_tree e, node_tree n]) steps)) st =
    Inr (st\<lparr>expression_stack := steps_rest steps @ expression_stack st,
            node_stack := rev (map (ordered_node lib \<circ> snd) steps) @ node_stack st,
            edge_stack := rev (map (ordered_edge lib \<circ> fst) steps) @ edge_stack st\<rparr>)"
  using assms
proof (induction steps arbitrary: st)
  case (Cons step steps)
  obtain e n where step: "step = (e, n)" by fastforce
  let ?t = "st\<lparr>expression_stack := edge_rest e @ expression_stack st, edge_stack := ordered_edge lib e # edge_stack st\<rparr>"
  let ?u = "?t\<lparr>expression_stack := node_rest n @ expression_stack ?t, node_stack := ordered_node lib n # node_stack ?t\<rparr>"
  have clean: "clean ?t" "clean ?u" using Cons(3) by (simp_all add: clean_def)
  have "build_ast_from_tree lib (edge_tree e) st = Inr ?t"
    using build_edge_tree [of e st lib] Cons(2,3) by (simp add: step ordered_edge_def)
  moreover have "build_ast_from_tree lib (node_tree n) ?t = Inr ?u"
    using build_node_tree [of n ?t lib] Cons(2) clean(1) by (simp add: step ordered_node_def)
  ultimately show ?case
    using Cons(1) [of ?u] Cons(2) clean(2) by (simp add: step steps_rest_def)
qed (simp add: steps_rest_def)

lemma build_pattern_tree:
  assumes "plain_path p" and "clean st" and "node_stack st = []" "edge_stack st = []"
  shows "build_ast_from_tree lib (pattern_tree p) st =
    Inr (st\<lparr>expression_stack := pattern_rest p @ expression_stack st,
            pattern_stack := ordered_pattern lib p # pattern_stack st\<rparr>)"
proof -
  obtain n ns where p: "pattern_nodes p = n # ns" "length ns = length (pattern_edges p)" "plain_node n"
    "list_all plain_node ns" "list_all plain_edge (pattern_edges p)"
    using assms(1) by (cases "pattern_nodes p") (auto simp: plain_path_def)
  let ?steps = "zip (pattern_edges p) ns"
  have plain: "list_all (\<lambda>(e, n). plain_edge e \<and> plain_node n) ?steps"
    using p(4,5) by (auto simp: list_all_iff dest: set_zip_leftD set_zip_rightD)
  let ?t = "st\<lparr>expression_stack := node_rest n @ expression_stack st, node_stack := [ordered_node lib n]\<rparr>"
  have n: "build_ast_from_tree lib (node_tree n) st = Inr ?t"
    using build_node_tree [OF p(3) assms(2)] assms(3) by (simp add: ordered_node_def)
  have steps: "build_children lib (concat (map (\<lambda>(e, n). [edge_tree e, node_tree n]) ?steps)) ?t =
    Inr (?t\<lparr>expression_stack := steps_rest ?steps @ expression_stack ?t,
            node_stack := rev (map (ordered_node lib \<circ> snd) ?steps) @ node_stack ?t,
            edge_stack := rev (map (ordered_edge lib \<circ> fst) ?steps) @ edge_stack ?t\<rparr>)"
    using assms(2) by (intro build_steps [OF plain]) (simp add: clean_def)
  have maps: "map (ordered_node lib \<circ> snd) ?steps = map (ordered_node lib) ns"
    "map (ordered_edge lib \<circ> fst) ?steps = map (ordered_edge lib) (pattern_edges p)"
    using p(2) by (simp_all flip: map_map)
  have "build_ast_from_tree lib (pattern_tree p) st =
      (case build_children lib (node_tree n # concat (map (\<lambda>(e, n). [edge_tree e, node_tree n]) ?steps)) st of
         Inl err \<Rightarrow> Inl err
       | Inr u \<Rightarrow> Inr (build_pattern u))"
    by (simp add: pattern_tree_def build_inner p(1) build_node_def del: build_ast_from_tree.simps split: sum.split)
  then show ?thesis
    unfolding build_children.simps n sum.case steps maps using assms(3,4)
    by (simp add: build_pattern_def ordered_pattern_def p(1) pattern_rest_def)
qed

text \<open>Several patterns.\<close>

lemma build_patterns:
  assumes "list_all plain_path ps" and "clean st" and "node_stack st = []" "edge_stack st = []"
  shows "build_children lib (map pattern_tree ps) st =
    Inr (st\<lparr>expression_stack := concat (rev (map pattern_rest ps)) @ expression_stack st,
            pattern_stack := rev (map (ordered_pattern lib) ps) @ pattern_stack st\<rparr>)"
  using assms
proof (induction ps arbitrary: st)
  case (Cons p ps)
  let ?t = "st\<lparr>expression_stack := pattern_rest p @ expression_stack st,
      pattern_stack := ordered_pattern lib p # pattern_stack st\<rparr>"
  have "build_ast_from_tree lib (pattern_tree p) st = Inr ?t"
    using Cons(2-) by (intro build_pattern_tree) simp_all
  moreover have "clean ?t" using Cons(3) by (simp add: clean_def)
  ultimately show ?case using Cons(1) [of ?t] Cons(2-) by simp
qed simp

section \<open>Clauses\<close>

text \<open>
  An item of \<open>RETURN\<close> is what lies on the top of the stack, the alias if there is one; with
  an empty stack there is no item.
\<close>

definition item_stack :: "ReturnItem \<Rightarrow> Expression list \<Rightarrow> Expression list" where
  "item_stack item s =
     (case item_alias item of None \<Rightarrow> [] | Some a \<Rightarrow> [Identifier a]) @ left (item_expression item) s"

fun read_items :: "ReturnItem list \<Rightarrow> Expression list \<Rightarrow> ReturnItem list \<times> Expression list" where
  "read_items [] s = ([], s)"
| "read_items (item # items) s =
     (case item_stack item s of
        [] \<Rightarrow> read_items items []
      | e # es \<Rightarrow>
          (case read_items items es of
             (found, rest) \<Rightarrow> (\<lparr>item_expression = e, item_alias = None\<rparr> # found, rest)))"

definition plain_item :: "ReturnItem \<Rightarrow> bool" where
  "plain_item item \<longleftrightarrow> plain_expression (item_expression item)"

definition add_items :: "ReturnItem list \<Rightarrow> ReturnItem list list \<Rightarrow> ReturnItem list list" where
  "add_items found stack =
     (if found = [] then stack else case stack of [] \<Rightarrow> [found] | items # rest \<Rightarrow> (items @ found) # rest)"

lemma build_item:
  assumes "plain_item item"
  shows "build_ast_from_tree lib (item_tree item) st =
    Inr (case item_stack item (expression_stack st) of
       [] \<Rightarrow> st\<lparr>expression_stack := []\<rparr>
     | e # es \<Rightarrow> st\<lparr>expression_stack := es,
                  return_stack := add_items [\<lparr>item_expression = e, item_alias = None\<rparr>] (return_stack st)\<rparr>)"
proof -
  have "build_children lib (tree_children (item_tree item)) st =
      Inr (st\<lparr>expression_stack := item_stack item (expression_stack st)\<rparr>)"
    using build_expression [of "item_expression item" lib] assms
    by (simp add: item_tree_def plain_item_def item_stack_def push_expression_def build_append split: option.split)
  then show ?thesis
    unfolding item_tree_def build_inner
    by (simp add: build_node_def build_return_item_def add_items_def split: list.split)
qed

lemma build_items:
  "list_all plain_item items \<Longrightarrow>
     build_children lib (map item_tree items) st =
       (case read_items items (expression_stack st) of
          (found, rest) \<Rightarrow> Inr (st\<lparr>expression_stack := rest, return_stack := add_items found (return_stack st)\<rparr>))"
proof (induction items arbitrary: st)
  case (Cons item items)
  have "add_items found (add_items [i] stack) = add_items (i # found) stack" for found i stack
    by (cases stack) (simp_all add: add_items_def)
  then show ?case
    using Cons by (simp add: build_item split: list.split prod.split)
qed (simp add: add_items_def)

text \<open>\<open>ORDER BY\<close> takes the whole stack.\<close>

definition order_left :: "OrderByItem list \<Rightarrow> Expression list \<Rightarrow> Expression list" where
  "order_left items s = fold (left \<circ> order_expression) items s"

lemma build_orders:
  "list_all (\<lambda>i. plain_expression (order_expression i)) items \<Longrightarrow>
     build_children lib (concat (map order_trees items)) st =
       Inr (st\<lparr>expression_stack := order_left items (expression_stack st)\<rparr>)"
proof (induction items arbitrary: st)
  case (Cons i items)
  then show ?case
    by (cases "order_direction i") (simp_all add: order_trees_def build_append build_expression order_left_def)
qed (simp add: order_left_def)

text \<open>What is on the stack behind each clause.\<close>

definition match_stack :: "Query \<Rightarrow> Expression list" where
  "match_stack q = (case query_match q of None \<Rightarrow> [] | Some ps \<Rightarrow> concat (rev (map pattern_rest ps)))"

definition create_stack :: "Query \<Rightarrow> Expression list" where
  "create_stack q =
     (case query_create q of None \<Rightarrow> [] | Some ps \<Rightarrow> concat (rev (map pattern_rest ps))) @ match_stack q"

definition where_stack :: "Query \<Rightarrow> Expression list" where
  "where_stack q = (case query_where q of None \<Rightarrow> create_stack q | Some c \<Rightarrow> tl (left c (create_stack q)))"

definition assigned_stack :: "SetClause \<Rightarrow> Query \<Rightarrow> Expression list" where
  "assigned_stack s q = left (set_value s) (Identifier (set_variable s) # where_stack q)"

definition set_stack :: "Query \<Rightarrow> Expression list" where
  "set_stack q = (case query_set q of None \<Rightarrow> where_stack q | Some s \<Rightarrow> tl (assigned_stack s q))"

definition delete_stack :: "Query \<Rightarrow> Expression list" where
  "delete_stack q =
     (case query_delete q of None \<Rightarrow> [] | Some d \<Rightarrow> rev (map Identifier (delete_variables d))) @ set_stack q"

definition return_stack_of :: "Query \<Rightarrow> Expression list" where
  "return_stack_of q =
     (case query_return q of None \<Rightarrow> delete_stack q | Some r \<Rightarrow> snd (read_items (return_items r) (delete_stack q)))"

text \<open>The query that is read.\<close>

definition read_query :: "cpp_library \<Rightarrow> Query \<Rightarrow> Query" where
  "read_query lib q =
     \<lparr>query_match = map_option (map (ordered_pattern lib)) (query_match q),
      query_where = Option.bind (query_where q)
        (\<lambda>c. case left c (create_stack q) of [] \<Rightarrow> None | e # es \<Rightarrow> Some e),
      query_return = map_option
        (\<lambda>r. \<lparr>return_items = fst (read_items (return_items r) (delete_stack q)), return_distinct = False\<rparr>)
        (query_return q),
      query_create = map_option (map (ordered_pattern lib)) (query_create q),
      query_set = map_option (\<lambda>s. s\<lparr>set_value := hd (assigned_stack s q)\<rparr>) (query_set q),
      query_delete = map_option (\<lambda>d. d\<lparr>detach := False\<rparr>) (query_delete q),
      query_limit = query_limit q,
      query_order_by = map_option
        (\<lambda>items. map (\<lambda>e. \<lparr>order_expression = e, order_direction = ASC\<rparr>) (rev (order_left items (return_stack_of q))))
        (query_order_by q)\<rparr>"

text \<open>The queries the trees are about: no doubles, no empty names, nothing empty that the grammar wants filled.\<close>

definition plain_query :: "Query \<Rightarrow> bool" where
  "plain_query q \<longleftrightarrow>
     query_is_valid q \<and>
     list_all plain_path (case query_match q of None \<Rightarrow> [] | Some ps \<Rightarrow> ps) \<and>
     list_all plain_path (case query_create q of None \<Rightarrow> [] | Some ps \<Rightarrow> ps) \<and>
     (case query_where q of None \<Rightarrow> True | Some c \<Rightarrow> plain_expression c) \<and>
     (case query_set q of None \<Rightarrow> True
      | Some s \<Rightarrow> set_variable s \<noteq> [] \<and> set_property s \<noteq> [] \<and> plain_expression (set_value s)) \<and>
     (case query_delete q of None \<Rightarrow> True | Some d \<Rightarrow> delete_variables d \<noteq> []) \<and>
     (case query_return q of None \<Rightarrow> True | Some r \<Rightarrow> list_all plain_item (return_items r)) \<and>
     (case query_order_by q of None \<Rightarrow> True
      | Some items \<Rightarrow> list_all (\<lambda>i. plain_expression (order_expression i)) items)"

text \<open>The state between two clauses.\<close>

definition reading :: "Expression list \<Rightarrow> Query \<Rightarrow> ParserState" where
  "reading s q = new_ParserState\<lparr>expression_stack := s, built_query := q\<rparr>"

lemma reading_simps [simp]:
  "expression_stack (reading s q) = s" "built_query (reading s q) = q" "clean (reading s q)"
  "node_stack (reading s q) = []" "edge_stack (reading s q) = []" "pattern_stack (reading s q) = []"
  "return_stack (reading s q) = []" "(reading s q)\<lparr>expression_stack := s'\<rparr> = reading s' q"
  "(reading s q)\<lparr>built_query := q'\<rparr> = reading s q'" "(reading s q)\<lparr>pattern_stack := []\<rparr> = reading s q"
  "(reading s q)\<lparr>return_stack := []\<rparr> = reading s q"
  by (simp_all add: reading_def clean_def new_ParserState_def)

lemma absent_clause [simp]:
  "query_match q = None \<Longrightarrow> q\<lparr>query_match := None\<rparr> = q"
  "query_create q = None \<Longrightarrow> q\<lparr>query_create := None\<rparr> = q"
  "query_where q = None \<Longrightarrow> q\<lparr>query_where := None\<rparr> = q"
  "query_set q = None \<Longrightarrow> q\<lparr>query_set := None\<rparr> = q"
  "query_delete q = None \<Longrightarrow> q\<lparr>query_delete := None\<rparr> = q"
  "query_return q = None \<Longrightarrow> q\<lparr>query_return := None\<rparr> = q"
  "query_order_by q = None \<Longrightarrow> q\<lparr>query_order_by := None\<rparr> = q"
  "query_limit q = None \<Longrightarrow> q\<lparr>query_limit := None\<rparr> = q"
  by (cases q; simp)+

lemma build_optional:
  "build_children lib (optional f x) st = (case x of None \<Rightarrow> Inr st | Some a \<Rightarrow> build_ast_from_tree lib (f a) st)"
  by (simp add: optional_def split: option.split sum.split)

lemma build_match_step:
  "list_all plain_path (case x of None \<Rightarrow> [] | Some ps \<Rightarrow> ps) \<Longrightarrow> query_match q = None \<Longrightarrow>
     build_children lib (optional match_tree x) (reading s q) =
       Inr (reading ((case x of None \<Rightarrow> [] | Some ps \<Rightarrow> concat (rev (map pattern_rest ps))) @ s)
         (q\<lparr>query_match := map_option (map (ordered_pattern lib)) x\<rparr>))"
  by (cases x) (simp_all add: build_optional match_tree_def build_inner build_patterns build_node_def build_match_def)

lemma build_create_step:
  "list_all plain_path (case x of None \<Rightarrow> [] | Some ps \<Rightarrow> ps) \<Longrightarrow> query_create q = None \<Longrightarrow>
     build_children lib (optional create_tree x) (reading s q) =
       Inr (reading ((case x of None \<Rightarrow> [] | Some ps \<Rightarrow> concat (rev (map pattern_rest ps))) @ s)
         (q\<lparr>query_create := map_option (map (ordered_pattern lib)) x\<rparr>))"
  by (cases x) (simp_all add: build_optional create_tree_def build_inner build_patterns build_node_def build_create_def)

lemma build_where_step:
  "(case x of None \<Rightarrow> True | Some c \<Rightarrow> plain_expression c) \<Longrightarrow> query_where q = None \<Longrightarrow>
     build_children lib (optional where_tree x) (reading s q) =
       Inr (reading (case x of None \<Rightarrow> s | Some c \<Rightarrow> tl (left c s))
         (q\<lparr>query_where := Option.bind x (\<lambda>c. case left c s of [] \<Rightarrow> None | e # es \<Rightarrow> Some e)\<rparr>))"
  by (cases x)
    (simp_all add: build_optional where_tree_def build_inner build_expression build_node_def build_where_def split: list.split)

lemma left_nonempty: "s \<noteq> [] \<Longrightarrow> left e s \<noteq> []"
  by (induction e arbitrary: s) (auto split: list.splits)

lemma build_set_step:
  assumes "case x of None \<Rightarrow> True
      | Some c \<Rightarrow> set_variable c \<noteq> [] \<and> set_property c \<noteq> [] \<and> plain_expression (set_value c)"
    and "query_set q = None"
  shows "build_children lib (optional set_tree x) (reading s q) =
       Inr (reading (case x of None \<Rightarrow> s | Some c \<Rightarrow> tl (left (set_value c) (Identifier (set_variable c) # s)))
         (q\<lparr>query_set := map_option (\<lambda>c. c\<lparr>set_value := hd (left (set_value c) (Identifier (set_variable c) # s))\<rparr>) x\<rparr>))"
proof (cases x)
  case (Some c)
  obtain e es where e: "left (set_value c) (Identifier (set_variable c) # s) = e # es"
    using left_nonempty [of "Identifier (set_variable c) # s" "set_value c"]
    by (cases "left (set_value c) (Identifier (set_variable c) # s)") auto
  have "set_target (tree_children (set_tree c)) = (set_variable c, set_property c)"
    by (simp add: set_tree_def set_target_def assigned_names_def)
  then have "build_set (tree_children (set_tree c)) (reading (e # es) q) =
      reading es (q\<lparr>query_set := Some (c\<lparr>set_value := e\<rparr>)\<rparr>)"
    using assms(1) by (cases c) (simp add: build_set_def Some)
  then show ?thesis
    using assms(1) by (simp add: Some build_optional set_tree_def build_inner build_expression push_expression_def
        build_node_def e)
qed (use assms in \<open>simp add: build_optional\<close>)

lemma build_delete_step:
  assumes "case x of None \<Rightarrow> True | Some d \<Rightarrow> delete_variables d \<noteq> []" and "query_delete q = None"
  shows "build_children lib (optional delete_tree x) (reading s q) =
       Inr (reading ((case x of None \<Rightarrow> [] | Some d \<Rightarrow> rev (map Identifier (delete_variables d))) @ s)
         (q\<lparr>query_delete := map_option (\<lambda>d. d\<lparr>detach := False\<rparr>) x\<rparr>))"
proof (cases x)
  case (Some d)
  have names: "build_children lib (map (leaf (Tok RIdentifier)) xs) st =
      Inr (st\<lparr>expression_stack := rev (map Identifier xs) @ expression_stack st\<rparr>)" for xs st
    by (induction xs arbitrary: st) (simp_all add: push_expression_def)
  have "deleted_variables (tree_children (delete_tree d)) = delete_variables d"
    by (simp add: deleted_variables_def delete_tree_def group_def comp_def)
  moreover have "\<not> list_ex (\<lambda>c. tree_rule c = Cla RDetachKeyword) (tree_children (delete_tree d))"
    by (simp add: delete_tree_def group_def)
  ultimately have "build_delete (tree_children (delete_tree d)) (reading s' q) =
      reading s' (q\<lparr>query_delete := Some (d\<lparr>detach := False\<rparr>)\<rparr>)" for s'
    using assms(1) by (cases d) (simp add: build_delete_def Some)
  moreover have "build_children lib (tree_children (delete_tree d)) (reading s q) =
      Inr (reading (rev (map Identifier (delete_variables d)) @ s) q)"
    by (simp add: delete_tree_def build_append build_inner names build_node_def)
  moreover have "build_ast_from_tree lib (delete_tree d) st =
     (case build_children lib (tree_children (delete_tree d)) st of
        Inl err \<Rightarrow> Inl err
      | Inr u \<Rightarrow> Inr (build_delete (tree_children (delete_tree d)) u))" for st
    unfolding delete_tree_def build_inner inner_simps by (simp add: build_node_def split: sum.split)
  ultimately show ?thesis by (simp add: Some build_optional del: build_ast_from_tree.simps)
qed (use assms in \<open>simp add: build_optional\<close>)

lemma build_return_step:
  assumes "case x of None \<Rightarrow> True | Some r \<Rightarrow> list_all plain_item (return_items r)" and "query_return q = None"
  shows "build_children lib (optional return_tree x) (reading s q) =
       Inr (reading (case x of None \<Rightarrow> s | Some r \<Rightarrow> snd (read_items (return_items r) s))
         (q\<lparr>query_return := map_option
           (\<lambda>r. \<lparr>return_items = fst (read_items (return_items r) s), return_distinct = False\<rparr>) x\<rparr>))"
  using assms
  by (cases x) (simp_all add: build_optional return_tree_def build_inner build_items build_node_def build_return_def
      add_items_def split: prod.split)

lemma build_order_by_step:
  assumes "case x of None \<Rightarrow> True | Some items \<Rightarrow> list_all (\<lambda>i. plain_expression (order_expression i)) items"
    and "query_order_by q = None"
  shows "build_children lib (optional order_by_tree x) (reading s q) =
       Inr (reading (case x of None \<Rightarrow> s | Some items \<Rightarrow> [])
         (q\<lparr>query_order_by := map_option
           (\<lambda>items. map (\<lambda>e. \<lparr>order_expression = e, order_direction = ASC\<rparr>) (rev (order_left items s))) x\<rparr>))"
proof (cases x)
  case (Some items)
  have "find (\<lambda>c. tree_rule c = Cla ROrderDirection) (group ts) = None" for ts
    by (simp add: group_def)
  then show ?thesis
    using assms by (simp add: Some build_optional order_by_tree_def build_inner build_orders build_node_def
        build_order_by_def rev_map)
qed (use assms in \<open>simp add: build_optional\<close>)

lemma build_limit_step:
  "query_limit q = None \<Longrightarrow>
     build_children lib (optional limit_tree x) (reading s q) = Inr (reading s (q\<lparr>query_limit := x\<rparr>))"
  by (cases x) (simp_all add: build_optional limit_tree_def build_inner build_node_def build_limit_def stoll_i64_string)

lemmas build_clauses = build_match_step build_create_step build_where_step build_set_step build_delete_step
  build_return_step build_order_by_step build_limit_step

text \<open>All the clauses.\<close>

lemma build_query_trees:
  assumes "plain_query q"
  shows "\<exists>st. build_children lib (query_trees q) new_ParserState = Inr st \<and> built_query st = read_query lib q"
proof -
  have start: "new_ParserState = reading [] new_Query" by (simp add: reading_def new_ParserState_def)
  show ?thesis
    using assms unfolding start query_trees_def plain_query_def read_query_def return_stack_of_def delete_stack_def
      set_stack_def assigned_stack_def where_stack_def create_stack_def match_stack_def
    by (simp add: build_append build_clauses new_Query_def del: build_children.simps)
qed

lemma parse_skeleton:
  assumes "plain_query q" and "pegtl s = Inr (Some t)" and "skeleton t = query_trees q"
  shows "parse_query pegtl lib s = Inr (read_query lib q)"
proof -
  obtain st where "build_ast_from_tree lib t new_ParserState = Inr st" "built_query st = read_query lib q"
    using build_query_trees [OF assms(1), of lib] build_skeleton [of lib t] assms(3) by auto
  moreover have "query_is_valid (read_query lib q)"
    using assms(1) by (auto simp: plain_query_def query_is_valid_def read_query_def)
  ultimately show ?thesis using assms(2) by (simp add: parse_query_def)
qed

end
