(* ===== verification/CypherMatching.thy ===== *)
theory CypherMatching
  imports CypherGrammar
begin

text \<open>
  Matching with the grammar: more fuel does not change an outcome, and with enough fuel every
  text has one, as no rule reaches itself without reading a character and nothing is
  repeated that reads none.
\<close>

section \<open>Fuel\<close>

text \<open>More fuel does not change an outcome.\<close>

definition approx :: "'a option \<Rightarrow> 'a option \<Rightarrow> bool" where
  "approx a b \<longleftrightarrow> a = None \<or> a = b"

lemma approx_refl [simp, intro]: "approx a a"
  by (simp add: approx_def)

lemma approx_None [simp, intro]: "approx None b"
  by (simp add: approx_def)

lemma approx_map [intro!]: "approx a b \<Longrightarrow> approx (map_option f a) (map_option f b)"
  by (auto simp: approx_def)

lemma approx_followed [intro]:
  assumes "approx a b" and "\<And>s. approx (f s) (g s)"
  shows "approx (followed a f) (followed b g)"
  using assms by (cases a; cases "the a") (auto simp: approx_def followed_def, metis)

lemma approx_or_else [intro]: "approx a b \<Longrightarrow> approx c d \<Longrightarrow> approx (or_else a c) (or_else b d)"
  by (auto simp: approx_def or_else_def)

definition extends_to :: "matcher \<Rightarrow> matcher \<Rightarrow> bool" where
  "extends_to p q \<longleftrightarrow> (\<forall>r s. approx (p r s) (q r s))"

lemma extends_toD [intro]: "extends_to p q \<Longrightarrow> approx (p r s) (q r s)"
  by (simp add: extends_to_def)

lemma match_seq_extends [intro]: "extends_to p q \<Longrightarrow> approx (match_seq p rs s) (match_seq q rs s)"
  by (induction rs arbitrary: s) auto

lemma match_sor_extends [intro]: "extends_to p q \<Longrightarrow> approx (match_sor p rs s) (match_sor q rs s)"
  by (induction rs arbitrary: s) auto

lemma match_star_extends [intro]:
  "extends_to p q \<Longrightarrow> n \<le> m \<Longrightarrow> approx (match_star p n rs s) (match_star q m rs s)"
proof (induction n arbitrary: m s)
  case (Suc n)
  then obtain k where "m = Suc k" "n \<le> k" by (cases m) auto
  with Suc show ?case by auto
qed simp

lemma match_until_extends [intro]: "extends_to p q \<Longrightarrow> approx (match_until p r s) (match_until q r s)"
  by (induction s) auto

lemma match_inside_extends:
  "extends_to p q \<Longrightarrow> n \<le> m \<Longrightarrow> approx (match_inside p n r s) (match_inside q m r s)"
  by (cases r) auto

lemma peg_extends: "n \<le> m \<Longrightarrow> extends_to (peg n) (peg m)"
proof (induction n arbitrary: m)
  case (Suc n)
  then obtain k where "m = Suc k" "n \<le> k" by (cases m) auto
  with Suc.IH [OF \<open>n \<le> k\<close>] show ?case
    by (auto simp: extends_to_def intro!: match_inside_extends)
qed (simp add: extends_to_def)

lemma peg_unique: "peg n r s = Some res \<Longrightarrow> peg m r s = Some res' \<Longrightarrow> res = res'"
  using extends_toD [OF peg_extends [of n "max n m"], of r s] extends_toD [OF peg_extends [of m "max n m"], of r s]
  by (auto simp: approx_def dest: sym)

section \<open>Every text has an outcome\<close>

text \<open>What is left of a text is no longer than the text.\<close>

definition leaves :: "nat \<Rightarrow> outcome option \<Rightarrow> bool" where
  "leaves k a \<longleftrightarrow> (\<forall>ts rest. a = Some (Matched ts rest) \<longrightarrow> length rest \<le> k)"

lemma leavesD: "leaves k (Some (Matched ts rest)) \<Longrightarrow> length rest \<le> k"
  by (simp add: leaves_def)

lemma leaves_simps [simp]:
  "leaves k None" "leaves k (Some Fails)" "leaves k (Some Throws)"
  "leaves k (Some (Matched ts rest)) \<longleftrightarrow> length rest \<le> k"
  by (simp_all add: leaves_def)

lemma leaves_followed:
  "leaves k a \<Longrightarrow> (\<And>rest. length rest \<le> k \<Longrightarrow> leaves l (f rest)) \<Longrightarrow> leaves l (followed a f)"
proof (cases "\<exists>ts rest. a = Some (Matched ts rest)")
  case True
  assume "leaves k a" and f: "\<And>rest. length rest \<le> k \<Longrightarrow> leaves l (f rest)"
  then obtain ts rest where "a = Some (Matched ts rest)" "leaves l (f rest)" using True by auto
  then show ?thesis
    by (cases "f rest"; cases "the (f rest)") (auto simp: followed_def)
next
  case False
  then show ?thesis by (cases a; cases "the a") (auto simp: followed_def)
qed

lemma leaves_or_else: "leaves k a \<Longrightarrow> leaves k b \<Longrightarrow> leaves k (or_else a b)"
  by (simp add: or_else_def)

lemma leaves_mono: "leaves k a \<Longrightarrow> k \<le> l \<Longrightarrow> leaves l a"
  by (auto simp: leaves_def)

definition shrinks :: "matcher \<Rightarrow> bool" where
  "shrinks p \<longleftrightarrow> (\<forall>r s. leaves (length s) (p r s))"

lemma shrinksD: "shrinks p \<Longrightarrow> length s \<le> k \<Longrightarrow> leaves k (p r s)"
  by (auto simp: shrinks_def intro: leaves_mono)

lemma match_seq_shrinks: "shrinks p \<Longrightarrow> length s \<le> k \<Longrightarrow> leaves k (match_seq p rs s)"
  by (induction rs arbitrary: s) (auto intro!: leaves_followed [OF shrinksD [of p]])

lemma match_sor_shrinks: "shrinks p \<Longrightarrow> length s \<le> k \<Longrightarrow> leaves k (match_sor p rs s)"
  by (induction rs) (auto intro!: leaves_or_else shrinksD [of p])

lemma match_star_shrinks: "shrinks p \<Longrightarrow> length s \<le> k \<Longrightarrow> leaves k (match_star p n rs s)"
  by (induction n arbitrary: s) (auto intro!: leaves_or_else leaves_followed [OF match_seq_shrinks])

lemma match_until_shrinks: "shrinks p \<Longrightarrow> length s \<le> k \<Longrightarrow> leaves k (match_until p r s)"
  by (induction s) (auto intro!: leaves_or_else shrinksD [of p])

lemma match_char_shrinks: "s \<noteq> [] \<Longrightarrow> leaves (length s - 1) (match_char f s)"
  by (cases s) (auto simp: match_if_def)

lemma match_char_shrinks': "leaves (length s) (match_char f s)"
  by (cases s) (auto simp: match_if_def)

lemma match_inside_shrinks: "shrinks p \<Longrightarrow> leaves (length s) (match_inside p n r s)"
  by (cases r)
    (auto intro!: leaves_or_else shrinksD [of p] leaves_followed [OF shrinksD [of p]] match_seq_shrinks match_sor_shrinks
      match_star_shrinks match_until_shrinks match_char_shrinks'
      simp: match_if_def)

lemma leaves_node: "leaves k (map_option (node_of r s) a) \<longleftrightarrow> leaves k a"
  by (cases a; cases "the a") (auto simp: node_of_def)

lemma peg_shrinks: "shrinks (peg n)"
proof (induction n)
  case (Suc n)
  then show ?case using match_inside_shrinks [OF Suc] by (auto simp: shrinks_def leaves_node)
qed (simp add: shrinks_def)

text \<open>Something was matched.\<close>

definition cuts :: "nat \<Rightarrow> outcome option \<Rightarrow> bool" where
  "cuts k a \<longleftrightarrow> (\<forall>ts rest. a = Some (Matched ts rest) \<longrightarrow> length rest < k)"

lemma cuts_simps [simp]:
  "cuts k None" "cuts k (Some Fails)" "cuts k (Some Throws)"
  "cuts k (Some (Matched ts rest)) \<longleftrightarrow> length rest < k"
  by (simp_all add: cuts_def)

lemma cuts_leaves: "cuts (Suc k) a \<longleftrightarrow> leaves k a"
  by (auto simp: cuts_def leaves_def less_Suc_eq_le)

lemma cuts_mono: "cuts k a \<Longrightarrow> k \<le> l \<Longrightarrow> cuts l a"
  by (fastforce simp: cuts_def)

lemma cuts_or_else: "cuts k a \<Longrightarrow> cuts k b \<Longrightarrow> cuts k (or_else a b)"
  by (simp add: or_else_def)

lemma cuts_followed:
  assumes "cuts k a" and f: "\<And>rest. length rest < k \<Longrightarrow> cuts l (f rest)"
  shows "cuts l (followed a f)"
proof (cases "\<exists>ts rest. a = Some (Matched ts rest)")
  case True
  then obtain ts rest where "a = Some (Matched ts rest)" "cuts l (f rest)" using assms by auto
  then show ?thesis by (cases "f rest"; cases "the (f rest)") (auto simp: followed_def)
next
  case False
  then show ?thesis by (cases a; cases "the a") (auto simp: followed_def)
qed

lemma cuts_node: "cuts k (map_option (node_of r s) a) \<longleftrightarrow> cuts k a"
  by (cases a; cases "the a") (auto simp: node_of_def)

text \<open>An outcome that is there with enough fuel.\<close>

definition grows :: "(nat \<Rightarrow> outcome option) \<Rightarrow> bool" where
  "grows a \<longleftrightarrow> (\<forall>n m. n \<le> m \<longrightarrow> approx (a n) (a m))"

definition settles :: "(nat \<Rightarrow> outcome option) \<Rightarrow> bool" where
  "settles a \<longleftrightarrow> (\<exists>n. a n \<noteq> None)"

lemma grows_intros [intro!]:
  "grows (\<lambda>n. peg n r s)" "grows (\<lambda>n. match_seq (peg n) rs s)" "grows (\<lambda>n. match_sor (peg n) rs s)"
  "grows (\<lambda>n. match_star (peg n) n rs s)" "grows (\<lambda>n. match_until (peg n) r s)" "grows (\<lambda>n. a)"
  by (auto simp: grows_def intro: extends_toD peg_extends)

lemma grows_or_else [intro!]: "grows a \<Longrightarrow> grows b \<Longrightarrow> grows (\<lambda>n. or_else (a n) (b n))"
  by (auto simp: grows_def)

lemma settles_const [simp]: "settles (\<lambda>n. Some res)"
  by (simp add: settles_def)

lemma settlesE:
  assumes "settles a" and "grows a"
  obtains n res where "\<And>m. n \<le> m \<Longrightarrow> a m = Some res"
proof -
  obtain n where n: "a n \<noteq> None" using assms(1) by (auto simp: settles_def)
  then have "a m = Some (the (a n))" if "n \<le> m" for m
    using assms(2) that by (force simp: grows_def approx_def)
  then show ?thesis by (rule that)
qed

lemma settles_or_else:
  assumes "settles a" "settles b" "grows a" "grows b"
  shows "settles (\<lambda>n. or_else (a n) (b n))"
proof -
  obtain n res m res' where "\<And>k. n \<le> k \<Longrightarrow> a k = Some res" "\<And>k. m \<le> k \<Longrightarrow> b k = Some res'"
    using assms by (metis settlesE)
  then have "or_else (a (max n m)) (b (max n m)) \<noteq> None" by (simp add: or_else_def)
  then show ?thesis unfolding settles_def by blast
qed

lemma settles_followed:
  assumes "settles a" "grows a" "\<And>rest. grows (\<lambda>n. f n rest)"
    and "\<And>n. cuts k (a n)" "\<And>rest. length rest < k \<Longrightarrow> settles (\<lambda>n. f n rest)"
  shows "settles (\<lambda>n. followed (a n) (f n))"
proof -
  obtain n res where n: "\<And>k. n \<le> k \<Longrightarrow> a k = Some res" using assms(1,2) by (metis settlesE)
  show ?thesis
  proof (cases res)
    case (Matched ts rest)
    then have "settles (\<lambda>n. f n rest)" using assms(4) [of n] n [of n] by (intro assms(5)) (simp add: cuts_def)
    then obtain m res' where "\<And>k. m \<le> k \<Longrightarrow> f k rest = Some res'" using assms(3) by (metis settlesE)
    then have "followed (a (max n m)) (f (max n m)) \<noteq> None" by (simp add: n followed_def Matched)
    then show ?thesis unfolding settles_def by blast
  next
    case Fails
    then have "followed (a n) (f n) \<noteq> None" by (simp add: n followed_def)
    then show ?thesis unfolding settles_def by blast
  next
    case Throws
    then have "followed (a n) (f n) \<noteq> None" by (simp add: n followed_def)
    then show ?thesis unfolding settles_def by blast
  qed
qed

text \<open>Rules that never match without reading a character.\<close>

definition eats :: "rule \<Rightarrow> bool" where
  "eats r \<longleftrightarrow> (\<forall>n s. cuts (length s) (peg n r s))"

definition eats_seq :: "rule list \<Rightarrow> bool" where
  "eats_seq rs \<longleftrightarrow> (\<forall>n s. cuts (length s) (match_seq (peg n) rs s))"

definition eats_inside :: "rule \<Rightarrow> bool" where
  "eats_inside r \<longleftrightarrow> (\<forall>n s. cuts (length s) (match_inside (peg n) n r s))"

lemma peg_cuts: "length s < k \<Longrightarrow> cuts k (peg n r s)"
  using peg_shrinks [of n] cuts_mono [of "Suc (length s)" "peg n r s" k] by (auto simp: shrinks_def cuts_leaves)

lemma match_seq_cuts: "length s < k \<Longrightarrow> cuts k (match_seq (peg n) rs s)"
  using match_seq_shrinks [OF peg_shrinks, of s "length s" n rs] cuts_mono [of "Suc (length s)" "match_seq (peg n) rs s" k]
  by (auto simp: cuts_leaves)

lemma match_star_cuts: "length s < k \<Longrightarrow> cuts k (match_star (peg n) m rs s)"
  using match_star_shrinks [OF peg_shrinks, of s "length s" n m rs]
    cuts_mono [of "Suc (length s)" "match_star (peg n) m rs s" k]
  by (auto simp: cuts_leaves)

lemma eatsI: "eats_inside (base r) \<Longrightarrow> eats r"
  unfolding eats_def eats_inside_def
proof (intro allI)
  fix n and s :: string
  assume "\<forall>n s. cuts (length s) (match_inside (peg n) n (base r) s)"
  then show "cuts (length s) (peg n r s)" by (cases n) (simp_all add: cuts_node)
qed

lemma eats_seq_first: "eats r \<Longrightarrow> eats_seq (r # rs)"
  by (auto simp: eats_def eats_seq_def intro!: cuts_followed match_seq_cuts)

lemma eats_seq_later: "eats_seq rs \<Longrightarrow> eats_seq (r # rs)"
  unfolding eats_seq_def match_seq.simps
proof (intro allI)
  fix n and s :: string
  assume eats: "\<forall>n s. cuts (length s) (match_seq (peg n) rs s)"
  have "cuts (length s) (match_seq (peg n) rs rest)" if "length rest < Suc (length s)" for rest
    using cuts_mono [OF eats [rule_format, of rest n]] that by simp
  then show "cuts (length s) (followed (peg n r s) (match_seq (peg n) rs))"
    by (intro cuts_followed [of "Suc (length s)"] peg_cuts) simp_all
qed

lemma match_char_cuts: "cuts (length s) (match_char f s)"
  by (cases s) (simp_all add: match_if_def)

lemma eats_inside_char:
  "eats_inside (One c)" "eats_inside (Ranges cs)" "eats_inside Space" "eats_inside Digit"
  by (simp_all add: eats_inside_def match_char_cuts)

lemma eats_inside_seq: "eats_seq rs \<Longrightarrow> eats_inside (Seq rs)"
  by (simp add: eats_inside_def eats_seq_def)

lemma eats_inside_sor: "list_all eats rs \<Longrightarrow> eats_inside (Sor rs)"
  unfolding eats_inside_def match_inside.simps
  by (induction rs) (auto simp: eats_def intro: cuts_or_else)

text \<open>A rule settles on all texts shorter than \<open>k\<close>, a sequence of rules, the inside of a rule.\<close>

definition answers :: "nat \<Rightarrow> rule \<Rightarrow> bool" where
  "answers k r \<longleftrightarrow> (\<forall>s. length s < k \<longrightarrow> settles (\<lambda>n. peg n r s))"

definition answers_seq :: "nat \<Rightarrow> rule list \<Rightarrow> bool" where
  "answers_seq k rs \<longleftrightarrow> (\<forall>s. length s < k \<longrightarrow> settles (\<lambda>n. match_seq (peg n) rs s))"

definition answers_inside :: "nat \<Rightarrow> rule \<Rightarrow> bool" where
  "answers_inside k r \<longleftrightarrow> (\<forall>s. length s < k \<longrightarrow> settles (\<lambda>n. match_inside (peg n) n r s))"

lemma answersI: "answers_inside k (base r) \<Longrightarrow> answers k r"
  unfolding answers_def answers_inside_def
proof (intro allI impI)
  fix s :: string
  assume "\<forall>s. length s < k \<longrightarrow> settles (\<lambda>n. match_inside (peg n) n (base r) s)" and "length s < k"
  then obtain n res where "match_inside (peg n) n (base r) s = Some res" by (auto simp: settles_def)
  then have "peg (Suc n) r s \<noteq> None" by simp
  then show "settles (\<lambda>n. peg n r s)" unfolding settles_def by blast
qed

lemma answers_seq_Nil: "answers_seq k []"
  by (simp add: answers_seq_def)

lemma answers_seq_Cons: "answers k r \<Longrightarrow> answers_seq k rs \<Longrightarrow> answers_seq k (r # rs)"
  unfolding answers_seq_def answers_def match_seq.simps
  by (intro allI impI settles_followed [where k = k]) (auto intro: peg_cuts)

lemma settles_char: "settles (\<lambda>n. match_char f s)"
  by (cases s) (simp_all add: match_if_def)

lemma answers_inside_char:
  "answers_inside k (One c)" "answers_inside k (Ranges cs)" "answers_inside k Space" "answers_inside k Digit"
  "answers_inside k (Str t)" "answers_inside k (Keyword t)" "answers_inside k Eof"
  by (simp_all add: answers_inside_def settles_char match_if_def)

lemma settles_One: "settles (\<lambda>n. peg n (One c) s)"
  using answersI [of "Suc (length s)" "One c"] by (simp add: answers_inside_char answers_def)

text \<open>Behind a character the text is shorter.\<close>

lemma answers_seq_One: "answers_seq k rs \<Longrightarrow> answers_seq (Suc k) (One c # rs)"
  unfolding answers_seq_def match_seq.simps
proof (intro allI impI)
  fix s :: string
  assume "\<forall>s. length s < k \<longrightarrow> settles (\<lambda>n. match_seq (peg n) rs s)" and "length s < Suc k"
  moreover have "eats (One c)" by (rule eatsI) (simp add: eats_inside_char)
  ultimately show "settles (\<lambda>n. followed (peg n (One c) s) (match_seq (peg n) rs))"
    by (intro settles_followed [where k = k])
      (auto simp: eats_def settles_One less_Suc_eq_le intro: cuts_mono)
qed

lemma settles_Suc: "settles (\<lambda>n. a (Suc n)) \<Longrightarrow> settles a"
  unfolding settles_def by blast

lemma settles_approx: "settles a \<Longrightarrow> (\<And>n. approx (a n) (b n)) \<Longrightarrow> settles b"
proof -
  assume "settles a" and ab: "\<And>n. approx (a n) (b n)"
  then obtain n where "a n \<noteq> None" by (auto simp: settles_def)
  then have "b n \<noteq> None" using ab [of n] by (auto simp: approx_def)
  then show ?thesis unfolding settles_def by blast
qed

lemmas peg_Suc = peg_extends [of n "Suc n" for n, OF le_SucI [OF order_refl]]

lemma settles_star:
  assumes "eats_seq rs" and "answers_seq k rs"
  shows "length s < k \<Longrightarrow> settles (\<lambda>n. match_star (peg n) n rs s)"
proof (induction s rule: length_induct)
  case (1 s)
  have rest: "settles (\<lambda>n. match_star (peg (Suc n)) n rs rest)" if "length rest < length s" for rest
    by (rule settles_approx [where a = "\<lambda>n. match_star (peg n) n rs rest"])
      (use 1 that in \<open>auto intro!: match_star_extends [OF peg_Suc order_refl] simp del: peg.simps\<close>)
  have seq: "settles (\<lambda>n. match_seq (peg (Suc n)) rs s)"
    by (rule settles_approx [where a = "\<lambda>n. match_seq (peg n) rs s"])
      (use assms(2) 1(2) in \<open>auto simp: answers_seq_def intro!: match_seq_extends [OF peg_Suc] simp del: peg.simps\<close>)
  have grows: "grows (\<lambda>n. match_seq (peg (Suc n)) rs s)" "grows (\<lambda>n. match_star (peg (Suc n)) n rs rest)" for rest
    by (auto simp: grows_def intro!: match_seq_extends match_star_extends peg_extends simp del: peg.simps match_star.simps match_seq.simps)
  have followed: "settles (\<lambda>n. followed (match_seq (peg (Suc n)) rs s) (match_star (peg (Suc n)) n rs))"
    using assms(1) by (intro settles_followed [OF seq grows, of "length s"] rest) (auto simp: eats_seq_def simp del: peg.simps)
  have "grows (\<lambda>n. followed (match_seq (peg (Suc n)) rs s) (match_star (peg (Suc n)) n rs))"
    using grows by (auto simp: grows_def simp del: peg.simps match_star.simps match_seq.simps)
  then have "settles (\<lambda>n. or_else (followed (match_seq (peg (Suc n)) rs s) (match_star (peg (Suc n)) n rs))
      (Some (Matched [] s)))"
    by (intro settles_or_else followed) auto
  then show ?case by (intro settles_Suc [of "\<lambda>n. match_star (peg n) n rs s"]) (simp only: match_star.simps)
qed

lemma answers_inside_star: "answers_seq k [r] \<Longrightarrow> eats r \<Longrightarrow> answers_inside k (Star r)"
  by (simp add: answers_inside_def settles_star eats_seq_first)

lemma answers_inside_then_star:
  assumes "answers k r" "answers_seq k rs" "eats_seq rs"
  shows "length s < k \<Longrightarrow> settles (\<lambda>n. followed (peg n r s) (match_star (peg n) n rs))"
  using assms by (intro settles_followed [where k = k] settles_star) (auto simp: answers_def intro: peg_cuts)

lemma answers_inside_plus: "answers k r \<Longrightarrow> eats r \<Longrightarrow> answers_inside k (Plus r)"
  by (simp add: answers_inside_def answers_inside_then_star answers_seq_Cons answers_seq_Nil eats_seq_first)

lemma answers_inside_list: "answers k r \<Longrightarrow> answers k sep \<Longrightarrow> eats sep \<Longrightarrow> answers_inside k (ListOf r sep)"
  by (simp add: answers_inside_def answers_inside_then_star answers_seq_Cons answers_seq_Nil eats_seq_first)

lemma answers_inside_seq: "answers_seq k rs \<Longrightarrow> answers_inside k (Seq rs)"
  by (simp add: answers_inside_def answers_seq_def)

lemma settles_sor: "list_all (answers k) rs \<Longrightarrow> length s < k \<Longrightarrow> settles (\<lambda>n. match_sor (peg n) rs s)"
  by (induction rs) (auto simp: answers_def intro!: settles_or_else)

lemma answers_inside_sor: "list_all (answers k) rs \<Longrightarrow> answers_inside k (Sor rs)"
  by (simp add: answers_inside_def settles_sor)

lemma answers_inside_opt: "answers k r \<Longrightarrow> answers_inside k (Opt r)"
  by (auto simp: answers_inside_def answers_def intro!: settles_or_else)

lemma answers_inside_if_must:
  assumes "answers k r" "answers k must"
  shows "answers_inside k (IfMust r must)"
  using assms unfolding answers_inside_def match_inside.simps
  by (intro allI impI settles_followed [where k = k])
    (auto simp: answers_def intro!: peg_cuts settles_or_else)

lemma settles_until:
  assumes "answers k r"
  shows "length s < k \<Longrightarrow> settles (\<lambda>n. match_until (peg n) r s)"
  using assms by (induction s) (auto simp: answers_def intro!: settles_or_else)

lemma answers_inside_until: "answers k r \<Longrightarrow> answers_inside k (Until r)"
  by (simp add: answers_inside_def settles_until)

lemmas answering = answersI answers_seq_Nil answers_seq_Cons answers_inside_char answers_inside_star
  answers_inside_plus answers_inside_list answers_inside_seq answers_inside_sor answers_inside_opt
  answers_inside_if_must answers_inside_until

lemmas eating = eatsI eats_inside_char eats_inside_seq eats_inside_sor

text \<open>The rules of the grammar, from the tokens to the query.\<close>

lemma eats_char [simp]: "eats (One c)" "eats (Ranges cs)" "eats Space" "eats Digit"
  by (rule eatsI, simp add: eats_inside_char)+

lemma eats_comma: "eats comma"
  by (auto simp: comma_def eats_inside_char intro!: eatsI eats_inside_seq eats_seq_later [OF eats_seq_first])

lemma answers_token: "answers k (Tok t)"
  by (cases t) (auto intro!: answering)

lemma answers_comma: "answers k comma"
  by (auto simp: comma_def intro!: answering answers_token)

text \<open>An expression occurs again inside one only behind a parenthesis.\<close>

lemma answers_phrases:
  assumes "answers k (Phr RParenthesizedExpression)"
  shows "answers k (Phr p)"
proof -
  have leaf: "answers k (Phr RLiteralExpression)" "answers k (Phr RPropertyAccessExpression)"
    "answers k (Phr RIdentifierExpression)"
    by (auto intro!: answering answers_token)
  have primary: "answers k (Phr RPrimaryExpression)"
    by (rule answersI) (auto simp: assms leaf intro!: answers_inside_sor)
  have comparison: "answers k (Phr RComparisonExpression)" and not: "answers k (Phr RNotExpression)"
    and and_: "answers k (Phr RAndExpression)" and or_: "answers k (Phr ROrExpression)"
    by (rule answersI, simp, intro answers_inside_seq answers_seq_Cons answers_seq_Nil primary answers_token)+
  have logical: "answers k (Phr RLogicalExpression)"
    by (rule answersI) (auto simp: not and_ or_ intro!: answers_inside_sor)
  have "answers k (Phr RExpression)"
    by (rule answersI) (auto simp: logical comparison primary intro!: answers_inside_sor)
  then show ?thesis
    by (cases p) (auto simp: assms primary comparison not and_ or_ logical intro!: answering answers_token)
qed

lemma answers_phrase: "answers k (Phr p)"
proof (induction k arbitrary: p)
  case 0
  show ?case by (simp add: answers_def)
next
  case (Suc k)
  have "answers (Suc k) (Phr RParenthesizedExpression)"
    by (rule answersI) (auto intro!: answers_inside_seq answers_seq_One answers_seq_Cons answers_seq_Nil Suc answers_token
      answersI [of k "One c" for c] simp: answers_inside_char)
  then show ?case by (rule answers_phrases)
qed

lemma answers_tag: "answers k (One c)" "answers k (Str t)"
  by (rule answersI, simp add: answers_inside_char)+

lemma eats_parts: "eats (Tok RLabel)" "eats (Part REdgeType)" "eats (Seq [Part REdgePattern, Part RNodePattern])"
proof -
  have edge: "eats (Part RDirectedEdge)" "eats (Part RUndirectedEdge)" "eats (Part RSimpleUndirectedEdge)"
    by (rule eatsI, simp, intro eats_inside_seq eats_seq_first eats_char)+
  have "eats (Part REdgePattern)" by (rule eatsI) (simp add: eats_inside_sor edge)
  then show "eats (Seq [Part REdgePattern, Part RNodePattern])"
    by (intro eatsI) (simp add: eats_inside_seq eats_seq_first)
  show "eats (Tok RLabel)" "eats (Part REdgeType)"
    by (rule eatsI, simp, intro eats_inside_seq eats_seq_first eats_char)+
qed

lemma answers_part: "answers k (Part p)"
  by (cases p) (auto intro!: answering answers_token answers_comma eats_comma eats_parts)

lemma answers_clause: "answers k (Cla c)"
  by (cases c) (auto intro!: answering answers_token answers_comma eats_comma answers_part answers_phrase)

lemma query_has_outcome: "\<exists>n res. peg n (Cla RQuery) s = Some res"
  using answers_clause [of "Suc (length s)" RQuery] by (auto simp: answers_def settles_def)

text \<open>A parser that does what the library is documented to do, with the least fuel that is enough.\<close>

definition reference_parser :: "string \<Rightarrow> string + tree option" where
  "reference_parser s =
     (case peg (LEAST n. peg n (Cla RQuery) s \<noteq> None) (Cla RQuery) s of
        Some (Matched ts rest) \<Rightarrow> Inr (Some (Tree Root [] ts))
      | Some Fails \<Rightarrow> Inr None
      | _ \<Rightarrow> Inl ''parse error'')"

lemma reference_parser_follows: "follows_grammar reference_parser"
proof -
  have "peg (LEAST n. peg n (Cla RQuery) s \<noteq> None) (Cla RQuery) s = Some res"
    if "peg n (Cla RQuery) s = Some res" for n s res
  proof -
    have "peg (LEAST n. peg n (Cla RQuery) s \<noteq> None) (Cla RQuery) s \<noteq> None"
      using that by (intro LeastI [of "\<lambda>n. peg n (Cla RQuery) s \<noteq> None" n]) simp
    then show ?thesis using peg_unique [OF that] by auto
  qed
  then show ?thesis
    unfolding follows_grammar_def reference_parser_def by (auto split: option.split outcome.split)
qed

end
