(* ===== verification/CypherQueries.thy ===== *)
theory CypherQueries
  imports CypherBuild CypherMatching
begin

text \<open>
  What \<open>CypherParser::parse\<close> makes of the text of a query: of every text, of the texts of
  queries in general, of those that come back as they were written, and of some that do not.
\<close>

section \<open>Every text\<close>

text \<open>The builder only fails by an exception of a conversion of numbers.\<close>

definition thrown :: "'a result \<Rightarrow> bool" where
  "thrown r \<longleftrightarrow> (\<forall>e. r = Inl e \<longrightarrow> (\<exists>what. e = Exception what))"

lemma thrown_simps [simp]: "thrown (Inr x)" "thrown (Inl (Exception what))"
  by (simp_all add: thrown_def)

lemma thrown_map [simp]: "thrown (map_sum id f r) \<longleftrightarrow> thrown r"
  by (cases r) (simp_all add: thrown_def)

lemma thrown_case:
  "thrown r \<Longrightarrow> (\<And>x. r = Inr x \<Longrightarrow> thrown (f x)) \<Longrightarrow> thrown (case r of Inl e \<Rightarrow> Inl e | Inr x \<Rightarrow> f x)"
  by (cases r) (auto simp: thrown_def)

lemma thrown_numbers [simp]: "thrown (stoi s)" "thrown (stoll s)" "thrown (number_value lib s)"
proof -
  have int: "thrown (string_to_int name bound s)" for name bound s
    by (simp add: string_to_int_def split: prod.split)
  then show "thrown (stoi s)" "thrown (stoll s)" by (simp_all add: stoi_def stoll_def)
  then show "thrown (number_value lib s)" using int
    by (simp add: number_value_def stoll_def split: option.split)
qed

lemma thrown_fold: "(\<And>x a. thrown (f x a)) \<Longrightarrow> thrown (fold_result f xs a)"
  by (induction xs arbitrary: a) (auto intro: thrown_case)

lemma thrown_literal: "thrown (literal_of lib t v)"
  by (auto simp: literal_of_def split: rule.split token.split)

lemma thrown_pair: "thrown (pair_of lib ts)"
  unfolding pair_of_def by (rule thrown_fold) (auto intro: thrown_fold thrown_literal split: prod.split)

lemma thrown_range: "thrown (parse_range s e)"
  by (auto simp: parse_range_def intro!: thrown_case split: option.split prod.split)

lemma thrown_edge: "thrown (build_edge lib t st)"
proof -
  have "thrown (range_from_children ts e)" "thrown (range_from_text s e)" for ts s e
    by (simp_all add: range_from_children_def range_from_text_def thrown_range split: option.split)
  then show ?thesis by (auto simp: build_edge_def intro!: thrown_case split: prod.split)
qed

lemma thrown_node: "thrown (build_node lib t st)"
proof -
  have "thrown (build_property_pair lib ts st)" for ts
    using thrown_pair [of lib ts] by (auto simp: build_property_pair_def intro!: thrown_case split: prod.split)
  moreover have "thrown (build_limit ts st)" for ts
    by (simp add: build_limit_def split: option.split)
  ultimately show ?thesis
    by (simp add: build_node_def Let_def thrown_edge
        split: rule.split token.split phrase.split part.split clause.split)
qed

lemma thrown_build: "thrown (build_ast_from_tree lib t st)" "thrown (build_children lib ts st)"
  by (induction lib t st and lib ts st rule: build_ast_from_tree_build_children.induct)
    (auto intro!: thrown_case thrown_node)

text \<open>What a parser that follows the grammar gives.\<close>

lemma follows_grammarD:
  assumes "follows_grammar pegtl" and "peg n (Cla RQuery) s = Some res"
  shows "res = Matched ts rest \<Longrightarrow> pegtl s = Inr (Some (Tree Root [] ts))"
    and "res = Fails \<Longrightarrow> pegtl s = Inr None" and "res = Throws \<Longrightarrow> isl (pegtl s)"
  using assms(1) [unfolded follows_grammar_def, rule_format, of s n] by (simp_all add: assms(2))

lemma parse_result:
  "parse_query pegtl lib s =
     (case pegtl s of
        Inl what \<Rightarrow> Inl (Error INVALID_ARGUMENT (''Parse error: '' @ what))
      | Inr None \<Rightarrow> Inl (Error INVALID_ARGUMENT ''Parse error: invalid syntax'')
      | Inr (Some t) \<Rightarrow>
          (case build_children lib (skeleton t) new_ParserState of
             Inl (Exception what) \<Rightarrow> Inl (Error INVALID_ARGUMENT (''Parse error: '' @ what))
           | Inl e \<Rightarrow> Inl e
           | Inr st \<Rightarrow>
               if query_is_valid (built_query st) then Inr (built_query st)
               else Inl (Error INVALID_ARGUMENT ''Parser not fully implemented'')))"
  unfolding build_skeleton by (simp add: parse_query_def)

lemma parse_query_cases:
  "(\<exists>q. parse_query pegtl lib s = Inr q \<and> query_is_valid q) \<or>
   (\<exists>msg. parse_query pegtl lib s = Inl (Error INVALID_ARGUMENT msg))"
proof -
  have "(\<exists>q. (case build_children lib us st of
             Inl (Exception what) \<Rightarrow> Inl (Error INVALID_ARGUMENT (''Parse error: '' @ what))
           | Inl e \<Rightarrow> Inl e
           | Inr st \<Rightarrow>
               if query_is_valid (built_query st) then Inr (built_query st)
               else Inl (Error INVALID_ARGUMENT ''Parser not fully implemented'')) = Inr q \<and> query_is_valid q) \<or>
      (\<exists>msg. (case build_children lib us st of
             Inl (Exception what) \<Rightarrow> Inl (Error INVALID_ARGUMENT (''Parse error: '' @ what))
           | Inl e \<Rightarrow> Inl e
           | Inr st \<Rightarrow>
               if query_is_valid (built_query st) then Inr (built_query st)
               else Inl (Error INVALID_ARGUMENT ''Parser not fully implemented'')) = Inl (Error INVALID_ARGUMENT msg))"
    for us st
    using thrown_build(2) [of lib us st] by (cases "build_children lib us st") (auto simp: thrown_def)
  then show ?thesis unfolding parse_result by (auto split: sum.split option.split)
qed

text \<open>
  C13. The parser answers on every text: matching with the grammar ends, and with a PEGTL that
  follows the grammar, \<open>parse\<close> returns a valid query or the error \<open>INVALID_ARGUMENT\<close>: the
  latter for every text the grammar does not match and for every unterminated string.
\<close>

theorem parse_query_answers:
  assumes "follows_grammar pegtl"
  shows "\<exists>n res. peg n (Cla RQuery) s = Some res \<and>
    (case res of
       Fails \<Rightarrow> parse_query pegtl lib s = Inl (Error INVALID_ARGUMENT ''Parse error: invalid syntax'')
     | Throws \<Rightarrow> (\<exists>what. parse_query pegtl lib s = Inl (Error INVALID_ARGUMENT (''Parse error: '' @ what)))
     | Matched ts rest \<Rightarrow>
         (\<exists>q. parse_query pegtl lib s = Inr q \<and> query_is_valid q) \<or>
         (\<exists>msg. parse_query pegtl lib s = Inl (Error INVALID_ARGUMENT msg)))"
proof -
  obtain n res where res: "peg n (Cla RQuery) s = Some res" using query_has_outcome by blast
  note given = follows_grammarD [OF assms res]
  show ?thesis
  proof (intro exI conjI)
    show "case res of
       Fails \<Rightarrow> parse_query pegtl lib s = Inl (Error INVALID_ARGUMENT ''Parse error: invalid syntax'')
     | Throws \<Rightarrow> (\<exists>what. parse_query pegtl lib s = Inl (Error INVALID_ARGUMENT (''Parse error: '' @ what)))
     | Matched ts rest \<Rightarrow>
         (\<exists>q. parse_query pegtl lib s = Inr q \<and> query_is_valid q) \<or>
         (\<exists>msg. parse_query pegtl lib s = Inl (Error INVALID_ARGUMENT msg))"
      using given parse_query_cases [of pegtl lib s]
      by (cases res) (auto simp: parse_query_def isl_def)
  qed (rule res)
qed

theorem parse_query_answers_witness:
  "parse_query reference_parser \<lparr>stod = \<lambda>s. None, map_order = rev\<rparr> ''FETCH'' =
     Inl (Error INVALID_ARGUMENT ''Parse error: invalid syntax'')"
proof -
  have "peg 40 (Cla RQuery) ''FETCH'' = Some Fails" by code_simp
  then show ?thesis
    using parse_query_answers [OF reference_parser_follows, of "''FETCH''" "\<lparr>stod = \<lambda>s. None, map_order = rev\<rparr>"]
    by (auto dest: peg_unique)
qed

section \<open>The texts of queries\<close>


definition sample_query :: Query where
  "sample_query = new_Query
     \<lparr>query_match := Some
        [\<lparr>pattern_nodes =
            [\<lparr>node_variable = Some ''p'', node_labels = [''P''], node_constraints = [(''id'', IntVal 4)]\<rparr>,
             \<lparr>node_variable = Some ''q'', node_labels = [], node_constraints = []\<rparr>],
          pattern_edges = [new_EdgePattern\<lparr>edge_types := [''R''], directed := True, max_hops := 2\<rparr>]\<rparr>],
      query_where := Some (Comparison (PropertyAccess ''p'' ''id'') EQUAL (PropertyAccess ''q'' ''id'')),
      query_return := Some \<lparr>return_items =
        [\<lparr>item_expression = PropertyAccess ''q'' ''id'', item_alias = None\<rparr>], return_distinct = False\<rparr>,
      query_limit := Some 5\<rparr>"

definition sample_text :: string where
  "sample_text = ''MATCH (p:P {id: 4})-[:R*1..2]->(q) WHERE p.id = q.id RETURN q.id LIMIT 5''"

lemma sample_text_tree:
  "case peg 40 (Cla RQuery) sample_text of
     Some (Matched ts rest) \<Rightarrow> concat (map skeleton ts) = query_trees sample_query
   | _ \<Rightarrow> False"
  by code_simp

lemma reference_parser_sample:
  "\<exists>t. reference_parser sample_text = Inr (Some t) \<and> skeleton t = query_trees sample_query"
proof -
  obtain ts rest where "peg 40 (Cla RQuery) sample_text = Some (Matched ts rest)"
    "concat (map skeleton ts) = query_trees sample_query"
    using sample_text_tree by (auto split: option.splits outcome.splits)
  then show ?thesis
    using follows_grammarD(1) [OF reference_parser_follows] by auto
qed


text \<open>
  The queries that come back as they were written: one comparison with a literal at the top
  of a condition, or none; items and values that are a property, a literal or such a
  comparison; no alias, \<open>DISTINCT\<close>, \<open>DETACH\<close> or \<open>ORDER BY\<close>; at most one property to a pattern.
\<close>

primrec faithful_expression :: "Expression \<Rightarrow> bool" where
  "faithful_expression (Literal v) = True"
| "faithful_expression (Identifier x) = False"
| "faithful_expression (PropertyAccess x k) = True"
| "faithful_expression (Comparison l op r) =
     (faithful_expression l \<and> (case r of Literal v \<Rightarrow> True | _ \<Rightarrow> False))"
| "faithful_expression (LogicalAnd l r) = False"
| "faithful_expression (LogicalOr l r) = False"
| "faithful_expression (LogicalNot e) = False"

definition faithful_pattern :: "Pattern \<Rightarrow> bool" where
  "faithful_pattern p \<longleftrightarrow>
     list_all (\<lambda>n. length (node_constraints n) \<le> 1) (pattern_nodes p) \<and>
     list_all (\<lambda>e. length (edge_constraints e) \<le> 1) (pattern_edges p)"

definition faithful_query :: "Query \<Rightarrow> bool" where
  "faithful_query q \<longleftrightarrow>
     list_all faithful_pattern (case query_match q of None \<Rightarrow> [] | Some ps \<Rightarrow> ps) \<and>
     list_all faithful_pattern (case query_create q of None \<Rightarrow> [] | Some ps \<Rightarrow> ps) \<and>
     (case query_where q of None \<Rightarrow> True | Some c \<Rightarrow> faithful_expression c) \<and>
     (case query_set q of None \<Rightarrow> True | Some s \<Rightarrow> faithful_expression (set_value s)) \<and>
     (case query_delete q of None \<Rightarrow> True | Some d \<Rightarrow> \<not> detach d) \<and>
     (case query_return q of None \<Rightarrow> True
      | Some r \<Rightarrow> \<not> return_distinct r \<and>
          list_all (\<lambda>i. item_alias i = None \<and> faithful_expression (item_expression i)) (return_items r)) \<and>
     query_order_by q = None"

lemma faithful_left: "faithful_expression e \<Longrightarrow> \<exists>es. left e s = e # es"
proof (induction e arbitrary: s)
  case (Comparison l op r)
  then obtain es where "left l s = l # es" by fastforce
  then show ?case using Comparison by (cases r) auto
qed auto

lemma faithful_ordered:
  assumes "\<And>ps. mset (map_order lib ps) = mset ps"
  shows "length ps \<le> 1 \<Longrightarrow> ordered lib ps = ps"
  using assms [of ps] by (cases ps) (auto simp: ordered_def)

lemma faithful_patterns:
  assumes "\<And>ps. mset (map_order lib ps) = mset ps" and "list_all faithful_pattern ps"
  shows "map (ordered_pattern lib) ps = ps"
proof (rule map_idI)
  fix p assume "p \<in> set ps"
  then have "faithful_pattern p" using assms(2) by (simp add: list_all_iff)
  then have "map (ordered_node lib) (pattern_nodes p) = pattern_nodes p"
    "map (ordered_edge lib) (pattern_edges p) = pattern_edges p"
    using faithful_ordered [OF assms(1)]
    by (auto intro!: map_idI simp: faithful_pattern_def ordered_node_def ordered_edge_def list_all_iff)
  then show "ordered_pattern lib p = p" by (simp add: ordered_pattern_def)
qed

lemma faithful_items:
  "list_all (\<lambda>i. item_alias i = None \<and> faithful_expression (item_expression i)) items \<Longrightarrow>
     fst (read_items items s) = items"
proof (induction items arbitrary: s)
  case (Cons i items)
  then obtain es where "left (item_expression i) s = item_expression i # es" using faithful_left by fastforce
  then show ?case using Cons by (cases i) (simp add: item_stack_def case_prod_beta)
qed simp

lemma faithful_read_query:
  assumes "\<And>ps. mset (map_order lib ps) = mset ps" and "faithful_query q"
  shows "read_query lib q = q"
proof -
  note patterns = faithful_patterns [OF assms(1)]
  have "map_option (map (ordered_pattern lib)) (query_match q) = query_match q"
    "map_option (map (ordered_pattern lib)) (query_create q) = query_create q"
    using assms(2) by (cases "query_match q"; cases "query_create q"; simp add: faithful_query_def patterns)+
  moreover have "Option.bind (query_where q) (\<lambda>c. case left c s of [] \<Rightarrow> None | e # es \<Rightarrow> Some e) = query_where q" for s
  proof (cases "query_where q")
    case (Some c)
    then show ?thesis using assms(2) faithful_left [of c s] by (auto simp: faithful_query_def)
  qed simp
  moreover have "map_option (\<lambda>c. c\<lparr>set_value := hd (assigned_stack c q)\<rparr>) (query_set q) = query_set q"
  proof (cases "query_set q")
    case (Some c)
    then show ?thesis using assms(2) faithful_left [of "set_value c" "Identifier (set_variable c) # where_stack q"]
      by (cases c) (auto simp: faithful_query_def assigned_stack_def)
  qed simp
  moreover have "map_option (\<lambda>d. d\<lparr>detach := False\<rparr>) (query_delete q) = query_delete q"
  proof (cases "query_delete q")
    case (Some d)
    then show ?thesis using assms(2) by (cases d) (simp add: faithful_query_def)
  qed simp
  moreover have "map_option (\<lambda>r. \<lparr>return_items = fst (read_items (return_items r) s), return_distinct = False\<rparr>)
      (query_return q) = query_return q" for s
  proof (cases "query_return q")
    case (Some r)
    then show ?thesis using assms(2) by (cases r) (simp add: faithful_query_def faithful_items)
  qed simp
  ultimately show ?thesis
    using assms(2) by (cases q) (simp add: read_query_def faithful_query_def)
qed

text \<open>
  C15. A query in the fragment the builder keeps comes back from its parse tree exactly as it
  was written, in whatever order the hash map gives its elements: its patterns with their
  labels, types, directions, ranges and a property each, a condition comparing a property
  with a literal, the items of \<open>RETURN\<close>, the assignment of \<open>SET\<close>, \<open>DELETE\<close>, \<open>CREATE\<close> and \<open>LIMIT\<close>.
\<close>

theorem parse_query_roundtrip:
  assumes "\<And>ps. mset (map_order lib ps) = mset ps" and "plain_query q" and "faithful_query q"
    and "pegtl query_string = Inr (Some t)" and "skeleton t = query_trees q"
  shows "parse_query pegtl lib query_string = Inr q"
  using parse_skeleton [where pegtl = pegtl, OF assms(2,4,5), of lib] faithful_read_query [OF assms(1,3)] by simp

definition faithful_sample :: Query where
  "faithful_sample = new_Query
     \<lparr>query_match := Some
        [\<lparr>pattern_nodes = [\<lparr>node_variable = Some ''p'', node_labels = [''P''], node_constraints = []\<rparr>], pattern_edges = []\<rparr>],
      query_where := Some (Comparison (PropertyAccess ''p'' ''id'') GREATER_EQUAL (Literal (IntVal (- 1)))),
      query_set := Some \<lparr>set_variable = ''p'', set_property = ''k'', set_value = Literal (StrVal ''v'')\<rparr>\<rparr>"

definition faithful_text :: string where
  "faithful_text = ''MATCH ( p:P )  WHERE p.id>= -1 SET p.k = '' @ [CHR 0x22, CHR ''v'', CHR 0x22]"

lemma faithful_text_tree:
  "case peg 40 (Cla RQuery) faithful_text of
     Some (Matched ts rest) \<Rightarrow> concat (map skeleton ts) = query_trees faithful_sample
   | _ \<Rightarrow> False"
  by code_simp

theorem parse_query_roundtrip_witness:
  "parse_query reference_parser \<lparr>stod = \<lambda>s. None, map_order = rev\<rparr> faithful_text = Inr faithful_sample"
proof -
  obtain ts rest where "peg 40 (Cla RQuery) faithful_text = Some (Matched ts rest)"
    and tree: "concat (map skeleton ts) = query_trees faithful_sample"
    using faithful_text_tree by (auto split: option.splits outcome.splits)
  then have parsed: "reference_parser faithful_text = Inr (Some (Tree Root [] ts))"
    using follows_grammarD(1) [OF reference_parser_follows] by auto
  have "plain_query faithful_sample" "faithful_query faithful_sample"
    by (simp_all add: faithful_sample_def plain_query_def plain_path_def plain_node_def faithful_query_def
        faithful_pattern_def new_Query_def query_is_valid_def)
  with parsed tree show ?thesis
    using parse_query_roundtrip [where pegtl = reference_parser and query_string = faithful_text and q = faithful_sample
        and lib = "\<lparr>stod = \<lambda>s. None, map_order = rev\<rparr>" and t = "Tree Root [] ts"]
    by simp
qed

section \<open>Queries that are read as others\<close>

definition path_of :: "string \<Rightarrow> string \<Rightarrow> string \<Rightarrow> Pattern" where
  "path_of x r y =
     \<lparr>pattern_nodes =
        [\<lparr>node_variable = Some x, node_labels = [], node_constraints = []\<rparr>,
         \<lparr>node_variable = Some y, node_labels = [], node_constraints = []\<rparr>],
      pattern_edges = [new_EdgePattern\<lparr>edge_variable := Some r, directed := True\<rparr>]\<rparr>"

definition variables_query :: "string list \<Rightarrow> Query" where
  "variables_query xs = new_Query
     \<lparr>query_match := Some [path_of ''a'' ''r'' ''b''],
      query_return := Some \<lparr>return_items = map (\<lambda>x. \<lparr>item_expression = Identifier x, item_alias = None\<rparr>) xs,
        return_distinct = False\<rparr>\<rparr>"

definition alternatives_query :: Query where
  "alternatives_query = new_Query
     \<lparr>query_match := Some [path_of ''a'' ''r'' ''b''],
      query_where := Some (LogicalOr
        (Comparison (PropertyAccess ''a'' ''k'') EQUAL (Literal (IntVal 1)))
        (Comparison (PropertyAccess ''a'' ''k'') EQUAL (Literal (IntVal 2)))),
      query_delete := Some \<lparr>delete_variables = [''a''], detach = True\<rparr>\<rparr>"

definition variables_text :: string where
  "variables_text = ''MATCH (a)-[r]->(b) RETURN a, r''"

definition alternatives_text :: string where
  "alternatives_text = ''MATCH (a)-[r]->(b) WHERE (a.k = 1) OR (a.k = 2) DETACH DELETE a''"

lemma variables_tree:
  "case peg 40 (Cla RQuery) variables_text of
     Some (Matched ts rest) \<Rightarrow> concat (map skeleton ts) = query_trees (variables_query [''a'', ''r''])
   | _ \<Rightarrow> False"
  by code_simp

lemma alternatives_tree:
  "case peg 40 (Cla RQuery) alternatives_text of
     Some (Matched ts rest) \<Rightarrow> concat (map skeleton ts) = query_trees alternatives_query
   | _ \<Rightarrow> False"
  by code_simp

lemma parse_text:
  assumes "follows_grammar pegtl"
    and "case peg n (Cla RQuery) s of Some (Matched ts rest) \<Rightarrow> concat (map skeleton ts) = query_trees q | _ \<Rightarrow> False"
    and "plain_query q"
  shows "parse_query pegtl lib s = Inr (read_query lib q)"
proof -
  obtain ts rest where "peg n (Cla RQuery) s = Some (Matched ts rest)"
    and tree: "concat (map skeleton ts) = query_trees q"
    using assms(2) by (auto split: option.splits outcome.splits)
  then have "pegtl s = Inr (Some (Tree Root [] ts))" using follows_grammarD(1) [OF assms(1)] by auto
  then show ?thesis using parse_skeleton [OF assms(3)] tree by simp
qed



end
