(* ===== verification/Repl.thy ===== *)
theory Repl
  imports CypherExecutor CypherParser
begin

text \<open>
  \<open>cli/repl.h\<close> and \<open>cli/repl.cpp\<close>: the commands of the shell. What is printed is a list of
  lines of the state; the banner, the help and the prompt the loop starts with and the terminal
  are left out. A command that does not return is \<open>None\<close>.
\<close>

section \<open>State\<close>

text \<open>The graph store is shared with the executor of Cypher queries and kept there.\<close>

record REPL =
  repl_cypher :: CypherExecutor
  repl_index :: SimpleIndexManager
  repl_queries :: QueryExecutor
  running :: bool
  printed :: "string list"

text \<open>What the commands take from outside: \<open>std::hash\<close>, the clock, the parser, \<open>std::sort\<close>.\<close>

record environment =
  env_hash :: "string \<Rightarrow> u64"
  env_now :: u64
  env_parse :: "string \<Rightarrow> Query result"
  env_sort :: row_sort

definition new_REPL :: "FilePageStore \<Rightarrow> REPL" where
  "new_REPL ps =
     (let gs = new_GraphStore ps None None
      in \<lparr>repl_cypher = \<lparr>cypher_graph = gs, own_mvcc = new_MVCCManager new_TransactionManager\<rparr>,
          repl_index = new_SimpleIndexManager, repl_queries = new_QueryExecutor gs, running = True, printed = []\<rparr>)"

definition repl_graph :: "REPL \<Rightarrow> GraphStore" where
  "repl_graph r = cypher_graph (repl_cypher r)"

definition set_graph :: "GraphStore \<Rightarrow> REPL \<Rightarrow> REPL" where
  "set_graph gs r = r\<lparr>repl_cypher := (repl_cypher r)\<lparr>cypher_graph := gs\<rparr>\<rparr>"

definition say :: "string \<Rightarrow> REPL \<Rightarrow> REPL" where
  "say line r = r\<lparr>printed := printed r @ [line]\<rparr>"

type_synonym command = "string \<Rightarrow> REPL \<Rightarrow> (unit result \<times> REPL) option"

definition said :: "string \<Rightarrow> REPL \<Rightarrow> (unit result \<times> REPL) option" where
  "said line r = Some (Inr (), say line r)"

section \<open>Reading the line\<close>

text \<open>The words of a line (\<open>iss >> token\<close>).\<close>

function tokenize :: "string \<Rightarrow> string list" where
  "tokenize s =
     (case dropWhile is_space s of
        [] \<Rightarrow> []
      | c # cs \<Rightarrow> (c # takeWhile (\<lambda>d. \<not> is_space d) cs) # tokenize (dropWhile (\<lambda>d. \<not> is_space d) cs))"
  by pat_completeness auto

termination
proof (relation "measure length", goal_cases)
  case (2 s c cs)
  have "length (dropWhile (\<lambda>d. \<not> is_space d) cs) < length (dropWhile is_space s)"
    using 2 length_dropWhile_le [of "\<lambda>d. \<not> is_space d" cs] by simp
  then show ?case using length_dropWhile_le [of is_space s] by simp
qed simp

declare tokenize.simps [simp del]

text \<open>\<open>std::getline\<close> with a comma: a comma at the end starts no further piece.\<close>

fun pieces :: "string \<Rightarrow> string \<Rightarrow> string list" where
  "pieces piece [] = (if piece = [] then [] else [piece])"
| "pieces piece (c # cs) = (if c = CHR '','' then piece # pieces [] cs else pieces (piece @ [c]) cs)"

definition trim :: "string \<Rightarrow> string" where
  "trim s = rev (dropWhile is_space (rev (dropWhile is_space s)))"

definition parse_property :: "string \<Rightarrow> Property list" where
  "parse_property piece =
     (case split_at ''='' piece of
        None \<Rightarrow> []
      | Some (k, v) \<Rightarrow> [\<lparr>prop_key = trim k, prop_value = StringV (trim v)\<rparr>])"

definition parse_properties :: "string \<Rightarrow> Property list" where
  "parse_properties props_str = concat (map parse_property (pieces [] props_str))"

text \<open>\<open>std::stoull\<close>: a minus sign negates the word.\<close>

definition stoull :: "string \<Rightarrow> u64 result" where
  "stoull s =
     (let s = dropWhile is_space s;
          (neg, s) = (case s of [] \<Rightarrow> (False, s)
            | c # cs \<Rightarrow> if c = CHR ''-'' then (True, cs) else if c = CHR ''+'' then (False, cs) else (False, s));
          ds = takeWhile is_digit s;
          n = digits_value ds
      in if ds = [] \<or> 2 ^ 64 \<le> n then Inl (Exception ''stoull'')
         else Inr (if neg then - word_of_nat n else word_of_nat n))"

text \<open>The line from the first occurrence of a word on.\<close>

definition from_word :: "string \<Rightarrow> string \<Rightarrow> string result" where
  "from_word word s =
     (case split_at word s of None \<Rightarrow> Inl (Exception ''basic_string::substr'') | Some (_, rest) \<Rightarrow> Inr (word @ rest))"

section \<open>Tables\<close>

text \<open>A character of the box, in UTF-8.\<close>

definition box :: "char \<Rightarrow> string" where
  "box c = [CHR 0xE2, CHR 0x94, c]"

definition column_width :: "QueryResult \<Rightarrow> nat \<Rightarrow> nat" where
  "column_width q i =
     foldl (\<lambda>w row. if i < length row then max w (length (row ! i)) else w) (length (columns q ! i)) (rows q)"

definition column_widths :: "QueryResult \<Rightarrow> nat list" where
  "column_widths q = map (column_width q) [0..<length (columns q)]"

definition rule_line :: "char \<Rightarrow> char \<Rightarrow> char \<Rightarrow> nat list \<Rightarrow> string" where
  "rule_line start sep stop widths =
     box start @ join (box sep) (map (\<lambda>w. replicate (w + 2) (CHR ''-'')) widths) @ box stop"

text \<open>\<open>std::left << std::setw\<close>.\<close>

definition cell :: "nat \<Rightarrow> string \<Rightarrow> string" where
  "cell w s = '' '' @ s @ replicate (w - length s) (CHR '' '') @ '' ''"

definition table_line :: "nat list \<Rightarrow> string list \<Rightarrow> string" where
  "table_line widths row =
     box (CHR 0x82) @
     join (box (CHR 0x82))
       (map (\<lambda>i. cell (widths ! i) (if i < length row then row ! i else [])) [0..<length widths]) @
     box (CHR 0x82)"

definition query_result_lines :: "QueryResult \<Rightarrow> string list" where
  "query_result_lines q =
     (if rows q = [] then [''No results found.'']
      else
        let widths = column_widths q
        in [rule_line (CHR 0x8C) (CHR 0xAC) (CHR 0x90) widths, table_line widths (columns q),
            rule_line (CHR 0x9C) (CHR 0xBC) (CHR 0xA4) widths] @
           map (table_line widths) (rows q) @
           [rule_line (CHR 0x94) (CHR 0xB4) (CHR 0x98) widths,
            ''('' @ nat_string (length (rows q)) @ '' rows)''])"

definition print_query_result :: "QueryResult \<Rightarrow> REPL \<Rightarrow> REPL" where
  "print_query_result q r = r\<lparr>printed := printed r @ query_result_lines q\<rparr>"

text \<open>A result is printed, an error with its message; anything else goes on to the caller.\<close>

definition report :: "string \<Rightarrow> QueryResult result \<Rightarrow> REPL \<Rightarrow> unit result \<times> REPL" where
  "report failure res r =
     (case res of
        Inr q \<Rightarrow> (Inr (), print_query_result q r)
      | Inl (Error code msg) \<Rightarrow> (Inr (), say (failure @ msg) r)
      | Inl e \<Rightarrow> (Inl e, r))"

text \<open>\<open>catch (const std::exception& e)\<close>.\<close>

definition catching :: "string \<Rightarrow> unit result \<times> REPL \<Rightarrow> unit result \<times> REPL" where
  "catching line x =
     (case x of
        (Inl (Exception what), r) \<Rightarrow> (Inr (), say line r)
      | _ \<Rightarrow> x)"

definition with_id :: "string \<Rightarrow> REPL \<Rightarrow> (u64 \<Rightarrow> unit result \<times> REPL) \<Rightarrow> unit result \<times> REPL" where
  "with_id s r f = (case stoull s of Inl e \<Rightarrow> (Inl e, r) | Inr n \<Rightarrow> f n)"

section \<open>Creating\<close>

definition index_properties ::
  "(string \<Rightarrow> string \<Rightarrow> SimpleIndexManager \<Rightarrow> SimpleIndexManager) \<Rightarrow> Property list \<Rightarrow>
     SimpleIndexManager \<Rightarrow> SimpleIndexManager" where
  "index_properties index properties im =
     foldl (\<lambda>im p. case prop_value p of StringV s \<Rightarrow> index (prop_key p) s im | _ \<Rightarrow> im) im properties"

definition cmd_create_node :: command where
  "cmd_create_node args r =
     (if args = [] then said ''Usage: create-node <properties>'' r
      else
        let properties = parse_properties args
        in case create_node properties (repl_graph r) of
             (Inr n, gs) \<Rightarrow>
               Some (Inr (), say (''Created node with ID: '' @ u64_string n) (set_graph gs r)
                 \<lparr>repl_index := index_properties (index_node_property n) properties (repl_index r)\<rparr>)
           | (Inl (Error code msg), gs) \<Rightarrow> said (''Failed to create node: '' @ msg) (set_graph gs r)
           | (Inl e, gs) \<Rightarrow> Some (Inl e, set_graph gs r))"

definition new_edge :: "environment \<Rightarrow> u64 \<Rightarrow> u64 \<Rightarrow> string \<Rightarrow> Property list \<Rightarrow> REPL \<Rightarrow> unit result \<times> REPL" where
  "new_edge env from to label properties r =
     (case create_edge (env_hash env) (env_now env) from to label properties (repl_graph r) of
        (Inr e, gs) \<Rightarrow>
          (Inr (), say (''Created edge with ID: '' @ u64_string e) (set_graph gs r)
             \<lparr>repl_index := index_properties (index_edge_property e) properties
                (add_edge_to_adjacency from to e (repl_index r))\<rparr>)
      | (Inl (Error code msg), gs) \<Rightarrow> (Inr (), say (''Failed to create edge: '' @ msg) (set_graph gs r))
      | (Inl e, gs) \<Rightarrow> (Inl e, set_graph gs r))"

definition cmd_create_edge :: "environment \<Rightarrow> command" where
  "cmd_create_edge env args r =
     (let tokens = tokenize args
      in if length tokens < 3 then said ''Usage: create-edge <from> <to> <label> [properties]'' r
         else
           Some (catching ''Invalid node ID format''
             (with_id (tokens ! 0) r (\<lambda>from.
               with_id (tokens ! 1) r (\<lambda>to.
                 case (if 3 < length tokens then map_sum id parse_properties (from_word (tokens ! 3) args)
                       else Inr []) of
                   Inl e \<Rightarrow> (Inl e, r)
                 | Inr properties \<Rightarrow> new_edge env from to (tokens ! 2) properties r)))))"

section \<open>Queries\<close>

definition reported ::
  "string \<Rightarrow> QueryResult result \<times> GraphStore \<Rightarrow> REPL \<Rightarrow> unit result \<times> REPL" where
  "reported failure x r = (case x of (res, gs) \<Rightarrow> report failure res (set_graph gs r))"

definition cmd_get_node :: command where
  "cmd_get_node args r =
     (if args = [] then said ''Usage: get-node <id>'' r
      else
        Some (catching ''Invalid node ID format''
          (with_id args r (\<lambda>n. reported ''Node not found: '' (get_node_by_id (repl_queries r) n (repl_graph r)) r))))"

definition cmd_get_edge :: command where
  "cmd_get_edge args r =
     (if args = [] then said ''Usage: get-edge <id>'' r
      else
        Some (catching ''Invalid edge ID format''
          (with_id args r (\<lambda>e. reported ''Edge not found: '' (get_edge_by_id (repl_queries r) e (repl_graph r)) r))))"

definition cmd_find_nodes :: command where
  "cmd_find_nodes args r =
     (let tokens = tokenize args
      in if length tokens < 2 then said ''Usage: find-nodes <key> <value>'' r
         else
           Some (reported ''Failed to find nodes: ''
             (get_nodes_by_property (tokens ! 0) (tokens ! 1) (repl_index r) (repl_graph r)) r))"

definition cmd_find_edges :: command where
  "cmd_find_edges args r =
     (let tokens = tokenize args
      in if length tokens < 2 then said ''Usage: find-edges <key> <value>'' r
         else
           Some (reported ''Failed to find edges: ''
             (get_edges_by_property (tokens ! 0) (tokens ! 1) (repl_index r) (repl_graph r)) r))"

definition cmd_adjacent :: command where
  "cmd_adjacent args r =
     (if args = [] then said ''Usage: adjacent <id>'' r
      else
        Some (catching ''Invalid node ID format''
          (with_id args r
             (\<lambda>n. reported ''Failed to get adjacent nodes: '' (query_adjacent_nodes n (repl_graph r)) r))))"

definition cmd_path :: command where
  "cmd_path args r =
     (let tokens = tokenize args
      in if length tokens < 2 then said ''Usage: path <from> <to>'' r
         else
           (case (stoull (tokens ! 0), stoull (tokens ! 1)) of
              (Inr from, Inr to) \<Rightarrow>
                map_option (\<lambda>x. catching ''Invalid node ID format'' (reported ''Failed to find path: '' x r))
                  (find_shortest_path from to (repl_graph r))
            | _ \<Rightarrow> said ''Invalid node ID format'' r))"

definition cmd_count :: command where
  "cmd_count args r =
     (case (count_nodes (repl_graph r), count_edges (repl_graph r)) of
        (Inr ns, Inr es) \<Rightarrow>
          said (''Edges: '' @ rows es ! 0 ! 0) (say (''Nodes: '' @ rows ns ! 0 ! 0) r)
      | _ \<Rightarrow> said ''Failed to get count statistics'' r)"

definition cmd_stats :: command where
  "cmd_stats args r = Some (report ''Failed to get statistics: '' (get_node_degree_stats (repl_graph r)) r)"

definition cmd_backlinks :: command where
  "cmd_backlinks args r =
     (if args = [] then said ''Usage: backlinks <id>'' r
      else
        Some (catching ''Invalid node ID format''
          (with_id args r (\<lambda>n. report ''Failed to get backlinks: '' (get_document_backlinks n (repl_graph r)) r))))"

definition cmd_outlinks :: command where
  "cmd_outlinks args r =
     (if args = [] then said ''Usage: outlinks <id>'' r
      else
        Some (catching ''Invalid node ID format''
          (with_id args r (\<lambda>n. report ''Failed to get outlinks: '' (get_document_outlinks n (repl_graph r)) r))))"

definition cmd_related :: command where
  "cmd_related args r =
     (let tokens = tokenize args
      in if tokens = [] then said ''Usage: related <id> [limit]'' r
         else
           Some (catching ''Invalid node ID format''
             (with_id (tokens ! 0) r (\<lambda>n.
               case (if 1 < length tokens then stoull (tokens ! 1) else Inr 10) of
                 Inl e \<Rightarrow> (Inl e, r)
               | Inr limit \<Rightarrow>
                   reported ''Failed to find related documents: '' (find_related_documents n limit (repl_graph r)) r))))"

definition cmd_suggest :: command where
  "cmd_suggest args r =
     (let tokens = tokenize args
      in if length tokens < 2 then said ''Usage: suggest <id> <content>'' r
         else
           Some (catching ''Invalid node ID format''
             (with_id (tokens ! 0) r (\<lambda>n.
               case from_word (tokens ! 1) args of
                 Inl e \<Rightarrow> (Inl e, r)
               | Inr content \<Rightarrow>
                   reported ''Failed to suggest links: '' (suggest_links_for_document n content (repl_graph r)) r))))"

definition cmd_cypher :: "environment \<Rightarrow> command" where
  "cmd_cypher env args r =
     (if args = [] then said ''Usage: cypher <query>'' r
      else
        map_option (\<lambda>(res, cx). report ''Query failed: '' res (r\<lparr>repl_cypher := cx\<rparr>))
          (execute_query_text (env_parse env) (env_sort env) args (repl_cypher r)))"

section \<open>The loop\<close>

definition help_lines :: "string list" where
  "help_lines =
     [''Available commands:'',
      ''  create-node <properties>       - Create a new node'',
      ''  create-edge <from> <to> <label> <properties> - Create a new edge'',
      ''  get-node <id>                  - Get node by ID'',
      ''  get-edge <id>                  - Get edge by ID'',
      ''  find-nodes <key> <value>       - Find nodes by property'',
      ''  find-edges <key> <value>       - Find edges by property'',
      ''  adjacent <id>                  - Get adjacent nodes'',
      ''  path <from> <to>               - Find shortest path'',
      ''  count                          - Count nodes and edges'',
      ''  stats                          - Get database statistics'',
      ''  backlinks <id>                 - Get document backlinks'',
      ''  outlinks <id>                  - Get document outlinks'',
      ''  related <id> [limit]           - Find related documents'',
      ''  suggest <id> <content>         - Suggest links for document'',
      ''  cypher <query>                 - Execute a Cypher query'',
      ''  clear                          - Clear the screen'',
      ''  help                           - Show this help'',
      ''  exit                           - Exit the program'',
      [],
      ''Properties format: key1=value1,key2=value2'']"

definition cmd_help :: command where
  "cmd_help args r = Some (Inr (), r\<lparr>printed := printed r @ help_lines\<rparr>)"

definition cmd_exit :: command where
  "cmd_exit args r = said ''Goodbye!'' (r\<lparr>running := False\<rparr>)"

text \<open>\<open>command.substr(command.find(' ') + 1)\<close>: the whole line where there is no blank.\<close>

definition arguments :: "string \<Rightarrow> string" where
  "arguments line = (case split_at '' '' line of None \<Rightarrow> line | Some (_, rest) \<Rightarrow> rest)"

definition process_command :: "environment \<Rightarrow> command" where
  "process_command env line r =
     (case tokenize line of
        [] \<Rightarrow> Some (Inr (), r)
      | cmd # tokens \<Rightarrow>
          let args = (if tokens = [] then [] else arguments line)
          in if cmd = ''create-node'' then cmd_create_node args r
             else if cmd = ''create-edge'' then cmd_create_edge env args r
             else if cmd = ''get-node'' then cmd_get_node args r
             else if cmd = ''get-edge'' then cmd_get_edge args r
             else if cmd = ''find-nodes'' then cmd_find_nodes args r
             else if cmd = ''find-edges'' then cmd_find_edges args r
             else if cmd = ''adjacent'' then cmd_adjacent args r
             else if cmd = ''path'' then cmd_path args r
             else if cmd = ''count'' then cmd_count args r
             else if cmd = ''stats'' then cmd_stats args r
             else if cmd = ''backlinks'' then cmd_backlinks args r
             else if cmd = ''outlinks'' then cmd_outlinks args r
             else if cmd = ''related'' then cmd_related args r
             else if cmd = ''suggest'' then cmd_suggest args r
             else if cmd = ''cypher'' then cmd_cypher env args r
             else if cmd = ''clear'' then said [CHR 0x1B, CHR ''c''] r
             else if cmd = ''help'' then cmd_help args r
             else if cmd = ''exit'' \<or> cmd = ''quit'' then cmd_exit args r
             else said (''Type '' @ [CHR 0x27] @ ''help'' @ [CHR 0x27] @ '' for available commands.'') (say (''Unknown command: '' @ cmd) r))"

text \<open>The loop over the lines of the input; a backslash at the end of one joins the next to it.\<close>

fun run :: "(nat \<Rightarrow> environment) \<Rightarrow> string list \<Rightarrow> string \<Rightarrow> REPL \<Rightarrow> (unit result \<times> REPL) option" where
  "run env [] buffer r = Some (Inr (), r)"
| "run env (line # input) buffer r =
     (if \<not> running r then Some (Inr (), r)
      else if line \<noteq> [] \<and> last line = CHR 0x5C
      then run env input (buffer @ butlast line @ [CHR 0x0A]) r
      else if buffer @ line = [] then run env input [] r
      else
        (case process_command (env (length input)) (buffer @ line) r of
           None \<Rightarrow> None
         | Some (Inr _, r) \<Rightarrow> run env input [] r
         | Some (Inl (Exception what), r) \<Rightarrow> run env input [] (say (''Error: '' @ what) r)
         | Some (Inl e, r) \<Rightarrow> Some (Inl e, r)))"

end
