(* ===== verification/ReplText.thy ===== *)
theory ReplText
  imports Repl QueryResults
begin

text \<open>
  What the shell reads from a line: the properties of a pair \<open>k=v\<close>, and the sizes that make
  the properties of a line of at most \<open>LINE_LIMIT\<close> characters fit the page of a record.
\<close>

section \<open>Trimming and splitting\<close>

definition trimmed :: "string \<Rightarrow> bool" where
  "trimmed s \<longleftrightarrow> s = [] \<or> \<not> is_space (hd s) \<and> \<not> is_space (last s)"

lemma dropWhile_hd: "s \<noteq> [] \<Longrightarrow> \<not> P (hd s) \<Longrightarrow> dropWhile P s = s"
  by (cases s) auto

lemma trim_trimmed: "trimmed s \<Longrightarrow> trim s = s"
  by (cases "s = []") (auto simp: trim_def trimmed_def dropWhile_hd hd_rev)

lemma length_trim: "length (trim s) \<le> length s"
  using length_dropWhile_le [of is_space s] length_dropWhile_le [of is_space "rev (dropWhile is_space s)"]
  by (simp add: trim_def)

lemma split_at_char: "c \<notin> set k \<Longrightarrow> split_at [c] (k @ c # v) = Some (k, v)"
  by (induction k) auto

lemma split_at_size: "split_at sep s = Some (a, b) \<Longrightarrow> length a + length sep + length b = length s"
proof (induction s arbitrary: a)
  case (Cons c cs)
  show ?case
  proof (cases "take (length sep) (c # cs) = sep")
    case True
    then have "length sep \<le> length (c # cs)" using length_take [of "length sep" "c # cs"] by auto
    then show ?thesis using Cons.prems True by auto
  next
    case False
    then show ?thesis using Cons by (auto split: option.splits)
  qed
qed (auto split: if_splits)

lemma pieces_last: "CHR '','' \<notin> set s \<Longrightarrow> pieces acc s = (if acc @ s = [] then [] else [acc @ s])"
  by (induction s arbitrary: acc) auto

lemma pieces_more: "CHR '','' \<notin> set s \<Longrightarrow> pieces acc (s @ CHR '','' # rest) = (acc @ s) # pieces [] rest"
  by (induction s arbitrary: acc) auto

lemma pieces_join:
  assumes "\<forall>s \<in> set ss. s \<noteq> [] \<and> CHR '','' \<notin> set s"
  shows "pieces [] (join '','' ss) = ss"
  using assms
proof (induction "'','' :: string" ss rule: join.induct)
  case (3 s t ss)
  then show ?case using pieces_more [of s "[]"] by simp
qed (auto simp: pieces_last)

section \<open>The properties of a line\<close>

definition pair_text :: "string \<times> string \<Rightarrow> string" where
  "pair_text kv = (case kv of (k, v) \<Rightarrow> k @ ''='' @ v)"

definition pair_property :: "string \<times> string \<Rightarrow> Property" where
  "pair_property kv = (case kv of (k, v) \<Rightarrow> \<lparr>prop_key = k, prop_value = StringV v\<rparr>)"

text \<open>Keys without equals sign, no commas, and no white space at the ends.\<close>

definition plain_pair :: "string \<times> string \<Rightarrow> bool" where
  "plain_pair kv \<longleftrightarrow>
     (case kv of (k, v) \<Rightarrow>
        CHR ''='' \<notin> set k \<and> CHR '','' \<notin> set k \<and> CHR '','' \<notin> set v \<and> trimmed k \<and> trimmed v)"

lemma parse_property_pair: "plain_pair kv \<Longrightarrow> parse_property (pair_text kv) = [pair_property kv]"
  by (auto simp: plain_pair_def pair_text_def pair_property_def parse_property_def trim_trimmed
      split_at_char)

text \<open>
  C38. The properties typed as \<open>k=v\<close>, separated by commas, are read as they were typed: keys
  without equals sign, keys and values without comma and without white space at the ends,
  empty ones included.
\<close>

theorem parse_properties_roundtrip:
  assumes "\<forall>kv \<in> set kvs. plain_pair kv"
  shows "parse_properties (join '','' (map pair_text kvs)) = map pair_property kvs"
proof -
  have "pieces [] (join '','' (map pair_text kvs)) = map pair_text kvs"
    using assms by (intro pieces_join) (auto simp: pair_text_def plain_pair_def)
  moreover have "concat (map parse_property (map pair_text kvs)) = map pair_property kvs"
    using assms by (induction kvs) (simp_all add: parse_property_pair)
  ultimately show ?thesis by (simp add: parse_properties_def)
qed

lemma parse_properties_roundtrip_witness:
  "parse_properties ''name=a b,url=x=y,='' =
     [\<lparr>prop_key = ''name'', prop_value = StringV ''a b''\<rparr>, \<lparr>prop_key = ''url'', prop_value = StringV ''x=y''\<rparr>,
      \<lparr>prop_key = [], prop_value = StringV []\<rparr>]"
proof -
  let ?kvs = "[(''name'', ''a b''), (''url'', ''x=y''), ([], [])]"
  have "\<forall>kv \<in> set ?kvs. plain_pair kv" by (simp add: plain_pair_def trimmed_def is_space_def)
  from parse_properties_roundtrip [OF this] show ?thesis by (simp add: pair_text_def pair_property_def)
qed

section \<open>Lines that are read otherwise than meant\<close>

text \<open>
  The arguments begin behind the first blank of the line, also when that is in front of the
  command; and the properties of an edge at the first occurrence of their first word.
\<close>

lemma leading_blank:
  "process_command env '' get-node 1'' r = said ''Invalid node ID format'' r"
proof -
  have "tokenize '' get-node 1'' = [''get-node'', ''1'']" "arguments '' get-node 1'' = ''get-node 1''"
    "stoull ''get-node 1'' = Inl (Exception ''stoull'')"
    by code_simp+
  then show ?thesis by (simp add: process_command_def cmd_get_node_def with_id_def catching_def said_def)
qed

lemma first_word_in_label:
  "length (tokenize ''1 2 xa=1 a=1'') = 4 \<and>
   map_sum id parse_properties (from_word (tokenize ''1 2 xa=1 a=1'' ! 3) ''1 2 xa=1 a=1'') =
     Inr [\<lparr>prop_key = ''a'', prop_value = StringV ''1 a=1''\<rparr>]"
  by code_simp

section \<open>Sizes\<close>

definition LINE_LIMIT :: nat where
  "LINE_LIMIT = 1500"

lemma varint_bytes_short: "unat v < 2 ^ 14 \<Longrightarrow> length (varint_bytes v) \<le> 2"
proof (rule ccontr)
  let ?n = "length (varint_bytes v)"
  assume v: "unat v < 2 ^ 14" and "\<not> ?n \<le> 2"
  then have n: "2 \<le> ?n - 1" "1 < ?n" by auto
  have "(2 :: nat) ^ (7 * 2) \<le> 2 ^ (7 * (?n - 1))" using n(1) by (intro power_increasing) auto
  then show False using varint_bytes_length_bounds [of v] n(2) v by simp
qed

lemma string_enc_short: "length s < 2 ^ 14 \<Longrightarrow> length (string_enc s) \<le> length s + 2"
  using varint_bytes_short [of "word_of_nat (length s)"]
  by (simp add: string_enc_def string_bytes_def unat_word_of_nat)

definition piece_bound :: "Property list \<Rightarrow> string \<Rightarrow> bool" where
  "piece_bound ps piece \<longleftrightarrow>
     list_all wf_property ps \<and> 2 * length (concat (map property_enc ps)) \<le> 5 * (length piece + 1) \<and>
     length ps \<le> 1"

lemma parse_property_bound:
  assumes "length piece < 2 ^ 14"
  shows "piece_bound (parse_property piece) piece"
proof (cases "split_at ''='' piece")
  case None
  then show ?thesis by (simp add: piece_bound_def parse_property_def)
next
  case (Some kv)
  obtain k v where kv: "split_at ''='' piece = Some (k, v)" using Some by (cases kv) auto
  have "length (trim k) + length (trim v) + 1 \<le> length piece"
    using split_at_size [OF kv] length_trim [of k] length_trim [of v] by simp
  moreover from this have "length (string_enc (trim k)) \<le> length (trim k) + 2"
    "length (string_enc (trim v)) \<le> length (trim v) + 2"
    using assms string_enc_short [of "trim k"] string_enc_short [of "trim v"] by auto
  ultimately show ?thesis
    using assms kv
    by (simp add: piece_bound_def parse_property_def property_enc_def value_enc_def wf_property_def
        wf_string_def wf_value_def)
qed

lemma pieces_size: "sum_list (map (\<lambda>p. length p + 1) (pieces acc s)) \<le> length acc + length s + 1"
proof (induction s arbitrary: acc)
  case (Cons c s)
  then show ?case using Cons.IH [of "[]"] Cons.IH [of "acc @ [c]"] by auto
qed simp

lemma pieces_bound:
  assumes "\<forall>p \<in> set ps. length p < 2 ^ 14"
  shows "list_all wf_property (concat (map parse_property ps)) \<and>
    2 * length (concat (map property_enc (concat (map parse_property ps)))) \<le>
      5 * sum_list (map (\<lambda>p. length p + 1) ps) \<and>
    length (concat (map parse_property ps)) \<le> sum_list (map (\<lambda>p. length p + 1) ps)"
  using assms
proof (induction ps)
  case (Cons p ps)
  then show ?case using parse_property_bound [of p] by (auto simp: piece_bound_def)
qed simp

lemma storable_parse_properties:
  assumes "length s \<le> LINE_LIMIT"
  shows "storable (parse_properties s)"
proof -
  let ?ps = "pieces [] s" and ?props = "parse_properties s"
  have total: "sum_list (map (\<lambda>p. length p + 1) ?ps) \<le> 1501"
    using pieces_size [of "[]" s] assms by (simp add: LINE_LIMIT_def)
  have "length p < 2 ^ 14" if "p \<in> set ?ps" for p
    using member_le_sum_list [of "length p + 1" "map (\<lambda>p. length p + 1) ?ps"] that total by auto
  show ?thesis
    using pieces_bound [of ?ps] \<open>\<And>p. p \<in> set ?ps \<Longrightarrow> length p < 2 ^ 14\<close> total
      varint_bytes_short [of "word_of_nat (length ?props)"]
    by (auto simp: storable_def wf_properties_def serialize_properties_eq PAGE_SIZE_def
        sizeof_PageHeader_def sizeof_NodeRecord_def properties_max_size_def unat_word_of_nat
        parse_properties_def [symmetric])
qed

end
