(* ===== verification/ReplSessions.thy ===== *)
theory ReplSessions
  imports ReplText
begin

text \<open>
  Sessions of the shell without Cypher: every command returns, no exception reaches the loop,
  and the indexes of the shell agree with the graph.
\<close>

section \<open>The indexes and the graph\<close>

definition holding :: "(u64 \<rightharpoonup> 'r \<times> Property list) \<Rightarrow> string \<Rightarrow> string \<Rightarrow> u64 set" where
  "holding at k v = {i. \<exists>r ps. at i = Some (r, ps) \<and> \<lparr>prop_key = k, prop_value = StringV v\<rparr> \<in> set ps}"

definition indexed :: "SimpleIndexManager \<Rightarrow> GraphStore \<Rightarrow> bool" where
  "indexed im gs \<longleftrightarrow>
     (\<forall>n. index_outgoing_edges n im = get_outgoing_edges n gs \<and>
          index_incoming_edges n im = get_incoming_edges n gs) \<and>
     (\<forall>k v. set (find_nodes_by_property k v im) = holding (node_at gs) k v \<and>
            set (find_edges_by_property k v im) = holding (edge_at gs) k v)"

lemma indexed_same: "same_graph gs gs' \<Longrightarrow> indexed im gs \<Longrightarrow> indexed im gs'"
  using same_graphD [of gs gs'] adjacency_at_cong [of gs' gs] by (simp add: indexed_def)

lemma holding_new:
  "at i = None \<Longrightarrow> holding (at(i \<mapsto> (r, ps))) k v =
     holding at k v \<union> (if \<lparr>prop_key = k, prop_value = StringV v\<rparr> \<in> set ps then {i} else {})"
  by (auto simp: holding_def)

text \<open>What \<open>index_properties\<close> adds to one of the two property indexes.\<close>

context value_index
begin

lemma find_index_properties:
  "set (find k v (foldl (\<lambda>s p. case prop_value p of StringV w \<Rightarrow> add i (prop_key p) w s | _ \<Rightarrow> s) s ps)) =
     set (find k v s) \<union> (if \<lparr>prop_key = k, prop_value = StringV v\<rparr> \<in> set ps then {i} else {})"
proof (induction ps arbitrary: s)
  case (Cons p ps)
  have p: "\<lparr>prop_key = k, prop_value = StringV v\<rparr> = p \<longleftrightarrow> prop_key p = k \<and> prop_value p = StringV v"
    by (cases p) auto
  show ?case by (cases "prop_value p") (auto simp: Cons.IH find_add p)
qed simp

end

lemmas find_indexed =
  node_index.find_index_properties [folded index_properties_def]
  edge_index.find_index_properties [folded index_properties_def]

lemma foldl_index_other:
  assumes "\<And>k v m. f (g k v m) = f m"
  shows "f (index_properties g ps m) = f m"
  unfolding index_properties_def
  by (induction ps arbitrary: m) (auto simp: assms split: property_value.splits)

lemma index_properties_other:
  "index_outgoing_edges n (index_properties (index_node_property i) ps m) = index_outgoing_edges n m"
  "index_incoming_edges n (index_properties (index_node_property i) ps m) = index_incoming_edges n m"
  "find_edges_by_property k v (index_properties (index_node_property i) ps m) = find_edges_by_property k v m"
  "index_outgoing_edges n (index_properties (index_edge_property i) ps m) = index_outgoing_edges n m"
  "index_incoming_edges n (index_properties (index_edge_property i) ps m) = index_incoming_edges n m"
  "find_nodes_by_property k v (index_properties (index_edge_property i) ps m) = find_nodes_by_property k v m"
  by (rule foldl_index_other;
      simp add: index_node_property_def index_edge_property_def adjacency_defs
        find_edges_by_property_def find_nodes_by_property_def)+

lemma index_add_edge:
  "index_outgoing_edges n (add_edge_to_adjacency src dst e m) =
     (if n = src then index_outgoing_edges n m @ [e] else index_outgoing_edges n m)"
  "index_incoming_edges n (add_edge_to_adjacency src dst e m) =
     (if n = dst then index_incoming_edges n m @ [e] else index_incoming_edges n m)"
  "find_nodes_by_property k v (add_edge_to_adjacency src dst e m) = find_nodes_by_property k v m"
  "find_edges_by_property k v (add_edge_to_adjacency src dst e m) = find_edges_by_property k v m"
  by (auto simp: adjacency_defs find_nodes_by_property_def find_edges_by_property_def)

lemma create_node_adjacency:
  "outgoing_edges (snd (create_node ps gs)) = outgoing_edges gs"
  "incoming_edges (snd (create_node ps gs)) = incoming_edges gs"
  by (simp_all add: create_node_def get_next_node_id_def store_node_record_def split: prod.splits sum.splits)

lemma create_edge_adjacency:
  assumes "create_edge hash now src dst label ps gs = (Inr e, gs')"
  shows "get_outgoing_edges n gs' = (if n = src then get_outgoing_edges n gs @ [e] else get_outgoing_edges n gs)"
    "get_incoming_edges n gs' = (if n = dst then get_incoming_edges n gs @ [e] else get_incoming_edges n gs)"
  using assms
  by (auto simp: create_edge_def get_next_edge_id_def store_edge_record_def Let_def
      get_outgoing_edges_def get_incoming_edges_def update_adjacency_lists_def
      split: prod.splits sum.splits)

section \<open>Commands that only read\<close>

definition session_ok :: "REPL \<Rightarrow> bool" where
  "session_ok r \<longleftrightarrow>
     wf_graph (repl_graph r) \<and> mvcc_manager (repl_graph r) = None \<and> indexed (repl_index r) (repl_graph r)"

definition same_session :: "REPL \<Rightarrow> REPL \<Rightarrow> bool" where
  "same_session r r' \<longleftrightarrow>
     same_graph (repl_graph r) (repl_graph r') \<and> repl_index r' = repl_index r \<and> running r' = running r"

lemma same_session_ok:
  "same_session r r' \<Longrightarrow> session_ok r \<Longrightarrow>
     session_ok r' \<and> graph_room (repl_graph r') = graph_room (repl_graph r) \<and>
     abs_graph (repl_graph r') = abs_graph (repl_graph r) \<and> running r' = running r"
  using same_graphD [of "repl_graph r" "repl_graph r'"] indexed_same [of "repl_graph r" "repl_graph r'"]
    same_graph_wf [of "repl_graph r" "repl_graph r'"] abs_graph_same [of "repl_graph r" "repl_graph r'"]
  by (simp add: same_session_def session_ok_def)

lemma session_fields [simp]:
  "repl_graph (say line r) = repl_graph r" "repl_index (say line r) = repl_index r"
  "repl_queries (say line r) = repl_queries r"
  "repl_graph (print_query_result q r) = repl_graph r" "repl_index (print_query_result q r) = repl_index r"
  "repl_graph (set_graph gs r) = gs" "repl_index (set_graph gs r) = repl_index r"
  "repl_graph (r\<lparr>running := b\<rparr>) = repl_graph r" "repl_graph (r\<lparr>printed := ls\<rparr>) = repl_graph r"
  "repl_graph (r\<lparr>repl_index := im\<rparr>) = repl_graph r"
  "running (say line r) = running r" "running (print_query_result q r) = running r"
  "running (set_graph gs r) = running r"
  by (simp_all add: repl_graph_def say_def print_query_result_def set_graph_def)

definition harmless :: "REPL \<Rightarrow> unit result \<times> REPL \<Rightarrow> bool" where
  "harmless r x \<longleftrightarrow>
     (case x of (res, r') \<Rightarrow> same_session r r' \<and> (case res of Inl (Exception w) \<Rightarrow> True | Inl _ \<Rightarrow> False | _ \<Rightarrow> True))"

definition quiet :: "REPL \<Rightarrow> (unit result \<times> REPL) option \<Rightarrow> bool" where
  "quiet r x \<longleftrightarrow> (\<exists>r'. x = Some (Inr (), r') \<and> same_session r r')"

text \<open>A query answers with a result or with an error that has a message.\<close>

definition answered :: "GraphStore \<Rightarrow> 'a result \<times> GraphStore \<Rightarrow> bool" where
  "answered gs x \<longleftrightarrow>
     (case x of (res, gs') \<Rightarrow> same_graph gs gs' \<and> (case res of Inr q \<Rightarrow> True | Inl (Error c m) \<Rightarrow> True | _ \<Rightarrow> False))"

named_theorems quietly

lemma same_session_refl: "session_ok r \<Longrightarrow> same_session r r"
  by (simp add: same_session_def session_ok_def same_graph_refl)

lemma harmless_stop: "session_ok r \<Longrightarrow> harmless r (Inl (Exception w), r)"
  by (simp add: harmless_def same_session_refl)

lemma quiet_said [quietly]: "session_ok r \<Longrightarrow> quiet r (said line r)"
  by (simp add: quiet_def said_def same_session_def session_ok_def same_graph_refl)

lemma quiet_catching [quietly]: "harmless r x \<Longrightarrow> quiet r (Some (catching line x))"
  by (auto simp: harmless_def quiet_def catching_def same_session_def split: prod.splits sum.splits error.splits)

lemma quiet_reported [quietly]: "answered (repl_graph r) x \<Longrightarrow> quiet r (Some (reported failure x r))"
  by (auto simp: quiet_def answered_def reported_def report_def same_session_def
      split: prod.splits sum.splits error.splits)

lemma harmless_reported [quietly]: "answered (repl_graph r) x \<Longrightarrow> harmless r (reported failure x r)"
  by (auto simp: harmless_def answered_def reported_def report_def same_session_def
      split: prod.splits sum.splits error.splits)

lemma report_reported: "report failure res r = reported failure (res, repl_graph r) r"
  by (simp add: reported_def set_graph_def repl_graph_def)

lemma stoull_error: "stoull s = Inl e \<Longrightarrow> \<exists>w. e = Exception w"
  by (auto simp: stoull_def Let_def split: if_splits prod.splits)

lemma from_word_error: "from_word w s = Inl e \<Longrightarrow> \<exists>w. e = Exception w"
  by (auto simp: from_word_def split: option.splits)

lemma harmless_with_id [quietly]:
  "session_ok r \<Longrightarrow> (\<And>n. harmless r (f n)) \<Longrightarrow> harmless r (with_id s r f)"
  by (auto simp: with_id_def harmless_stop dest: stoull_error split: sum.splits)

lemma answered_basic [quietly]: "wf_graph gs \<Longrightarrow> answered gs (Inr q, gs)"
  by (simp add: answered_def same_graph_refl)

lemma answered_get_node: "wf_graph gs \<Longrightarrow> answered gs (get_node n gs)"
  by (cases "node_at gs n") (auto simp: answered_def get_node_missing same_graph_refl dest!: get_node_found)

lemma answered_get_edge: "wf_graph gs \<Longrightarrow> answered gs (get_edge e gs)"
  by (cases "edge_at gs e") (auto simp: answered_def get_edge_missing same_graph_refl dest!: get_edge_found)

lemma answered_add_rows:
  "wf_graph gs \<Longrightarrow> answered gs (add_rows get_node row ids q gs)"
  "wf_graph gs \<Longrightarrow> answered gs (add_rows get_edge row2 ids q gs)"
  using node_loader.add_rows_ok [of gs row ids q] edge_loader.add_rows_ok [of gs row2 ids q]
  by (auto simp: answered_def)

lemma answered_adjacent:
  assumes "wf_graph gs"
  obtains xs gs' where "get_adjacent_nodes n gs = (Inr xs, gs')" "same_graph gs gs'"
  using get_adjacent_nodes_ok [OF assms, of n] by blast

lemma answered_queries [quietly]:
  assumes "session_ok r"
  shows "answered (repl_graph r) (get_node_by_id (repl_queries r) n (repl_graph r))"
    "answered (repl_graph r) (get_edge_by_id (repl_queries r) n (repl_graph r))"
    "answered (repl_graph r) (get_nodes_by_property k v im (repl_graph r))"
    "answered (repl_graph r) (get_edges_by_property k v im (repl_graph r))"
    "answered (repl_graph r) (query_adjacent_nodes n (repl_graph r))"
    "answered (repl_graph r) (find_related_documents n limit (repl_graph r))"
    "answered (repl_graph r) (suggest_links_for_document n content (repl_graph r))"
proof -
  have wf: "wf_graph (repl_graph r)" and plain: "\<not> has_mvcc (repl_graph r)"
    using assms by (simp_all add: session_ok_def has_mvcc_def)
  show "answered (repl_graph r) (get_node_by_id (repl_queries r) n (repl_graph r))"
    using answered_get_node [OF wf, of n] plain
    by (auto simp: get_node_by_id_def answered_def split: prod.splits sum.splits)
  show "answered (repl_graph r) (get_edge_by_id (repl_queries r) n (repl_graph r))"
    using answered_get_edge [OF wf, of n] plain
    by (auto simp: get_edge_by_id_def answered_def split: prod.splits sum.splits)
  show "answered (repl_graph r) (get_nodes_by_property k v im (repl_graph r))"
    "answered (repl_graph r) (get_edges_by_property k v im (repl_graph r))"
    unfolding get_nodes_by_property_def get_edges_by_property_def
    by (rule answered_add_rows [OF wf])+
  obtain xs gs' where "get_adjacent_nodes n (repl_graph r) = (Inr xs, gs')" "same_graph (repl_graph r) gs'"
    by (rule answered_adjacent [OF wf])
  then show "answered (repl_graph r) (query_adjacent_nodes n (repl_graph r))"
    "answered (repl_graph r) (find_related_documents n limit (repl_graph r))"
    "answered (repl_graph r) (suggest_links_for_document n content (repl_graph r))"
    by (simp_all add: answered_def query_adjacent_nodes_def find_related_documents_def
        suggest_links_for_document_def)
qed

lemma answered_path:
  assumes "session_ok r"
  obtains x where "find_shortest_path a b (repl_graph r) = Some x" "answered (repl_graph r) x"
proof -
  have "wf_graph (repl_graph r)" using assms by (simp add: session_ok_def)
  from graph_neighbours.shortest_path [OF this, of a b] obtain path gs' where
    "bfs_shortest_path get_adjacent_nodes a b (repl_graph r) = Some (Inr path, gs')"
    "same_graph (repl_graph r) gs'" by blast
  then show ?thesis by (auto simp: find_shortest_path_def answered_def intro: that)
qed

lemma quiet_queries:
  assumes "session_ok r"
  shows "quiet r (cmd_get_node args r)" "quiet r (cmd_get_edge args r)" "quiet r (cmd_adjacent args r)"
    "quiet r (cmd_find_nodes args r)" "quiet r (cmd_find_edges args r)"
    "quiet r (cmd_backlinks args r)" "quiet r (cmd_outlinks args r)"
  using assms
  by (auto simp: cmd_get_node_def cmd_get_edge_def cmd_adjacent_def cmd_find_nodes_def cmd_find_edges_def
      cmd_backlinks_def cmd_outlinks_def get_document_backlinks_def get_document_outlinks_def
      query_incoming_edges_def query_outgoing_edges_def report_reported session_ok_def [of r] Let_def
      intro!: quietly)

lemma quiet_documents:
  assumes "session_ok r"
  shows "quiet r (cmd_related args r)" "quiet r (cmd_suggest args r)" "quiet r (cmd_stats args r)"
    "quiet r (cmd_path args r)"
proof -
  have wf: "wf_graph (repl_graph r)" using assms by (simp add: session_ok_def)
  have "harmless r (case x of Inl e \<Rightarrow> (Inl e, r) | Inr y \<Rightarrow> f y)"
    if "\<And>e. x = Inl e \<Longrightarrow> \<exists>w. e = Exception w" and "\<And>y. harmless r (f y)" for x and f :: "'b \<Rightarrow> unit result \<times> REPL"
    using that harmless_stop [OF assms] by (cases x) auto
  note either = this
  show "quiet r (cmd_related args r)"
    unfolding cmd_related_def Let_def
    by (auto intro!: quietly assms either dest: stoull_error split: if_splits)
  show "quiet r (cmd_suggest args r)"
    unfolding cmd_suggest_def Let_def
    by (auto intro!: quietly assms either dest: from_word_error)
  show "quiet r (cmd_stats args r)"
    by (auto simp: cmd_stats_def get_node_degree_stats_def report_reported wf intro!: quietly)
  show "quiet r (cmd_path args r)"
  proof (cases "stoull (tokenize args ! 0)"; cases "stoull (tokenize args ! 1)")
    fix a b
    assume ab: "stoull (tokenize args ! 0) = Inr a" "stoull (tokenize args ! 1) = Inr b"
    obtain x where x: "find_shortest_path a b (repl_graph r) = Some x" "answered (repl_graph r) x"
      by (rule answered_path [OF assms])
    show ?thesis
      using ab x(1) by (auto simp: cmd_path_def Let_def intro!: quietly assms x(2))
  qed (auto simp: cmd_path_def Let_def intro!: quietly assms)
qed

lemma quiet_others:
  assumes "session_ok r"
  shows "quiet r (cmd_count args r)" "quiet r (cmd_help args r)" "quiet r (said line (say line2 r))"
  using assms
  by (simp_all add: cmd_count_def cmd_help_def said_def quiet_def same_session_def
      count_nodes_def count_edges_def session_ok_def same_graph_refl)

section \<open>Commands that create\<close>

text \<open>The calls of the graph store a command stands for.\<close>

definition node_calls :: "string \<Rightarrow> graph_call list" where
  "node_calls args = (if args = [] then [] else [CreateNodeCall (parse_properties args)])"

definition edge_calls :: "u64 \<Rightarrow> string \<Rightarrow> graph_call list" where
  "edge_calls now args =
     (let t = tokenize args
      in if length t < 3 then []
         else
           case (stoull (t ! 0), stoull (t ! 1),
                 if 3 < length t then map_sum id parse_properties (from_word (t ! 3) args) else Inr []) of
             (Inr src, Inr dst, Inr ps) \<Rightarrow> [CreateEdgeCall now src dst (t ! 2) ps]
           | _ \<Rightarrow> [])"

text \<open>A command leaves the session in order, makes these calls and takes at most one page.\<close>

definition fine :: "(string \<Rightarrow> u64) \<Rightarrow> graph_call list \<Rightarrow> REPL \<Rightarrow> (unit result \<times> REPL) option \<Rightarrow> bool" where
  "fine hash cs r x \<longleftrightarrow>
     (\<exists>r'. x = Some (Inr (), r') \<and> session_ok r' \<and> running r' = running r \<and>
        abs_graph (repl_graph r') = fold (spec_call hash) cs (abs_graph (repl_graph r)) \<and>
        graph_room (repl_graph r) \<le> Suc (graph_room (repl_graph r')))"

lemma fine_quiet: "session_ok r \<Longrightarrow> quiet r x \<Longrightarrow> fine hash [] r x"
  using same_session_ok by (fastforce simp: quiet_def fine_def)

lemma created_node_session:
  assumes ok: "session_ok r" and room: "0 < graph_room (repl_graph r)" and fits: "storable ps"
  obtains n gs where "create_node ps (repl_graph r) = (Inr n, gs)"
    "wf_graph gs" "mvcc_manager gs = None" "Suc (graph_room gs) = graph_room (repl_graph r)"
    "indexed (index_properties (index_node_property n) ps (repl_index r)) gs"
    "abs_graph gs = spec_call hash (CreateNodeCall ps) (abs_graph (repl_graph r))"
proof -
  let ?gs = "repl_graph r"
  have wf: "wf_graph ?gs" and ix: "indexed (repl_index r) ?gs" and mvcc: "mvcc_manager ?gs = None"
    using ok by (simp_all add: session_ok_def)
  obtain gs where gs: "create_node ps ?gs = (Inr (next_node_id ?gs), gs)" "wf_graph gs"
    "node_at ?gs (next_node_id ?gs) = None"
    "node_at gs = (node_at ?gs)(next_node_id ?gs \<mapsto> (created_node (next_node_id ?gs) ps, ps))"
    "edge_at gs = edge_at ?gs" "Suc (graph_room gs) = graph_room ?gs" "mvcc_manager gs = mvcc_manager ?gs"
    using create_node_ok [OF wf room fits] by blast
  have adj: "get_outgoing_edges n gs = get_outgoing_edges n ?gs"
    "get_incoming_edges n gs = get_incoming_edges n ?gs" for n
    using create_node_adjacency [of ps ?gs] adjacency_at_cong [of gs ?gs] gs(1) by simp_all
  have "indexed (index_properties (index_node_property (next_node_id ?gs)) ps (repl_index r)) gs"
    using ix
    by (simp add: indexed_def index_properties_other find_indexed adj gs(4,5)
        holding_new [of "node_at ?gs", OF gs(3)])
  moreover have "abs_graph gs = spec_call hash (CreateNodeCall ps) (abs_graph ?gs)"
    using run_call_refines [OF wf, of "CreateNodeCall ps" hash] room fits gs(1) by simp
  ultimately show thesis using gs mvcc that by simp
qed

lemma created_edge_session:
  assumes ok: "session_ok r" and room: "0 < graph_room (repl_graph r)" and fits: "storable ps"
  obtains e gs where "create_edge hash now src dst label ps (repl_graph r) = (Inr e, gs)"
    "wf_graph gs" "mvcc_manager gs = None" "Suc (graph_room gs) = graph_room (repl_graph r)"
    "indexed (index_properties (index_edge_property e) ps (add_edge_to_adjacency src dst e (repl_index r))) gs"
    "abs_graph gs = spec_call hash (CreateEdgeCall now src dst label ps) (abs_graph (repl_graph r))"
proof -
  let ?gs = "repl_graph r" and ?e = "next_edge_id (repl_graph r)"
  have wf: "wf_graph ?gs" and ix: "indexed (repl_index r) ?gs" and mvcc: "mvcc_manager ?gs = None"
    using ok by (simp_all add: session_ok_def)
  obtain gs rec where gs: "create_edge hash now src dst label ps ?gs = (Inr ?e, gs)" "wf_graph gs"
    "edge_at ?gs ?e = None" "node_at gs = node_at ?gs" "edge_at gs = (edge_at ?gs)(?e \<mapsto> (rec, ps))"
    "Suc (graph_room gs) = graph_room ?gs" "mvcc_manager gs = mvcc_manager ?gs"
    using create_edge_ok [OF wf room fits] by blast
  have "indexed (index_properties (index_edge_property ?e) ps (add_edge_to_adjacency src dst ?e (repl_index r))) gs"
    using ix
    by (simp add: indexed_def index_properties_other find_indexed index_add_edge
        create_edge_adjacency [OF gs(1)] gs(4,5)
        holding_new [of "edge_at ?gs", OF gs(3)])
  moreover have "abs_graph gs = spec_call hash (CreateEdgeCall now src dst label ps) (abs_graph ?gs)"
    using run_call_refines [OF wf, of "CreateEdgeCall now src dst label ps" hash] room fits gs(1) by simp
  ultimately show thesis using gs mvcc that by simp
qed

lemma fine_create_node:
  assumes "session_ok r" "0 < graph_room (repl_graph r)" and "length args \<le> LINE_LIMIT"
  shows "fine hash (node_calls args) r (cmd_create_node args r)"
proof (cases "args = []")
  case True
  then show ?thesis by (simp add: cmd_create_node_def node_calls_def fine_quiet quietly assms(1))
next
  case False
  obtain n gs where "create_node (parse_properties args) (repl_graph r) = (Inr n, gs)"
    "wf_graph gs" "mvcc_manager gs = None" "Suc (graph_room gs) = graph_room (repl_graph r)"
    "indexed (index_properties (index_node_property n) (parse_properties args) (repl_index r)) gs"
    "abs_graph gs = spec_call hash (CreateNodeCall (parse_properties args)) (abs_graph (repl_graph r))"
    by (rule created_node_session [OF assms(1,2) storable_parse_properties [OF assms(3)]])
  then show ?thesis using False by (simp add: cmd_create_node_def node_calls_def fine_def session_ok_def)
qed

lemma fine_new_edge:
  assumes "session_ok r" "0 < graph_room (repl_graph r)" and "storable ps"
  shows "fine (env_hash env) [CreateEdgeCall (env_now env) src dst label ps] r
    (Some (catching line (new_edge env src dst label ps r)))"
proof -
  obtain e gs where "create_edge (env_hash env) (env_now env) src dst label ps (repl_graph r) = (Inr e, gs)"
    "wf_graph gs" "mvcc_manager gs = None" "Suc (graph_room gs) = graph_room (repl_graph r)"
    "indexed (index_properties (index_edge_property e) ps (add_edge_to_adjacency src dst e (repl_index r))) gs"
    "abs_graph gs = spec_call (env_hash env) (CreateEdgeCall (env_now env) src dst label ps)
       (abs_graph (repl_graph r))"
    by (rule created_edge_session [OF assms])
  then show ?thesis by (simp add: new_edge_def catching_def fine_def session_ok_def)
qed

lemma fine_stop: "session_ok r \<Longrightarrow> fine hash [] r (Some (catching line (Inl (Exception w), r)))"
  by (simp add: fine_def catching_def session_ok_def)

lemma from_word_size: "from_word w s = Inr t \<Longrightarrow> length t \<le> length s"
  by (auto simp: from_word_def split: option.splits dest!: split_at_size)

lemma storable_Nil: "storable []"
  using storable_parse_properties [of "[]"] by (simp add: parse_properties_def LINE_LIMIT_def)

lemma fine_create_edge:
  assumes ok: "session_ok r" "0 < graph_room (repl_graph r)" and short: "length args \<le> LINE_LIMIT"
  shows "fine (env_hash env) (edge_calls (env_now env) args) r (cmd_create_edge env args r)"
proof -
  let ?t = "tokenize args"
  let ?ps = "if 3 < length ?t then map_sum id parse_properties (from_word (?t ! 3) args) else Inr []"
  have fits: "storable ps" if "?ps = Inr ps" for ps
    using that short storable_parse_properties from_word_size
    by (cases "from_word (?t ! 3) args") (fastforce split: if_splits intro: storable_Nil)+
  have stop: "\<exists>w. e = Exception w" if "?ps = Inl e" for e
    using that from_word_error by (cases "from_word (?t ! 3) args") (auto split: if_splits)
  show ?thesis
  proof (cases "length ?t < 3")
    case True
    then show ?thesis by (simp add: cmd_create_edge_def edge_calls_def Let_def fine_quiet quietly ok(1))
  next
    case False
    show ?thesis
    proof (cases "stoull (?t ! 0)"; cases "stoull (?t ! 1)"; cases ?ps)
      fix a b ps
      assume "stoull (?t ! 0) = Inr a" "stoull (?t ! 1) = Inr b" "?ps = Inr ps"
      then show ?thesis
        using False fine_new_edge [OF ok fits] by (simp add: cmd_create_edge_def edge_calls_def with_id_def Let_def)
    qed (use False stop in \<open>auto simp: cmd_create_edge_def edge_calls_def with_id_def Let_def
      dest!: stoull_error intro: fine_stop ok(1)\<close>)
  qed
qed

section \<open>Whole sessions\<close>

definition command_calls :: "u64 \<Rightarrow> string \<Rightarrow> graph_call list" where
  "command_calls now line =
     (case tokenize line of
        [] \<Rightarrow> []
      | cmd # tokens \<Rightarrow>
          let args = (if tokens = [] then [] else arguments line)
          in if cmd = ''create-node'' then node_calls args
             else if cmd = ''create-edge'' then edge_calls now args
             else [])"

definition leaves :: "string \<Rightarrow> bool" where
  "leaves line \<longleftrightarrow> (case tokenize line of [] \<Rightarrow> False | cmd # tokens \<Rightarrow> cmd = ''exit'' \<or> cmd = ''quit'')"

text \<open>The commands the lines of the input are joined to, each with its environment.\<close>

fun commands_of :: "(nat \<Rightarrow> environment) \<Rightarrow> string list \<Rightarrow> string \<Rightarrow> (environment \<times> string) list" where
  "commands_of env [] buffer = []"
| "commands_of env (line # input) buffer =
     (if line \<noteq> [] \<and> last line = CHR 0x5C then commands_of env input (buffer @ butlast line @ [CHR 0x0A])
      else if buffer @ line = [] then commands_of env input []
      else (env (length input), buffer @ line) #
        (if leaves (buffer @ line) then [] else commands_of env input []))"

definition plain_command :: "string \<Rightarrow> bool" where
  "plain_command line \<longleftrightarrow>
     length line \<le> LINE_LIMIT \<and> (case tokenize line of [] \<Rightarrow> True | cmd # tokens \<Rightarrow> cmd \<noteq> ''cypher'')"

definition command_effect :: "environment \<times> string \<Rightarrow> property_graph \<Rightarrow> property_graph" where
  "command_effect x = (case x of (env, line) \<Rightarrow> fold (spec_call (env_hash env)) (command_calls (env_now env) line))"

definition completes :: "environment \<Rightarrow> string \<Rightarrow> REPL \<Rightarrow> (unit result \<times> REPL) option \<Rightarrow> bool" where
  "completes env line r x \<longleftrightarrow>
     (\<exists>r'. x = Some (Inr (), r') \<and> session_ok r' \<and> running r' = (running r \<and> \<not> leaves line) \<and>
        abs_graph (repl_graph r') = command_effect (env, line) (abs_graph (repl_graph r)) \<and>
        graph_room (repl_graph r) \<le> Suc (graph_room (repl_graph r')))"

lemma completes_fine:
  "fine (env_hash env) (command_calls (env_now env) line) r x \<Longrightarrow> \<not> leaves line \<Longrightarrow> completes env line r x"
  by (auto simp: fine_def completes_def command_effect_def)

lemma arguments_size: "length (arguments line) \<le> length line"
  by (auto simp: arguments_def split: option.splits dest!: split_at_size)

lemma completes_exit:
  assumes "session_ok r" and "leaves line"
  shows "completes env line r (cmd_exit args r)"
proof -
  have "command_calls now line = []" for now
    using assms(2) by (auto simp: leaves_def command_calls_def Let_def split: list.splits)
  then show ?thesis
    using assms by (simp add: completes_def cmd_exit_def said_def command_effect_def session_ok_def)
qed

lemma process_command_completes:
  assumes ok: "session_ok r" and room: "0 < graph_room (repl_graph r)" and plain: "plain_command line"
  shows "completes env line r (process_command env line r)"
proof (cases "tokenize line")
  case Nil
  then show ?thesis
    using ok by (simp add: process_command_def completes_def command_effect_def command_calls_def leaves_def)
next
  case (Cons cmd tokens)
  let ?args = "if tokens = [] then [] else arguments line"
  have short: "length ?args \<le> LINE_LIMIT"
    using plain arguments_size [of line] by (auto simp: plain_command_def)
  note quiet = quiet_queries [OF ok] quiet_documents [OF ok] quiet_others [OF ok] quiet_said [OF ok]
  note calls = command_calls_def leaves_def process_command_def Cons Let_def
  consider (node) "cmd = ''create-node''" | (edge) "cmd = ''create-edge''"
    | (exit) "cmd = ''exit'' \<or> cmd = ''quit''"
    | (other) "cmd \<noteq> ''create-node''" "cmd \<noteq> ''create-edge''" "\<not> (cmd = ''exit'' \<or> cmd = ''quit'')"
    by blast
  then show ?thesis
  proof cases
    case node
    then show ?thesis
      using completes_fine [of env line r] fine_create_node [OF ok room short] by (simp add: calls)
  next
    case edge
    then show ?thesis
      using completes_fine [of env line r] fine_create_edge [OF ok room short] by (simp add: calls)
  next
    case exit
    then have "leaves line" by (simp add: leaves_def Cons)
    have "process_command env line r = cmd_exit ?args r"
      using exit by (elim disjE) (simp_all add: process_command_def Cons Let_def)
    then show ?thesis using completes_exit [OF ok \<open>leaves line\<close>] by simp
  next
    case other
    have "quiet r (process_command env line r)"
      using other plain quiet by (simp add: process_command_def Cons Let_def plain_command_def)
    then show ?thesis
      using other completes_fine [of env line r] fine_quiet [OF ok] by (simp add: command_calls_def leaves_def Cons Let_def)
  qed
qed

lemma run_completes:
  assumes "session_ok r" and "running r"
    and "\<forall>(e, c) \<in> set (commands_of env input buffer). plain_command c"
    and "length (commands_of env input buffer) \<le> graph_room (repl_graph r)"
  shows "\<exists>r'. run env input buffer r = Some (Inr (), r') \<and> session_ok r' \<and>
    abs_graph (repl_graph r') = fold command_effect (commands_of env input buffer) (abs_graph (repl_graph r))"
  using assms
proof (induction env input buffer arbitrary: r rule: commands_of.induct)
  case (2 env line input buffer)
  let ?c = "buffer @ line" and ?e = "env (length input)"
  show ?case
  proof (cases "line \<noteq> [] \<and> last line = CHR 0x5C")
    case True
    then show ?thesis using 2 by simp
  next
    case plain: False
    show ?thesis
    proof (cases "?c = []")
      case True
      then show ?thesis using plain 2 by simp
    next
      case False
      have "completes ?e ?c r (process_command ?e ?c r)"
        using 2(4-7) plain False by (intro process_command_completes) auto
      then obtain r1 where r1: "process_command ?e ?c r = Some (Inr (), r1)" "session_ok r1"
        "running r1 = (running r \<and> \<not> leaves ?c)"
        "abs_graph (repl_graph r1) = command_effect (?e, ?c) (abs_graph (repl_graph r))"
        "graph_room (repl_graph r) \<le> Suc (graph_room (repl_graph r1))"
        by (auto simp: completes_def)
      show ?thesis
      proof (cases "leaves ?c")
        case True
        then have "run env input [] r1 = Some (Inr (), r1)" using r1(3) by (cases input) auto
        then show ?thesis using True plain False r1 2(5) by auto
      next
        case stays: False
        have "\<exists>r'. run env input [] r1 = Some (Inr (), r') \<and> session_ok r' \<and>
            abs_graph (repl_graph r') = fold command_effect (commands_of env input []) (abs_graph (repl_graph r1))"
          using 2(3) [OF plain False stays r1(2)] 2(5-7) r1(3,5) plain False stays by auto
        then show ?thesis using plain False stays r1 2(5) by auto
      qed
    qed
  qed
qed simp

lemma session_ok_new:
  assumes "wf_store ps" and "store_room ps < ID_LIMIT"
  shows "session_ok (new_REPL ps)" "abs_graph (repl_graph (new_REPL ps)) = empty_graph"
    "graph_room (repl_graph (new_REPL ps)) = store_room ps" "running (new_REPL ps)"
proof -
  have gs: "repl_graph (new_REPL ps) = new_GraphStore ps None None" "running (new_REPL ps)"
    "repl_index (new_REPL ps) = new_SimpleIndexManager"
    by (simp_all add: new_REPL_def repl_graph_def Let_def)
  note wf = wf_graph_new [OF assms, of None None]
  have "node_at (new_GraphStore ps None None) = Map.empty" "edge_at (new_GraphStore ps None None) = Map.empty"
    using wf(2) by (auto simp: abs_graph_def empty_graph_def fun_eq_iff)
  then have "indexed new_SimpleIndexManager (new_GraphStore ps None None)"
    by (simp add: indexed_def holding_def new_SimpleIndexManager_def adjacency_defs new_GraphStore_def
        get_outgoing_edges_def get_incoming_edges_def find_nodes_by_property_def find_edges_by_property_def)
  then show "session_ok (new_REPL ps)" "abs_graph (repl_graph (new_REPL ps)) = empty_graph"
    "graph_room (repl_graph (new_REPL ps)) = store_room ps" "running (new_REPL ps)"
    using wf by (simp_all add: gs session_ok_def new_GraphStore_def graph_room_def)
qed

section \<open>Sessions build the graph they describe\<close>

definition example_env :: environment where
  "example_env =
     \<lparr>env_hash = example_hash, env_now = 5, env_parse = (\<lambda>q. Inl (Error INVALID_ARGUMENT [])),
      env_sort = (\<lambda>before xs. xs)\<rparr>"

definition example_session :: "string list" where
  "example_session =
     [''create-node name=a'', ''create-node name = b'', [], ''create-edge 1 2 knows'', ''path 1 2'', ''exit'', ''stats'']"

lemma example_commands:
  "commands_of (\<lambda>_. example_env) example_session [] =
     map (Pair example_env) [''create-node name=a'', ''create-node name = b'', ''create-edge 1 2 knows'',
       ''path 1 2'', ''exit'']"
proof -
  have "\<not> leaves ''create-node name=a''" "\<not> leaves ''create-node name = b''"
    "\<not> leaves ''create-edge 1 2 knows''" "\<not> leaves ''path 1 2''" "leaves ''exit''"
    by code_simp+
  then show ?thesis by (simp add: example_session_def)
qed

lemma example_plain:
  "list_all plain_command [''create-node name=a'', ''create-node name = b'', ''create-edge 1 2 knows'',
     ''path 1 2'', ''exit'']"
  by code_simp

lemma example_calls_typed:
  "command_calls 5 ''create-node name=a'' = [CreateNodeCall [\<lparr>prop_key = ''name'', prop_value = StringV ''a''\<rparr>]]"
  "command_calls 5 ''create-node name = b'' = [CreateNodeCall [\<lparr>prop_key = ''name'', prop_value = StringV ''b''\<rparr>]]"
  "command_calls 5 ''create-edge 1 2 knows'' = [CreateEdgeCall 5 1 2 ''knows'' []]"
  "command_calls 5 ''path 1 2'' = []" "command_calls 5 ''exit'' = []"
proof -
  have "tokenize ''create-edge 1 2 knows'' = [''create-edge'', ''1'', ''2'', ''knows'']"
    "arguments ''create-edge 1 2 knows'' = ''1 2 knows''" "tokenize ''1 2 knows'' = [''1'', ''2'', ''knows'']"
    by code_simp+
  moreover have "stoull ''1'' = Inr 1" "stoull ''2'' = Inr 2"
    by (simp_all add: stoull_def is_space_def is_digit_def digits_value_def Let_def)
  ultimately show "command_calls 5 ''create-edge 1 2 knows'' = [CreateEdgeCall 5 1 2 ''knows'' []]"
    by (simp add: command_calls_def edge_calls_def Let_def)
qed code_simp+

lemma holding_nodes:
  "holding (node_at gs) k v =
     {n. \<exists>ps. pg_nodes (abs_graph gs) n = Some ps \<and> \<lparr>prop_key = k, prop_value = StringV v\<rparr> \<in> set ps}"
  by (auto simp: holding_def abs_graph_def)

text \<open>
  C16. A session of the shell in which no command is longer than \<open>LINE_LIMIT\<close> and none is a
  Cypher query, on a new database with a page for each command: the loop answers every
  command and ends without an error, the graph is the one the create-node and create-edge
  commands describe up to the first exit, and the indexes of the shell agree with it: the
  adjacency lists are those of the graph, and a property leads to the nodes and the edges that
  have it.
\<close>

theorem session_correct:
  assumes "wf_store ps" and "store_room ps < ID_LIMIT"
    and "\<forall>(e, c) \<in> set (commands_of env input []). plain_command c"
    and "length (commands_of env input []) \<le> store_room ps"
  shows "\<exists>r. run env input [] (new_REPL ps) = Some (Inr (), r) \<and>
    abs_graph (repl_graph r) = fold command_effect (commands_of env input []) empty_graph \<and>
    indexed (repl_index r) (repl_graph r)"
proof -
  note new = session_ok_new [OF assms(1,2)]
  show ?thesis
    using run_completes [OF new(1,4) assms(3)] assms(4) new(2,3) by (auto simp: session_ok_def)
qed

lemma session_correct_witness:
  "\<exists>r. run (\<lambda>_. example_env) example_session [] (new_REPL example_store) = Some (Inr (), r) \<and>
     pg_nodes (abs_graph (repl_graph r)) =
       [1 \<mapsto> [\<lparr>prop_key = ''name'', prop_value = StringV ''a''\<rparr>],
        2 \<mapsto> [\<lparr>prop_key = ''name'', prop_value = StringV ''b''\<rparr>]] \<and>
     pg_edges (abs_graph (repl_graph r)) = [1 \<mapsto> (1, 2, 5, [])] \<and>
     set (find_nodes_by_property ''name'' ''b'' (repl_index r)) = {2}"
proof -
  let ?cs = "commands_of (\<lambda>_. example_env) example_session []"
  have plain: "\<forall>(e, c) \<in> set ?cs. plain_command c"
    using example_plain by (auto simp: example_commands)
  have room: "length ?cs \<le> store_room example_store"
    using example_store_facts(3) by (simp add: example_commands)
  have "fold command_effect ?cs empty_graph =
      \<lparr>pg_nodes = [1 \<mapsto> [\<lparr>prop_key = ''name'', prop_value = StringV ''a''\<rparr>],
                   2 \<mapsto> [\<lparr>prop_key = ''name'', prop_value = StringV ''b''\<rparr>]],
       pg_edges = [1 \<mapsto> (1, 2, 5, [])], pg_next_node = 3, pg_next_edge = 2\<rparr>"
  proof -
    have "command_effect (example_env, c) = fold (spec_call example_hash) (command_calls 5 c)" for c
      by (simp add: command_effect_def example_env_def)
    then show ?thesis
      by (simp add: example_commands example_calls_typed empty_graph_def example_hash_def)
  qed
  then show ?thesis
    using session_correct [OF example_store_facts(1,2) plain room] by (fastforce simp: indexed_def holding_nodes split: if_splits)
qed

end
