(* ===== verification/Spec2Isabelle.thy ===== *)
theory Spec2Isabelle
  imports VarInt Crc32 RecordCodec FilePageStore Transactions LockManager MvccManager WalManager IndexManager
    GraphVersions CypherNumbers CypherOutcomes CypherQueries ReplSessions
begin

text \<open>
  LoreDB is a graph database: nodes and edges with properties, stored as records in the pages
  of a file, with transactions, several versions of each record, a write-ahead log, indexes,
  a set of direct queries and a query language, a part of Cypher. This development follows
  its C++ sources under \<open>src/src\<close> part by part; every definition that translates code keeps
  the name of the function or type, up to a suffix where it would clash.

  \<^bold>\<open>How the code is modelled.\<close> Structs are records, enums and variants datatypes, integers words
  of their width (wrapping as in C++), strings lists of characters, unordered maps partial
  maps, or association lists where they are iterated over. An object's methods are functions
  that take and return its state. \<open>util::expected\<close> and exceptions are one sum type,
  \<open>LorePrelude.result\<close>, whose left side is an error of the code, an exception, or code
  whose behaviour C++ leaves undefined. Loops that may not end return \<open>None\<close> when they do
  not. Doubles are their 64-bit images, with the operations of IEEE 754 the code uses.

  \<^bold>\<open>Theories and sources.\<close>
  \<^item> \<open>LorePrelude\<close>: words, byte images, maps, results; lemmas the other theories share.
  \<^item> \<open>VarInt\<close> (\<open>util/varint\<close>), \<open>Crc32\<close> (\<open>util/crc32\<close>): encodings, with their round trip and the
    equivalence of the table-driven CRC with the bitwise one.
  \<^item> \<open>PageLayout\<close> (\<open>storage/page_store.h\<close>), \<open>RecordCodec\<close> (\<open>storage/record\<close>): the layout of pages
    and the serializer; the round trip of records, and reading arbitrary bytes.
  \<^item> \<open>FilePageStore\<close> (\<open>storage/file_page_store\<close>): pages in a file; invariant, reading what was
    written, allocation, reopening.
  \<^item> \<open>Transactions\<close> (\<open>transaction/mvcc\<close>), \<open>LockManager\<close> (\<open>transaction/lock_manager\<close>),
    \<open>MvccManager\<close> (\<open>transaction/mvcc_manager\<close>): outcomes are final; locks exclude each other and
    the waits-for graph has no cycle, over every interleaving of calls; which version whom
    a reader sees; garbage collection.
  \<^item> \<open>WalManager\<close> (\<open>storage/wal_manager\<close>): the log on the bytes of its file; what recovery replays.
  \<^item> \<open>IndexManager\<close> (\<open>storage/simple_index_manager\<close>): exactness of the indexes.
  \<^item> \<open>GraphStore\<close>, \<open>GraphRefinement\<close>, \<open>GraphVersions\<close> (\<open>storage/graph_store\<close>): the operations; the
    refinement of an abstract property graph by the pages, maps and counters; the
    operations in transactions.
  \<^item> \<open>QueryExecutor\<close>, \<open>GraphSearch\<close>, \<open>QueryResults\<close> (\<open>query/executor\<close>, \<open>query/query_types.h\<close>):
    direct queries; the breadth-first search finds shortest paths, the depth-first search
    all simple paths up to a length.
  \<^item> \<open>CypherAst\<close> (\<open>query/cypher/ast.h\<close>), \<open>Doubles\<close>, \<open>CypherEval\<close>
    (\<open>query/cypher/expression_evaluator\<close>), \<open>CypherMatch\<close>, \<open>CypherExecutor\<close>
    (\<open>query/cypher/executor\<close>, \<open>query/planner\<close>, \<open>query/execution_plan\<close>): execution of queries.
  \<^item> \<open>CypherReads\<close>: what reading does, by rules for the states no reading can tell apart;
    \<open>CypherPaths\<close>, \<open>CypherResults\<close>: the rows of patterns and of whole queries;
    \<open>CypherTransactions\<close>: what a failed query leaves behind; \<open>CypherOutcomes\<close>: ending, and the
    shape of results; \<open>CypherNumbers\<close>: where comparing numbers is exact.
  \<^item> \<open>CypherGrammar\<close> (\<open>query/cypher/grammar.h\<close>): the grammar as data, and what PEGTL documents
    its templates to match; \<open>CypherMatching\<close>: matching ends on every text.
  \<^item> \<open>CypherParser\<close> (\<open>query/cypher/parser\<close>): the builder of queries; \<open>CypherSkeleton\<close>: the part of
    a parse tree it depends on; \<open>CypherBuild\<close>: the trees of queries and what is built from
    them; \<open>CypherQueries\<close>: what texts are read as.
  \<^item> \<open>Repl\<close> (\<open>cli/repl\<close>): the shell and its commands; \<open>ReplText\<close>: what it reads from a line, and that a
    line of up to \<open>LINE_LIMIT\<close> characters has properties that fit a page; \<open>ReplSessions\<close>: a
    session builds the graph its lines describe and keeps the indexes in step with it.

  \<^bold>\<open>How they interact.\<close> A query text goes through \<open>parse_query\<close> to \<open>execute_query\<close>, which begins a
  transaction, runs the clauses against the graph store and commits or aborts. The graph
  store writes records to the pages of a \<open>FilePageStore\<close>, versions to the \<open>MVCCManager\<close> it
  shares with the executor, lines to the log. The shell turns lines into calls of the graph
  store, the index and the executors; its store has neither version manager nor log. The
  locales state what one part promises another and are interpreted on the definitions of the
  part that keeps it.

  \<^bold>\<open>Bounds and fuel.\<close> Only matching with the grammar uses fuel; \<open>query_has_outcome\<close> shows that
  there is enough of it for each text, and \<open>peg_unique\<close> that more does not change the outcome.
  Page size, widths and limits are those of the code.

  \<^bold>\<open>What is an argument.\<close> \<open>std::hash\<close>, the clock, \<open>std::sort\<close> (required to sort only where the
  comparison is a strict weak order), \<open>std::stod\<close>, the order of an unordered map, and PEGTL's
  \<open>parse\<close>, which \<open>follows_grammar\<close> requires to do what is documented.

  \<^bold>\<open>Not modelled.\<close> Log messages (\<open>util/logger\<close>), \<open>util/expected.h\<close> (an alias of \<open>std::expected\<close>),
  \<open>storage/index_manager\<close> (pure virtual functions that nothing implements), the banner, the
  prompt and the terminal of the shell, and \<open>cli/main\<close>. Threads
  are interleavings of whole calls, as each call holds a mutex.
\<close>

end
